(* ===== verification/Prelude.thy ===== *)
theory Prelude
  imports Complex_Main "HOL-Library.AList" "HOL-Library.Multiset" "HOL-Library.Signed_Division"
begin

text \<open>
  What every component of the model shares: Go's 64-bit \<open>int\<close> arithmetic, instants and
  durations, the few functions of the packages \<open>strings\<close> and \<open>strconv\<close> the sources call,
  Go maps as association lists with distinct keys, and the generic lemmas about them.

  Conventions.
  \<^item> A Go \<open>int\<close> or \<open>int64\<close> is an \<^typ>\<open>int\<close>. Where a value comes from outside (node
    capacities, resource requests, durations) the wrap-around of 64 bits is written out with
    \<open>wrap64\<close>; a counter that grows by one per event (statistics, versions, attempts) is left
    unbounded, because a run cannot reach \<open>2 ^ 63\<close> events.
  \<^item> A Go string is a \<^typ>\<open>string\<close>, one character per byte.
  \<^item> \<open>time.Time\<close> is an \<^typ>\<open>int\<close> of nanoseconds since Go's zero time, which is \<open>0\<close>;
    \<open>t.Before(u)\<close> is \<open>t < u\<close>.
  \<^item> A Go map whose emptiness, size or iteration the code observes is an association list.
\<close>

named_theorems wf_intros \<open>introduction rules for well-formedness predicates\<close>
named_theorems step_simps \<open>what one operation does to one projection of a state\<close>

section \<open>64-bit signed integers\<close>

definition wrap64 :: "int \<Rightarrow> int" where
  "wrap64 x = signed_take_bit 63 x"

definition int64_range :: "int \<Rightarrow> bool" where
  "int64_range x \<longleftrightarrow> - (2 ^ 63) \<le> x \<and> x < 2 ^ 63"

abbreviation go_add :: "int \<Rightarrow> int \<Rightarrow> int" where
  "go_add a b \<equiv> wrap64 (a + b)"

abbreviation go_sub :: "int \<Rightarrow> int \<Rightarrow> int" where
  "go_sub a b \<equiv> wrap64 (a - b)"

abbreviation go_mul :: "int \<Rightarrow> int \<Rightarrow> int" where
  "go_mul a b \<equiv> wrap64 (a * b)"

lemma wrap64_in_range [simp]: "int64_range (wrap64 x)"
  using signed_take_bit_int_greater_eq_minus_exp [of 63 x] signed_take_bit_int_less_exp [of 63 x]
  unfolding wrap64_def int64_range_def by blast

lemma wrap64_id: "int64_range x \<Longrightarrow> wrap64 x = x"
  unfolding wrap64_def int64_range_def by (rule signed_take_bit_int_eq_self) simp_all

lemma wrap64_small [simp]: "- (2 ^ 63) \<le> x \<Longrightarrow> x < 2 ^ 63 \<Longrightarrow> wrap64 x = x"
  by (rule wrap64_id) (simp add: int64_range_def)

text \<open>Go's shift \<open>x << n\<close> of a signed 64-bit value: the bits that leave the word are lost.\<close>

definition go_shl :: "int \<Rightarrow> nat \<Rightarrow> int" where
  "go_shl x n = wrap64 (x * 2 ^ n)"

section \<open>Instants and durations\<close>

type_synonym time = int
type_synonym duration = int

definition zero_time :: time where
  "zero_time = 0"

abbreviation time_is_zero :: "time \<Rightarrow> bool" where
  "time_is_zero t \<equiv> t = zero_time"

text \<open>\<open>Time.Sub\<close> saturates at the smallest and largest duration.\<close>

definition time_sub :: "time \<Rightarrow> time \<Rightarrow> duration" where
  "time_sub t u = max (- (2 ^ 63)) (min (2 ^ 63 - 1) (t - u))"

definition nanosecond :: duration where "nanosecond = 1"
definition millisecond :: duration where "millisecond = 1000000"
definition second :: duration where "second = 1000000000"

section \<open>Strings\<close>

text \<open>\<open>strings.ToLower\<close> on ASCII bytes; other bytes are left alone.\<close>

definition to_lower_char :: "char \<Rightarrow> char" where
  "to_lower_char c = (let n = of_char c :: nat in
     if 65 \<le> n \<and> n \<le> 90 then char_of (n + 32) else c)"

definition to_lower :: "string \<Rightarrow> string" where
  "to_lower s = map to_lower_char s"

fun has_prefix :: "string \<Rightarrow> string \<Rightarrow> bool" where
  "has_prefix s [] = True"
| "has_prefix [] (c # p) = False"
| "has_prefix (d # s) (c # p) = (d = c \<and> has_prefix s p)"

definition trim_prefix :: "string \<Rightarrow> string \<Rightarrow> string" where
  "trim_prefix s p = (if has_prefix s p then drop (length p) s else s)"

lemma has_prefix_append [simp]: "has_prefix (p @ s) p"
  by (induction p) simp_all

lemma trim_prefix_append [simp]: "trim_prefix (p @ s) p = s"
  by (simp add: trim_prefix_def)

lemma has_prefix_iff: "has_prefix s p \<longleftrightarrow> (\<exists>t. s = p @ t)"
  by (induction s p rule: has_prefix.induct) auto

text \<open>\<open>strings.TrimSpace\<close> on ASCII white space.\<close>

definition is_space :: "char \<Rightarrow> bool" where
  "is_space c \<longleftrightarrow> (of_char c :: nat) = 32 \<or> (9 \<le> (of_char c :: nat) \<and> (of_char c :: nat) \<le> 13)"

definition trim_space :: "string \<Rightarrow> string" where
  "trim_space s = rev (dropWhile is_space (rev (dropWhile is_space s)))"

text \<open>\<open>strings.Contains\<close>: the needle is a prefix of some suffix.\<close>

fun contains :: "string \<Rightarrow> string \<Rightarrow> bool" where
  "contains [] sub = (sub = [])"
| "contains (c # s) sub = (has_prefix (c # s) sub \<or> contains s sub)"

text \<open>\<open>strings.Split\<close> at a separator of one byte: always at least one field.\<close>

fun split_on :: "char \<Rightarrow> string \<Rightarrow> string list" where
  "split_on sep [] = [[]]"
| "split_on sep (c # s) =
     (if c = sep then [] # split_on sep s
      else (case split_on sep s of [] \<Rightarrow> [[c]] | f # fs \<Rightarrow> (c # f) # fs))"

text \<open>\<open>strings.Cut\<close> at a separator of one byte.\<close>

fun cut :: "char \<Rightarrow> string \<Rightarrow> string \<times> string \<times> bool" where
  "cut sep [] = ([], [], False)"
| "cut sep (c # s) =
     (if c = sep then ([], s, True)
      else (case cut sep s of (a, b, found) \<Rightarrow> (c # a, b, found)))"

text \<open>Decimal numerals, as \<open>%d\<close> prints them and \<open>strconv.Atoi\<close> reads them.\<close>

definition digit_char :: "nat \<Rightarrow> char" where
  "digit_char d = char_of (48 + d)"

fun nat_digits :: "nat \<Rightarrow> string" where
  "nat_digits n = (if n < 10 then [digit_char n] else nat_digits (n div 10) @ [digit_char (n mod 10)])"

declare nat_digits.simps [simp del]

definition itoa :: "int \<Rightarrow> string" where
  "itoa i = (if i < 0 then ''-'' @ nat_digits (nat (- i)) else nat_digits (nat i))"

definition is_digit :: "char \<Rightarrow> bool" where
  "is_digit c \<longleftrightarrow> 48 \<le> (of_char c :: nat) \<and> (of_char c :: nat) \<le> 57"

fun digits_value :: "nat \<Rightarrow> string \<Rightarrow> nat" where
  "digits_value acc [] = acc"
| "digits_value acc (c # s) = digits_value (10 * acc + (of_char c - 48)) s"

text \<open>
  \<open>strconv.Atoi\<close>: an optional sign, then one or more digits, and the value must fit 64 bits.
  \<open>None\<close> stands for \<open>ErrSyntax\<close> and \<open>ErrRange\<close>.
\<close>

definition atoi_sign :: "string \<Rightarrow> bool \<times> string" where
  "atoi_sign s = (case s of [] \<Rightarrow> (False, s)
     | c # r \<Rightarrow> if c = CHR ''-'' then (True, r) else if c = CHR ''+'' then (False, r) else (False, s))"

definition atoi :: "string \<Rightarrow> int option" where
  "atoi s = (case atoi_sign s of (neg, ds) \<Rightarrow>
     if ds = [] \<or> \<not> list_all is_digit ds then None
     else (let v = (if neg then - int (digits_value 0 ds) else int (digits_value 0 ds)) in
           if int64_range v then Some v else None))"

text \<open>\<open>%q\<close> for printable ASCII: quotes around, backslash before a quote or a backslash.\<close>

definition quote :: "string \<Rightarrow> string" where
  "quote s = [CHR 0x22] @
     concat (map (\<lambda>c. if c = CHR 0x22 \<or> c = CHR 0x5C then [CHR 0x5C, c] else [c]) s) @ [CHR 0x22]"

section \<open>Association lists as Go maps\<close>

abbreviation distinct_keys :: "('k \<times> 'v) list \<Rightarrow> bool" where
  "distinct_keys m \<equiv> distinct (map fst m)"

abbreviation map_put :: "'k \<Rightarrow> 'v \<Rightarrow> ('k \<times> 'v) list \<Rightarrow> ('k \<times> 'v) list" where
  "map_put \<equiv> AList.update"

abbreviation map_del :: "'k \<Rightarrow> ('k \<times> 'v) list \<Rightarrow> ('k \<times> 'v) list" where
  "map_del \<equiv> AList.delete"

definition map_vals :: "('k \<times> 'v) list \<Rightarrow> 'v multiset" where
  "map_vals m = mset (map snd m)"

lemma map_vals_simps [simp]:
  "map_vals [] = {#}" "map_vals (p # m) = add_mset (snd p) (map_vals m)"
  "map_vals (m @ m') = map_vals m + map_vals m'" "size (map_vals m) = length m"
  "set_mset (map_vals m) = snd ` set m" "map_vals m = {#} \<longleftrightarrow> m = []"
  by (simp_all add: map_vals_def)

lemma map_del_absent: "map_of m k = None \<Longrightarrow> map_del k m = m"
  by (induction m) (auto split: if_splits)

lemma map_of_NoneD: "map_of m k = None \<Longrightarrow> k \<notin> fst ` set m"
  by (simp add: map_of_eq_None_iff)

lemma map_put_fresh: "map_of m k = None \<Longrightarrow> map_put k v m = m @ [(k, v)]"
  by (induction m) (auto split: if_splits)

lemma map_vals_put_fresh: "map_of m k = None \<Longrightarrow> map_vals (map_put k v m) = add_mset v (map_vals m)"
  by (simp add: map_put_fresh)

lemma map_vals_del:
  assumes "distinct_keys m" and "map_of m k = Some v"
  shows "map_vals m = add_mset v (map_vals (map_del k m))"
  using assms
proof (induction m)
  case Nil
  then show ?case by simp
next
  case (Cons p m)
  show ?case
  proof (cases "fst p = k")
    case True
    with Cons.prems have "k \<notin> fst ` set m" and "snd p = v" by auto
    with True show ?thesis by (simp only: delete_simps delete_id map_vals_simps) simp
  next
    case False
    with Cons have "map_vals m = add_mset v (map_vals (map_del k m))" by (cases p) auto
    with False show ?thesis by (simp add: add_mset_commute)
  qed
qed

lemma mset_map_del:
  "distinct_keys m \<Longrightarrow> map_of m k = Some v \<Longrightarrow> mset m = add_mset (k, v) (mset (map_del k m))"
proof (induction m)
  case Nil
  then show ?case by simp
next
  case (Cons p m)
  then show ?case
    by (cases "fst p = k") (auto simp: add_mset_commute delete_id image_iff)
qed

lemma length_map_del:
  assumes "distinct_keys m" and "map_of m k = Some v"
  shows "length m = Suc (length (map_del k m))"
  using arg_cong [OF map_vals_del [OF assms], of size] by simp

lemma distinct_keys_put [wf_intros]: "distinct_keys m \<Longrightarrow> distinct_keys (map_put k v m)"
  by (rule distinct_update)

lemma distinct_keys_del [wf_intros]: "distinct_keys m \<Longrightarrow> distinct_keys (map_del k m)"
  by (rule distinct_delete)

lemma set_map_del: "p \<in> set (map_del k m) \<Longrightarrow> p \<in> set m"
  by (simp add: AList.delete_eq)

lemma map_of_put [simp]: "map_of (map_put k v m) = (map_of m)(k \<mapsto> v)"
  by (rule update_conv')

lemma map_of_del [simp]: "map_of (map_del k m) = (map_of m)(k := None)"
  by (rule delete_conv')

section \<open>Lists\<close>

definition swap_at :: "'a list \<Rightarrow> nat \<Rightarrow> nat \<Rightarrow> 'a list" where
  "swap_at xs i j = xs[i := xs ! j, j := xs ! i]"

lemma length_swap_at [simp]: "length (swap_at xs i j) = length xs"
  by (simp add: swap_at_def)

lemma nth_swap_at:
  "i < length xs \<Longrightarrow> j < length xs \<Longrightarrow> k < length xs \<Longrightarrow>
   swap_at xs i j ! k = (if k = i then xs ! j else if k = j then xs ! i else xs ! k)"
  by (auto simp: swap_at_def nth_list_update)

lemma mset_swap_at [simp]: "i < length xs \<Longrightarrow> j < length xs \<Longrightarrow> mset (swap_at xs i j) = mset xs"
  unfolding swap_at_def by (rule mset_swap)

lemma mset_butlast_last: "xs \<noteq> [] \<Longrightarrow> mset xs = add_mset (last xs) (mset (butlast xs))"
  by (cases xs rule: rev_cases) simp_all

end
