(* ===== verification/GoHeap.thy ===== *)
theory GoHeap
  imports Prelude
begin

text \<open>
  Go's package \<open>container/heap\<close>, which \<open>internal/queue\<close> instantiates: the sift loops \<open>up\<close> and
  \<open>down\<close> and the functions \<open>Init\<close>, \<open>Push\<close> and \<open>Pop\<close>, over an arbitrary \<open>heap.Interface\<close>
  given by its methods. The locale \<open>heap_interface\<close> states what the package asks of an
  implementation of the interface; inside it the package is proved correct once: the heap
  order is kept, no element is lost or invented, and \<open>Pop\<close> returns an element no other
  element precedes.
\<close>

section \<open>The package\<close>

function heap_up :: "('h \<Rightarrow> nat \<Rightarrow> nat \<Rightarrow> bool) \<Rightarrow> ('h \<Rightarrow> nat \<Rightarrow> nat \<Rightarrow> 'h) \<Rightarrow> 'h \<Rightarrow> nat \<Rightarrow> 'h" where
  "heap_up lt swap h j =
     (let i = (j - 1) div 2 in
      if i = j \<or> \<not> lt h j i then h else heap_up lt swap (swap h i j) i)"
  by pat_completeness auto
termination
  by (relation "measure (\<lambda>(lt, swap, h, j). j)") auto

function heap_down ::
  "('h \<Rightarrow> nat \<Rightarrow> nat \<Rightarrow> bool) \<Rightarrow> ('h \<Rightarrow> nat \<Rightarrow> nat \<Rightarrow> 'h) \<Rightarrow> 'h \<Rightarrow> nat \<Rightarrow> nat \<Rightarrow> 'h" where
  "heap_down lt swap h i n =
     (let j1 = 2 * i + 1 in
      if n \<le> j1 then h
      else let j2 = j1 + 1; j = (if j2 < n \<and> lt h j2 j1 then j2 else j1) in
        if \<not> lt h j i then h else heap_down lt swap (swap h i j) j n)"
  by pat_completeness auto
termination
  by (relation "measure (\<lambda>(lt, swap, h, i, n). n - i)") auto

declare heap_up.simps [simp del] heap_down.simps [simp del]

definition smaller_child :: "('h \<Rightarrow> nat \<Rightarrow> nat \<Rightarrow> bool) \<Rightarrow> 'h \<Rightarrow> nat \<Rightarrow> nat \<Rightarrow> nat" where
  "smaller_child lt h i n =
     (if 2 * i + 2 < n \<and> lt h (2 * i + 2) (2 * i + 1) then 2 * i + 2 else 2 * i + 1)"

lemma heap_down_unfold:
  "heap_down lt swap h i n =
     (if n \<le> 2 * i + 1 \<or> \<not> lt h (smaller_child lt h i n) i then h
      else heap_down lt swap (swap h i (smaller_child lt h i n)) (smaller_child lt h i n) n)"
  by (subst heap_down.simps) (simp add: smaller_child_def Let_def)

definition heap_init ::
  "('h \<Rightarrow> nat) \<Rightarrow> ('h \<Rightarrow> nat \<Rightarrow> nat \<Rightarrow> bool) \<Rightarrow> ('h \<Rightarrow> nat \<Rightarrow> nat \<Rightarrow> 'h) \<Rightarrow> 'h \<Rightarrow> 'h" where
  "heap_init len lt swap h =
     (let n = len h in foldl (\<lambda>h i. heap_down lt swap h i n) h (rev [0..<n div 2]))"

definition heap_push ::
  "('h \<Rightarrow> nat) \<Rightarrow> ('h \<Rightarrow> nat \<Rightarrow> nat \<Rightarrow> bool) \<Rightarrow> ('h \<Rightarrow> nat \<Rightarrow> nat \<Rightarrow> 'h) \<Rightarrow> ('x \<Rightarrow> 'h \<Rightarrow> 'h) \<Rightarrow>
   'x \<Rightarrow> 'h \<Rightarrow> 'h" where
  "heap_push len lt swap push x h = (let h' = push x h in heap_up lt swap h' (len h' - 1))"

definition heap_pop ::
  "('h \<Rightarrow> nat) \<Rightarrow> ('h \<Rightarrow> nat \<Rightarrow> nat \<Rightarrow> bool) \<Rightarrow> ('h \<Rightarrow> nat \<Rightarrow> nat \<Rightarrow> 'h) \<Rightarrow> ('h \<Rightarrow> 'x \<times> 'h) \<Rightarrow>
   'h \<Rightarrow> 'x \<times> 'h" where
  "heap_pop len lt swap pop h =
     (let n = len h - 1; h' = swap h 0 n in pop (heap_down lt swap h' 0 n))"

section \<open>Heap order on lists\<close>

text \<open>
  \<open>heap_upto r n xs\<close>: within the first \<open>n\<close> positions no element ranks before its parent.
  \<open>up_inv\<close> and \<open>down_inv\<close> are what the two sift loops keep: the order may fail only between
  the moving element and its parent, respectively its children.
\<close>

definition parent :: "nat \<Rightarrow> nat" where
  "parent k = (k - 1) div 2"

definition heap_upto :: "('e \<Rightarrow> 'r::linorder) \<Rightarrow> nat \<Rightarrow> 'e list \<Rightarrow> bool" where
  "heap_upto r n xs \<longleftrightarrow> (\<forall>k. 0 < k \<and> k < n \<longrightarrow> r (xs ! parent k) \<le> r (xs ! k))"

definition up_inv :: "('e \<Rightarrow> 'r::linorder) \<Rightarrow> nat \<Rightarrow> 'e list \<Rightarrow> bool" where
  "up_inv r j xs \<longleftrightarrow>
     (\<forall>k. 0 < k \<and> k < length xs \<and> k \<noteq> j \<longrightarrow> r (xs ! parent k) \<le> r (xs ! k)) \<and>
     (0 < j \<longrightarrow> (\<forall>k. 0 < k \<and> k < length xs \<and> parent k = j \<longrightarrow> r (xs ! parent j) \<le> r (xs ! k)))"

definition down_inv :: "('e \<Rightarrow> 'r::linorder) \<Rightarrow> nat \<Rightarrow> nat \<Rightarrow> 'e list \<Rightarrow> bool" where
  "down_inv r n i xs \<longleftrightarrow>
     (\<forall>k. 0 < k \<and> k < n \<and> parent k \<noteq> i \<longrightarrow> r (xs ! parent k) \<le> r (xs ! k)) \<and>
     (0 < i \<longrightarrow> (\<forall>k. 0 < k \<and> k < n \<and> parent k = i \<longrightarrow> r (xs ! parent i) \<le> r (xs ! k)))"

lemma parent_less: "0 < k \<Longrightarrow> parent k < k"
  unfolding parent_def by linarith

lemma parent_lt: "0 < k \<Longrightarrow> k < n \<Longrightarrow> parent k < n"
  unfolding parent_def by linarith

lemma up_inv_done:
  "up_inv r j xs \<Longrightarrow> j = 0 \<or> \<not> r (xs ! j) < r (xs ! parent j) \<Longrightarrow> heap_upto r (length xs) xs"
  unfolding up_inv_def heap_upto_def by (auto simp: not_less)

lemma up_inv_swap:
  assumes inv: "up_inv r j xs" and j: "0 < j" "j < length xs"
    and i: "i = parent j" and lt: "r (xs ! j) < r (xs ! i)"
  shows "up_inv r i (swap_at xs i j)"
proof -
  let ?ys = "swap_at xs i j"
  have ij: "i < j" using j(1) i parent_less by simp
  with j(2) have il: "i < length xs" by simp
  note nth = nth_swap_at [OF il j(2)]
  have old: "\<And>k. 0 < k \<Longrightarrow> k < length xs \<Longrightarrow> k \<noteq> j \<Longrightarrow> r (xs ! parent k) \<le> r (xs ! k)"
    and kids: "\<And>k. 0 < k \<Longrightarrow> k < length xs \<Longrightarrow> parent k = j \<Longrightarrow> r (xs ! i) \<le> r (xs ! k)"
    using inv j i by (auto simp: up_inv_def)
  have "r (?ys ! parent k) \<le> r (?ys ! k)" if k: "0 < k" "k < length xs" "k \<noteq> i" for k
  proof -
    have p: "parent k < length xs" using k parent_lt by blast
    consider "k = j" | "k \<noteq> j" "parent k = i" | "k \<noteq> j" "parent k = j"
      | "k \<noteq> j" "parent k \<noteq> i" "parent k \<noteq> j" by blast
    then show ?thesis
    proof cases
      case 1
      with i have "parent k = i" by simp
      with 1 show ?thesis using lt nth [OF il] nth [OF j(2)] ij by simp
    next
      case 2
      then show ?thesis using old [of k] lt k p by (simp add: nth)
    next
      case 3
      then show ?thesis using kids [of k] k p ij by (simp add: nth)
    next
      case 4
      then show ?thesis using old [of k] k p by (simp add: nth)
    qed
  qed
  moreover have "r (?ys ! parent i) \<le> r (?ys ! k)"
    if k: "0 < k" "k < length xs" "parent k = i" "0 < i" for k
  proof -
    have p: "parent i < i" using k parent_less by blast
    have top: "r (xs ! parent i) \<le> r (xs ! i)" using old [of i] k ij il by simp
    show ?thesis
    proof (cases "k = j")
      case True
      then show ?thesis using top p il k ij by (simp add: nth)
    next
      case False
      with old [of k] k have "r (xs ! i) \<le> r (xs ! k)" by simp
      moreover have "k \<noteq> i" using k parent_less [of k] by linarith
      ultimately show ?thesis using False top p il k ij by (simp add: nth)
    qed
  qed
  ultimately show ?thesis by (simp add: up_inv_def)
qed

lemma down_inv_done:
  "down_inv r n i xs \<Longrightarrow> (\<And>k. 0 < k \<Longrightarrow> k < n \<Longrightarrow> parent k = i \<Longrightarrow> r (xs ! i) \<le> r (xs ! k)) \<Longrightarrow>
   heap_upto r n xs"
  unfolding down_inv_def heap_upto_def by metis

lemma down_inv_swap:
  assumes inv: "down_inv r n i xs" and n: "n \<le> length xs"
    and j: "0 < j" "j < n" "parent j = i" and lt: "r (xs ! j) < r (xs ! i)"
    and least: "\<And>k. 0 < k \<Longrightarrow> k < n \<Longrightarrow> parent k = i \<Longrightarrow> r (xs ! j) \<le> r (xs ! k)"
  shows "down_inv r n j (swap_at xs i j)"
proof -
  let ?ys = "swap_at xs i j"
  have ij: "i < j" using j(1,3) parent_less by blast
  with j(2) n have il: "i < length xs" and jl: "j < length xs" by simp_all
  note nth = nth_swap_at [OF il jl]
  have old: "\<And>k. 0 < k \<Longrightarrow> k < n \<Longrightarrow> parent k \<noteq> i \<Longrightarrow> r (xs ! parent k) \<le> r (xs ! k)"
    and kids: "\<And>k. 0 < i \<Longrightarrow> 0 < k \<Longrightarrow> k < n \<Longrightarrow> parent k = i \<Longrightarrow> r (xs ! parent i) \<le> r (xs ! k)"
    using inv by (auto simp: down_inv_def)
  have "r (?ys ! parent k) \<le> r (?ys ! k)"
    if k: "0 < k" "k < n" "parent k \<noteq> j" for k
  proof -
    have p: "parent k < length xs" and kl: "k < length xs" using k n parent_lt by auto
    consider "k = j" | "k = i" | "k \<noteq> j" "k \<noteq> i" "parent k = i"
      | "k \<noteq> j" "k \<noteq> i" "parent k \<noteq> i" by blast
    then show ?thesis
    proof cases
      case 1
      then show ?thesis using lt j p kl ij by (simp add: nth)
    next
      case 2
      with k kids [of j] j have "r (xs ! parent i) \<le> r (xs ! j)" by simp
      moreover have "parent i < i" using 2 k parent_less by blast
      ultimately show ?thesis using 2 p kl ij by (simp add: nth)
    next
      case 3
      then show ?thesis using least [of k] k p kl by (simp add: nth)
    next
      case 4
      then show ?thesis using old [of k] k p kl by (simp add: nth)
    qed
  qed
  moreover have "r (?ys ! parent j) \<le> r (?ys ! k)"
    if k: "0 < k" "k < n" "parent k = j" for k
  proof -
    have "j < k" using k parent_less [of k] by linarith
    moreover have "r (xs ! j) \<le> r (xs ! k)" using old [of k] k ij by simp
    ultimately show ?thesis using j k n ij il jl by (simp add: nth)
  qed
  ultimately show ?thesis by (simp add: down_inv_def)
qed

lemma heap_upto_root:
  assumes "heap_upto r n xs" and "k < n"
  shows "r (xs ! 0) \<le> r (xs ! k)"
  using assms(2)
proof (induction k rule: less_induct)
  case (less k)
  show ?case
  proof (cases "k = 0")
    case False
    then have "parent k < k" using parent_less by blast
    with less have "r (xs ! 0) \<le> r (xs ! parent k)" by simp
    also have "\<dots> \<le> r (xs ! k)" using assms(1) less.prems False by (simp add: heap_upto_def)
    finally show ?thesis .
  qed simp
qed

lemma heap_upto_append:
  assumes "heap_upto r (length xs) xs"
  shows "up_inv r (length xs) (xs @ [x])"
proof -
  have p: "parent k < length xs" if "0 < k" "k < Suc (length xs)" for k
    using that parent_less [of k] by linarith
  have "r ((xs @ [x]) ! parent k) \<le> r ((xs @ [x]) ! k)"
    if "0 < k" "k < Suc (length xs)" "k \<noteq> length xs" for k
    using that p [OF that(1,2)] assms by (simp add: heap_upto_def nth_append)
  moreover have "False" if "0 < k" "k < Suc (length xs)" "parent k = length xs" for k
    using p [OF that(1,2)] that(3) by simp
  ultimately show ?thesis unfolding up_inv_def by (simp only: length_append) auto
qed

lemma heap_upto_mono: "heap_upto r n xs \<Longrightarrow> m \<le> n \<Longrightarrow> heap_upto r m xs"
  by (simp add: heap_upto_def)

lemma heap_upto_take: "heap_upto r n xs \<Longrightarrow> n \<le> length xs \<Longrightarrow> heap_upto r n (take n xs)"
  by (auto simp: heap_upto_def parent_lt)

section \<open>The contract of heap.Interface\<close>

text \<open>
  \<open>elems h\<close> is the sequence the methods work on, each element without the bookkeeping the
  implementation attaches to it (\<open>erase\<close>). \<open>Less\<close> compares by a rank, so it is a strict weak
  order, as the package requires.
\<close>

locale heap_interface =
  fixes len :: "'h \<Rightarrow> nat"
    and lt :: "'h \<Rightarrow> nat \<Rightarrow> nat \<Rightarrow> bool"
    and swap :: "'h \<Rightarrow> nat \<Rightarrow> nat \<Rightarrow> 'h"
    and push :: "'e \<Rightarrow> 'h \<Rightarrow> 'h"
    and pop :: "'h \<Rightarrow> 'e \<times> 'h"
    and elems :: "'h \<Rightarrow> 'e list"
    and erase :: "'e \<Rightarrow> 'e"
    and rank :: "'e \<Rightarrow> 'r::linorder"
  assumes len_elems: "len h = length (elems h)"
    and lt_rank: "i < len h \<Longrightarrow> j < len h \<Longrightarrow> lt h i j \<longleftrightarrow> rank (elems h ! i) < rank (elems h ! j)"
    and elems_swap: "i < len h \<Longrightarrow> j < len h \<Longrightarrow> elems (swap h i j) = swap_at (elems h) i j"
    and elems_push: "elems (push x h) = elems h @ [erase x]"
    and elems_pop: "elems h \<noteq> [] \<Longrightarrow> pop h = (x, h') \<Longrightarrow> x = last (elems h) \<and> elems h' = butlast (elems h)"
begin

lemmas interface_simps = len_elems lt_rank elems_swap elems_push

abbreviation is_heap :: "'h \<Rightarrow> bool" where
  "is_heap h \<equiv> heap_upto rank (length (elems h)) (elems h)"

lemma heap_up_correct:
  "j < len h \<Longrightarrow> up_inv rank j (elems h) \<Longrightarrow>
   is_heap (heap_up lt swap h j) \<and> mset (elems (heap_up lt swap h j)) = mset (elems h)"
proof (induction j arbitrary: h rule: less_induct)
  case (less j)
  let ?i = "parent j"
  show ?case
  proof (cases "?i = j \<or> \<not> lt h j ?i")
    case True
    then have "heap_up lt swap h j = h"
      by (simp add: heap_up.simps [of lt swap h j] parent_def Let_def)
    moreover have "j = 0 \<or> \<not> rank (elems h ! j) < rank (elems h ! ?i)"
      using True less.prems(1) parent_less [of j] parent_lt [of j "len h"] lt_rank [of j h ?i] by auto
    ultimately show ?thesis using up_inv_done less.prems(2) by auto
  next
    case False
    then have ij: "?i < j" using parent_less [of j] by (cases j) (auto simp: parent_def)
    with less.prems(1) have i: "?i < len h" by simp
    let ?h = "swap h ?i j"
    have e: "elems ?h = swap_at (elems h) ?i j" using i less.prems(1) by (rule elems_swap)
    have "up_inv rank ?i (elems ?h)"
      unfolding e using less.prems False ij i
      by (intro up_inv_swap) (auto simp: interface_simps)
    moreover have "?i < len ?h" using e i by (simp add: len_elems)
    ultimately have "is_heap (heap_up lt swap ?h ?i)"
      and "mset (elems (heap_up lt swap ?h ?i)) = mset (elems ?h)"
      using less.IH [OF ij] by auto
    moreover have "heap_up lt swap h j = heap_up lt swap ?h ?i"
      using False by (subst heap_up.simps) (simp add: parent_def Let_def)
    moreover have "mset (elems ?h) = mset (elems h)"
      using e i less.prems(1) by (simp add: len_elems)
    ultimately show ?thesis by simp
  qed
qed

text \<open>\<open>down\<close> restores the order of the first \<open>n\<close> elements and leaves the others where they are.\<close>

lemma heap_down_correct:
  "n \<le> len h \<Longrightarrow> down_inv rank n i (elems h) \<Longrightarrow> h' = heap_down lt swap h i n \<Longrightarrow>
   heap_upto rank n (elems h') \<and> mset (elems h') = mset (elems h) \<and>
   drop n (elems h') = drop n (elems h)"
proof (induction "n - i" arbitrary: h i rule: less_induct)
  case less
  let ?j = "smaller_child lt h i n"
  note unfold = heap_down_unfold [of lt swap h i n]
  have kids: "k = 2 * i + 1 \<or> k = 2 * i + 2" if "0 < k" "parent k = i" for k
    using that unfolding parent_def by linarith
  have stop: ?case if "h' = h" "\<And>k. 0 < k \<Longrightarrow> k < n \<Longrightarrow> parent k = i \<Longrightarrow> rank (elems h ! i) \<le> rank (elems h ! k)"
    using that down_inv_done less.prems(2) by blast
  show ?case
  proof (cases "n \<le> 2 * i + 1")
    case True
    then have "h' = h" using less.prems(3) by (simp add: unfold)
    moreover have "rank (elems h ! i) \<le> rank (elems h ! k)"
      if "0 < k" "k < n" "parent k = i" for k
      using kids [OF that(1,3)] that(2) True by linarith
    ultimately show ?thesis by (rule stop)
  next
    case False
    then have j: "0 < ?j" "?j < n" "parent ?j = i" "i < ?j" by (auto simp: parent_def smaller_child_def)
    have least: "rank (elems h ! ?j) \<le> rank (elems h ! k)" if "0 < k" "k < n" "parent k = i" for k
      using kids [OF that(1,3)] that(2) False less.prems(1)
        lt_rank [of "2 * i + 2" h "2 * i + 1"] by (auto simp: not_less smaller_child_def)
    have lts: "lt h ?j i \<longleftrightarrow> rank (elems h ! ?j) < rank (elems h ! i)"
      using j less.prems(1) by (intro lt_rank) linarith+
    show ?thesis
    proof (cases "lt h ?j i")
      case True
      let ?h = "swap h i ?j"
      have il: "i < len h" "?j < len h" using j less.prems(1) by linarith+
      have e: "elems ?h = swap_at (elems h) i ?j" using il by (rule elems_swap)
      have "down_inv rank n ?j (elems ?h)"
        unfolding e using less.prems j True lts least by (intro down_inv_swap) (auto simp: len_elems)
      moreover have "h' = heap_down lt swap ?h ?j n"
        using less.prems(3) False True by (simp add: unfold)
      moreover have "n \<le> len ?h" using e less.prems(1) by (simp add: len_elems)
      moreover have "n - ?j < n - i" using j by linarith
      ultimately have "heap_upto rank n (elems h') \<and> mset (elems h') = mset (elems ?h) \<and>
          drop n (elems h') = drop n (elems ?h)"
        by (intro less.hyps) auto
      moreover have "mset (elems ?h) = mset (elems h)" using e il by (simp add: len_elems)
      moreover have "drop n (elems ?h) = drop n (elems h)"
        unfolding e swap_at_def using j by (simp add: drop_update_cancel)
      ultimately show ?thesis by simp
    next
      case False
      then have "h' = h"
        using less.prems(3) by (simp add: unfold)
      moreover have "rank (elems h ! i) \<le> rank (elems h ! ?j)" using False lts by simp
      then have "rank (elems h ! i) \<le> rank (elems h ! k)" if "0 < k" "k < n" "parent k = i" for k
        using least [OF that] by (rule order_trans)
      ultimately show ?thesis by (rule stop)
    qed
  qed
qed

theorem heap_push_correct:
  assumes "is_heap h"
  shows "is_heap (heap_push len lt swap push x h)"
    and "mset (elems (heap_push len lt swap push x h)) = add_mset (erase x) (mset (elems h))"
proof -
  let ?h = "push x h"
  have "len ?h - 1 = length (elems h)" by (simp add: interface_simps)
  moreover have "up_inv rank (length (elems h)) (elems ?h)"
    using heap_upto_append [OF assms] by (simp add: elems_push)
  ultimately have "is_heap (heap_up lt swap ?h (len ?h - 1)) \<and>
      mset (elems (heap_up lt swap ?h (len ?h - 1))) = mset (elems ?h)"
    by (intro heap_up_correct) (simp_all add: interface_simps)
  then show "is_heap (heap_push len lt swap push x h)"
    and "mset (elems (heap_push len lt swap push x h)) = add_mset (erase x) (mset (elems h))"
    by (simp_all add: heap_push_def Let_def elems_push)
qed

lemma down_inv_swap_last:
  assumes "is_heap h" and "0 < len h"
  shows "down_inv rank (len h - 1) 0 (elems (swap h 0 (len h - 1)))"
proof -
  define n where "n = len h - 1"
  have e: "elems (swap h 0 n) = swap_at (elems h) 0 n"
    using assms(2) by (intro elems_swap) (auto simp: n_def)
  have l: "length (elems h) = Suc n" using assms(2) by (simp add: n_def len_elems)
  have "rank (elems (swap h 0 n) ! parent k) \<le> rank (elems (swap h 0 n) ! k)"
    if k: "0 < k" "k < n" "parent k \<noteq> 0" for k
  proof -
    have "parent k < n" using k parent_lt by blast
    moreover have "rank (elems h ! parent k) \<le> rank (elems h ! k)"
      using assms(1) k l by (simp add: heap_upto_def)
    ultimately show ?thesis using k l by (simp add: e nth_swap_at)
  qed
  then have "down_inv rank n 0 (elems (swap h 0 n))" by (simp add: down_inv_def)
  then show ?thesis by (simp only: n_def)
qed

theorem heap_pop_correct:
  assumes "is_heap h" and "0 < len h" and "heap_pop len lt swap pop h = (x, h')"
  shows "is_heap h'" and "mset (elems h) = add_mset x (mset (elems h'))"
    and "\<forall>y \<in> set (elems h). rank x \<le> rank y" and "x = elems h ! 0"
proof -
  define n where "n = len h - 1"
  let ?n = n and ?h1 = "swap h 0 n"
  define h2 where "h2 = heap_down lt swap ?h1 0 ?n"
  have e: "elems ?h1 = swap_at (elems h) 0 ?n"
    using assms(2) by (intro elems_swap) (auto simp: n_def)
  have l: "length (elems h) = Suc ?n" using assms(2) by (simp add: n_def len_elems)
  have dn: "down_inv rank n 0 (elems ?h1)"
    using down_inv_swap_last [OF assms(1,2)] by (simp only: n_def)
  have l1: "len ?h1 = Suc ?n" by (simp add: len_elems e l)
  have "heap_upto rank ?n (elems h2) \<and> mset (elems h2) = mset (elems ?h1) \<and>
      drop ?n (elems h2) = drop ?n (elems ?h1)"
    using dn l1 h2_def by (intro heap_down_correct [of _ ?h1 0]) simp_all
  then have ord: "heap_upto rank ?n (elems h2)" and m: "mset (elems h2) = mset (elems h)"
    and d: "drop ?n (elems h2) = drop ?n (elems ?h1)"
    using l by (simp_all add: e)
  have l2: "length (elems h2) = Suc ?n" using arg_cong [OF m, of size] l by simp
  have "elems h2 \<noteq> []" using l2 by auto
  moreover have "pop h2 = (x, h')" using assms(3) by (simp only: heap_pop_def Let_def h2_def n_def)
  ultimately have x: "x = last (elems h2)" and h': "elems h' = butlast (elems h2)"
    using elems_pop by auto
  have "last (elems h2) = hd (drop ?n (elems h2))"
    using l2 by (simp add: last_conv_nth hd_drop_conv_nth \<open>elems h2 \<noteq> []\<close>)
  also have "\<dots> = elems h ! 0" using l by (simp add: d e hd_drop_conv_nth nth_swap_at)
  finally show x0: "x = elems h ! 0" using x by simp
  show "is_heap h'"
    using heap_upto_take [OF ord] l2 by (simp add: h' butlast_conv_take)
  show "mset (elems h) = add_mset x (mset (elems h'))"
    using mset_butlast_last [OF \<open>elems h2 \<noteq> []\<close>] m by (simp add: h' x)
  show "\<forall>y \<in> set (elems h). rank x \<le> rank y"
    using heap_upto_root [OF assms(1)] x0 by (auto simp: in_set_conv_nth)
qed

end

end
