(* ===== verification/Inference.thy ===== *)
theory Inference
  imports Prelude
begin

text \<open>
  \<^verbatim>\<open>internal/inference/inference.go\<close>: the payload of a job, its constructor and its
  validation. A non-nil \<open>error\<close> is a value of \<open>batch_error\<close>, one constructor per
  \<open>Errorf\<close> of the source, and \<open>nil\<close> is \<^term>\<open>None\<close>.
\<close>

definition ResNet50 :: string where
  "ResNet50 = ''resnet50''"

record batch =
  b_Model :: string
  b_BatchSize :: int
  b_Precision :: string
  b_Channels :: int
  b_Height :: int
  b_Width :: int
  b_Seed :: int

record result =
  res_Backend :: string
  res_Device :: string
  res_BatchSize :: int
  res_Precision :: string
  res_LatencyMS :: rat
  res_Top1ClassIDs :: "int list"

datatype batch_error =
    UnsupportedModel string
  | BatchSizeOutside int
  | UnsupportedPrecision string
  | BadShape

definition batch_Validate :: "batch \<Rightarrow> batch_error option" where
  "batch_Validate b =
     (if b_Model b \<noteq> ResNet50 then Some (UnsupportedModel (b_Model b))
      else if b_BatchSize b < 1 \<or> b_BatchSize b > 256 then Some (BatchSizeOutside (b_BatchSize b))
      else if b_Precision b \<noteq> ''fp32'' \<and> b_Precision b \<noteq> ''fp16''
        then Some (UnsupportedPrecision (b_Precision b))
      else if b_Channels b \<noteq> 3 \<or> b_Height b \<noteq> 224 \<or> b_Width b \<noteq> 224 then Some BadShape
      else None)"

definition NewResNet50Batch :: "int \<Rightarrow> string \<Rightarrow> int \<Rightarrow> batch \<times> batch_error option" where
  "NewResNet50Batch batchSize precision seed =
     (let b = \<lparr>b_Model = ResNet50, b_BatchSize = batchSize, b_Precision = precision,
               b_Channels = 3, b_Height = 224, b_Width = 224, b_Seed = seed\<rparr>
      in (b, batch_Validate b))"

text \<open>The well-formed batches: what a nil error of \<open>Validate\<close> means.\<close>

definition valid_batch :: "batch \<Rightarrow> bool" where
  "valid_batch b \<longleftrightarrow> b_Model b = ResNet50 \<and> b_BatchSize b \<in> {1..256} \<and>
     b_Precision b \<in> {''fp32'', ''fp16''} \<and> b_Channels b = 3 \<and> b_Height b = 224 \<and> b_Width b = 224"

lemma batch_Validate_None [simp]: "batch_Validate b = None \<longleftrightarrow> valid_batch b"
  by (auto simp: batch_Validate_def valid_batch_def)

lemma valid_batch_adjust:
  "valid_batch b \<Longrightarrow> 1 \<le> n \<Longrightarrow> n \<le> 256 \<Longrightarrow> p \<in> {''fp32'', ''fp16''} \<Longrightarrow>
   valid_batch (b\<lparr>b_BatchSize := n, b_Precision := p\<rparr>)"
  by (simp add: valid_batch_def)

lemma NewResNet50Batch_ok:
  "1 \<le> n \<Longrightarrow> n \<le> 256 \<Longrightarrow> p \<in> {''fp32'', ''fp16''} \<Longrightarrow>
   snd (NewResNet50Batch n p s) = None \<and> valid_batch (fst (NewResNet50Batch n p s))"
  by (auto simp: NewResNet50Batch_def Let_def valid_batch_def)

end
