(* ===== verification/Resource.thy ===== *)
theory Resource
  imports Prelude
begin

text \<open>
  \<^verbatim>\<open>internal/resource/resource.go\<close>: node capacities and best-fit placement. A \<open>*Node\<close> is its
  index in the pool, so that two nodes of the same name stay apart, as two pointers do. The
  arithmetic wraps at 64 bits as Go's does; the lemmas show where it cannot.
  The percentages of \<open>Utilization\<close> are exact rationals; \<open>String\<close>, which prints them, is not modelled.
\<close>

record requirements =
  rq_CPUCores :: int
  rq_MemoryMB :: int
  rq_GPUs :: int

record node =
  n_Name :: string
  n_TotalCPU :: int
  n_TotalMemMB :: int
  n_TotalGPUs :: int
  n_usedCPU :: int
  n_usedMemMB :: int
  n_usedGPUs :: int

definition NewNode :: "string \<Rightarrow> int \<Rightarrow> int \<Rightarrow> int \<Rightarrow> node" where
  "NewNode name cpu memMB gpus =
     \<lparr>n_Name = name, n_TotalCPU = cpu, n_TotalMemMB = memMB, n_TotalGPUs = gpus,
      n_usedCPU = 0, n_usedMemMB = 0, n_usedGPUs = 0\<rparr>"

definition node_Fits :: "node \<Rightarrow> requirements \<Rightarrow> bool" where
  "node_Fits n req \<longleftrightarrow>
     go_sub (n_TotalCPU n) (n_usedCPU n) \<ge> rq_CPUCores req \<and>
     go_sub (n_TotalMemMB n) (n_usedMemMB n) \<ge> rq_MemoryMB req \<and>
     go_sub (n_TotalGPUs n) (n_usedGPUs n) \<ge> rq_GPUs req"

definition node_Reserve :: "node \<Rightarrow> requirements \<Rightarrow> node" where
  "node_Reserve n req =
     n\<lparr>n_usedCPU := go_add (n_usedCPU n) (rq_CPUCores req),
       n_usedMemMB := go_add (n_usedMemMB n) (rq_MemoryMB req),
       n_usedGPUs := go_add (n_usedGPUs n) (rq_GPUs req)\<rparr>"

definition node_Release :: "node \<Rightarrow> requirements \<Rightarrow> node" where
  "node_Release n req =
     n\<lparr>n_usedCPU := go_sub (n_usedCPU n) (rq_CPUCores req),
       n_usedMemMB := go_sub (n_usedMemMB n) (rq_MemoryMB req),
       n_usedGPUs := go_sub (n_usedGPUs n) (rq_GPUs req)\<rparr>"

definition percentage :: "int \<Rightarrow> int \<Rightarrow> rat" where
  "percentage used cap = (if cap > 0 then 100 * of_int used / of_int cap else 0)"

definition node_Utilization :: "node \<Rightarrow> rat \<times> rat \<times> rat" where
  "node_Utilization n =
     (percentage (n_usedCPU n) (n_TotalCPU n), percentage (n_usedMemMB n) (n_TotalMemMB n),
      percentage (n_usedGPUs n) (n_TotalGPUs n))"

definition cpu_slack :: "node \<Rightarrow> requirements \<Rightarrow> int" where
  "cpu_slack n req = go_sub (go_sub (n_TotalCPU n) (n_usedCPU n)) (rq_CPUCores req)"

text \<open>
  The loop of \<open>FindFit\<close>: \<open>i\<close> is the position of the next node, \<open>best\<close> the candidate so far
  (\<^term>\<open>None\<close> is \<open>nil\<close>) and \<open>bestSlack\<close> its slack.
\<close>

fun find_fit_loop :: "requirements \<Rightarrow> node list \<Rightarrow> nat \<Rightarrow> nat option \<Rightarrow> int \<Rightarrow> nat option" where
  "find_fit_loop req [] i best bestSlack = best"
| "find_fit_loop req (n # ns) i best bestSlack =
     (if \<not> node_Fits n req then find_fit_loop req ns (Suc i) best bestSlack
      else (let slack = cpu_slack n req in
        if best = None \<or> slack < bestSlack
        then find_fit_loop req ns (Suc i) (Some i) slack
        else find_fit_loop req ns (Suc i) best bestSlack))"

definition pool_FindFit :: "node list \<Rightarrow> requirements \<Rightarrow> nat option" where
  "pool_FindFit nodes req = find_fit_loop req nodes 0 None (- 1)"

section \<open>Placement\<close>

text \<open>
  \<open>best_fit nodes req i\<close>: node \<open>i\<close> has room, none with room has less slack, and none before it
  has the same slack.
\<close>

definition best_fit :: "node list \<Rightarrow> requirements \<Rightarrow> nat \<Rightarrow> bool" where
  "best_fit nodes req i \<longleftrightarrow> i < length nodes \<and> node_Fits (nodes ! i) req \<and>
     (\<forall>k < length nodes. node_Fits (nodes ! k) req \<longrightarrow>
        cpu_slack (nodes ! i) req \<le> cpu_slack (nodes ! k) req) \<and>
     (\<forall>k < i. node_Fits (nodes ! k) req \<longrightarrow> cpu_slack (nodes ! i) req < cpu_slack (nodes ! k) req)"

lemma best_fit_snoc:
  "best_fit (ns @ [n]) req i \<longleftrightarrow>
     (if i < length ns then best_fit ns req i \<and> (node_Fits n req \<longrightarrow> cpu_slack (ns ! i) req \<le> cpu_slack n req)
      else i = length ns \<and> node_Fits n req \<and>
        (\<forall>k < length ns. node_Fits (ns ! k) req \<longrightarrow> cpu_slack n req < cpu_slack (ns ! k) req))"
  unfolding best_fit_def
  by (auto simp: nth_append less_Suc_eq dest: less_imp_le)

text \<open>\<open>search_state\<close> is the loop invariant: the candidate is the best fit of the nodes seen.\<close>

definition search_state :: "node list \<Rightarrow> requirements \<Rightarrow> nat option \<Rightarrow> int \<Rightarrow> bool" where
  "search_state seen req best slack \<longleftrightarrow>
     (case best of None \<Rightarrow> \<forall>n \<in> set seen. \<not> node_Fits n req
      | Some i \<Rightarrow> best_fit seen req i \<and> slack = cpu_slack (seen ! i) req)"

lemma best_fit_none: "\<forall>n \<in> set ns. \<not> node_Fits n req \<Longrightarrow> node_Fits n req \<Longrightarrow> best_fit (ns @ [n]) req (length ns)"
  by (auto simp: best_fit_snoc)

lemma best_fit_better:
  assumes "best_fit ns req i" and "node_Fits n req" and "cpu_slack n req < cpu_slack (ns ! i) req"
  shows "best_fit (ns @ [n]) req (length ns)"
  using assms unfolding best_fit_snoc by (fastforce simp: best_fit_def)

lemma best_fit_keep:
  "best_fit ns req i \<Longrightarrow> node_Fits n req \<longrightarrow> cpu_slack (ns ! i) req \<le> cpu_slack n req \<Longrightarrow>
   best_fit (ns @ [n]) req i"
  by (simp add: best_fit_snoc) (simp add: best_fit_def)

lemma search_state_step:
  assumes "search_state seen req best slack"
  shows "if node_Fits n req \<and> (best = None \<or> cpu_slack n req < slack)
         then search_state (seen @ [n]) req (Some (length seen)) (cpu_slack n req)
         else search_state (seen @ [n]) req best slack"
proof (cases best)
  case None
  then show ?thesis using assms best_fit_none by (auto simp: search_state_def)
next
  case (Some i)
  then have "best_fit seen req i" and s: "slack = cpu_slack (seen ! i) req"
    using assms by (simp_all add: search_state_def)
  moreover from this have "i < length seen" by (simp add: best_fit_def)
  ultimately show ?thesis
    using Some best_fit_better [of seen req i n] best_fit_keep [of seen req i n]
    by (auto simp: search_state_def nth_append)
qed

lemma find_fit_loop_correct:
  "search_state seen req best slack \<Longrightarrow>
   \<exists>slack'. search_state (seen @ ns) req (find_fit_loop req ns (length seen) best slack) slack'"
proof (induction ns arbitrary: seen best slack)
  case Nil
  then show ?case by auto
next
  case (Cons n ns)
  from search_state_step [OF Cons.prems, of n] show ?case
    using Cons.IH [of "seen @ [n]"] by (auto simp: Let_def split: if_splits)
qed

lemma pool_FindFit_search: "\<exists>slack. search_state nodes req (pool_FindFit nodes req) slack"
  using find_fit_loop_correct [of "[]" req None "- 1" nodes]
  by (simp add: pool_FindFit_def search_state_def)

lemma pool_FindFit_Some: "pool_FindFit nodes req = Some i \<Longrightarrow> best_fit nodes req i"
  using pool_FindFit_search [of nodes req] by (auto simp: search_state_def)

lemma pool_FindFit_None: "pool_FindFit nodes req = None \<longleftrightarrow> (\<forall>n \<in> set nodes. \<not> node_Fits n req)"
proof (cases "pool_FindFit nodes req")
  case None
  then show ?thesis using pool_FindFit_search [of nodes req] by (simp add: search_state_def)
next
  case (Some i)
  then show ?thesis using pool_FindFit_Some [OF Some] by (auto simp: best_fit_def)
qed

section \<open>Accounting\<close>

text \<open>
  A request is sane when it is non-negative; a node is sane when what it has given out is
  non-negative and within its capacity. On sane values nothing wraps.
\<close>

definition req_ok :: "requirements \<Rightarrow> bool" where
  "req_ok r \<longleftrightarrow> 0 \<le> rq_CPUCores r \<and> rq_CPUCores r < 2 ^ 63 \<and> 0 \<le> rq_MemoryMB r \<and>
     rq_MemoryMB r < 2 ^ 63 \<and> 0 \<le> rq_GPUs r \<and> rq_GPUs r < 2 ^ 63"

definition node_ok :: "node \<Rightarrow> bool" where
  "node_ok n \<longleftrightarrow>
     0 \<le> n_usedCPU n \<and> n_usedCPU n \<le> n_TotalCPU n \<and> n_TotalCPU n < 2 ^ 63 \<and>
     0 \<le> n_usedMemMB n \<and> n_usedMemMB n \<le> n_TotalMemMB n \<and> n_TotalMemMB n < 2 ^ 63 \<and>
     0 \<le> n_usedGPUs n \<and> n_usedGPUs n \<le> n_TotalGPUs n \<and> n_TotalGPUs n < 2 ^ 63"

lemma percentage_range: "0 \<le> used \<Longrightarrow> used \<le> cap \<Longrightarrow> 0 \<le> percentage used cap \<and> percentage used cap \<le> 100"
  by (simp add: percentage_def pos_divide_le_eq)

lemma node_Fits_ok:
  "node_ok n \<Longrightarrow> node_Fits n r \<longleftrightarrow> n_usedCPU n + rq_CPUCores r \<le> n_TotalCPU n \<and>
     n_usedMemMB n + rq_MemoryMB r \<le> n_TotalMemMB n \<and> n_usedGPUs n + rq_GPUs r \<le> n_TotalGPUs n"
  by (auto simp: node_ok_def node_Fits_def)

lemma node_Reserve_ok:
  assumes "node_ok n" and "req_ok r" and "node_Fits n r"
  shows "node_ok (node_Reserve n r)"
    and "n_usedCPU (node_Reserve n r) = n_usedCPU n + rq_CPUCores r"
    and "n_usedMemMB (node_Reserve n r) = n_usedMemMB n + rq_MemoryMB r"
    and "n_usedGPUs (node_Reserve n r) = n_usedGPUs n + rq_GPUs r"
  using assms node_Fits_ok [OF assms(1), of r]
  by (auto simp: node_ok_def req_ok_def node_Reserve_def)

lemma node_Release_exact:
  assumes "node_ok n" and "req_ok r" and "rq_CPUCores r \<le> n_usedCPU n"
    and "rq_MemoryMB r \<le> n_usedMemMB n" and "rq_GPUs r \<le> n_usedGPUs n"
  shows "node_ok (node_Release n r)"
    and "n_usedCPU (node_Release n r) = n_usedCPU n - rq_CPUCores r"
    and "n_usedMemMB (node_Release n r) = n_usedMemMB n - rq_MemoryMB r"
    and "n_usedGPUs (node_Release n r) = n_usedGPUs n - rq_GPUs r"
  using assms by (auto simp: node_ok_def req_ok_def node_Release_def)

lemma node_Release_Reserve:
  assumes "node_ok n" and "req_ok r" and "node_Fits n r"
  shows "node_Release (node_Reserve n r) r = n"
proof -
  note res = node_Reserve_ok [OF assms]
  show ?thesis
    using assms res node_Release_exact [OF res(1) assms(2)]
    by (simp add: node_Release_def node_Reserve_def node_ok_def req_ok_def)
qed

lemma node_totals [simp]:
  "n_Name (node_Reserve n r) = n_Name n" "n_Name (node_Release n r) = n_Name n"
  "n_TotalCPU (node_Reserve n r) = n_TotalCPU n" "n_TotalCPU (node_Release n r) = n_TotalCPU n"
  "n_TotalMemMB (node_Reserve n r) = n_TotalMemMB n" "n_TotalMemMB (node_Release n r) = n_TotalMemMB n"
  "n_TotalGPUs (node_Reserve n r) = n_TotalGPUs n" "n_TotalGPUs (node_Release n r) = n_TotalGPUs n"
  by (simp_all add: node_Reserve_def node_Release_def)

section \<open>Properties\<close>

definition sample_nodes :: "node list" where
  "sample_nodes = [NewNode ''node-a'' 16 65536 2, NewNode ''node-b'' 16 65536 2, NewNode ''node-c'' 32 131072 4]"

definition sample_req :: requirements where
  "sample_req = \<lparr>rq_CPUCores = 4, rq_MemoryMB = 4096, rq_GPUs = 1\<rparr>"

text \<open>
  C36: best fit. \<open>FindFit\<close> returns a node with room whose CPU slack is least, the first of those
  with that slack; it returns nil exactly when no node of the pool has room.
\<close>

theorem pool_FindFit_correct:
  "(case pool_FindFit nodes req of
      Some i \<Rightarrow> best_fit nodes req i
    | None \<Rightarrow> filter (\<lambda>n. node_Fits n req) nodes = [])"
  using pool_FindFit_Some [of nodes req] pool_FindFit_None [of nodes req]
  by (auto simp: filter_empty_conv split: option.split)

text \<open>
  No oversubscription and no leak. Reserving a request that fits keeps what a node has given
  out between 0 and its capacity, with no wrap-around, and releasing it restores the node.
\<close>

theorem node_Reserve_safe:
  assumes "node_ok n" and "req_ok r" and "node_Fits n r"
  shows "node_ok (node_Reserve n r) \<and> node_Release (node_Reserve n r) r = n \<and>
    n_usedCPU (node_Reserve n r) = n_usedCPU n + rq_CPUCores r \<and>
    n_usedMemMB (node_Reserve n r) = n_usedMemMB n + rq_MemoryMB r \<and>
    n_usedGPUs (node_Reserve n r) = n_usedGPUs n + rq_GPUs r"
  using node_Reserve_ok [OF assms] node_Release_Reserve [OF assms] by blast

theorem node_Reserve_safe_witness:
  "node_ok (node_Reserve (sample_nodes ! 2) sample_req) \<and>
   node_Release (node_Reserve (sample_nodes ! 2) sample_req) sample_req = sample_nodes ! 2"
proof -
  have "node_ok (sample_nodes ! 2)" "req_ok sample_req" "node_Fits (sample_nodes ! 2) sample_req"
    by code_simp+
  from node_Reserve_safe [OF this] show ?thesis by blast
qed

end
