(* ===== verification/JobQueue.thy ===== *)
theory JobQueue
  imports GoHeap Inference Resource
begin

text \<open>
  \<^verbatim>\<open>internal/queue/queue.go\<close>: jobs, their states, and the priority queue: \<open>priorityHeap\<close> as
  an implementation of \<open>heap.Interface\<close> and \<open>Queue\<close> on top of package \<open>container/heap\<close>. A
  \<open>*Job\<close> in the queue is the job itself: every component hands a job over when it pushes it.
  The locale \<open>priority_queue\<close> is what the clients (broker, scheduler) rely on; the queue of the
  source is shown to provide it.
\<close>

section \<open>Jobs\<close>

datatype job_state = Pending | Running | Preempted | Completed

text \<open>The \<open>default\<close> branch of \<open>String\<close> is unreachable for the four constants of the type.\<close>

fun job_state_String :: "job_state \<Rightarrow> string" where
  "job_state_String Pending = ''pending''"
| "job_state_String Running = ''running''"
| "job_state_String Preempted = ''preempted''"
| "job_state_String Completed = ''completed''"

record job =
  j_ID :: string
  j_Priority :: int
  j_Resources :: requirements
  j_Inference :: batch
  j_Attempt :: int
  j_MaxAttempts :: int
  j_InjectFailure :: string
  j_State :: job_state
  j_SubmitTime :: time
  j_StartTime :: time
  j_Node :: string
  j_index :: int

definition job_WaitTime :: "job \<Rightarrow> time \<Rightarrow> duration" where
  "job_WaitTime j now =
     (if \<not> time_is_zero (j_StartTime j) then time_sub (j_StartTime j) (j_SubmitTime j)
      else time_sub now (j_SubmitTime j))"

section \<open>The heap\<close>

type_synonym priority_heap = "job list"

definition ph_Len :: "priority_heap \<Rightarrow> nat" where
  "ph_Len h = length h"

definition ph_Less :: "priority_heap \<Rightarrow> nat \<Rightarrow> nat \<Rightarrow> bool" where
  "ph_Less h i j =
     (if j_Priority (h ! i) \<noteq> j_Priority (h ! j) then j_Priority (h ! i) > j_Priority (h ! j)
      else j_SubmitTime (h ! i) < j_SubmitTime (h ! j))"

definition ph_Swap :: "priority_heap \<Rightarrow> nat \<Rightarrow> nat \<Rightarrow> priority_heap" where
  "ph_Swap h i j =
     (let h1 = swap_at h i j;
          h2 = h1[i := (h1 ! i)\<lparr>j_index := int i\<rparr>]
      in h2[j := (h2 ! j)\<lparr>j_index := int j\<rparr>])"

definition ph_Push :: "job \<Rightarrow> priority_heap \<Rightarrow> priority_heap" where
  "ph_Push job h = h @ [job\<lparr>j_index := int (length h)\<rparr>]"

text \<open>Only called on a non-empty heap: \<open>Queue.Pop\<close> checks first.\<close>

definition ph_Pop :: "priority_heap \<Rightarrow> job \<times> priority_heap" where
  "ph_Pop old = ((last old)\<lparr>j_index := - 1\<rparr>, butlast old)"

section \<open>The queue\<close>

record queue =
  q_heap :: priority_heap

definition queue_New :: queue where
  "queue_New = \<lparr>q_heap = heap_init ph_Len ph_Less ph_Swap []\<rparr>"

definition queue_Push :: "job \<Rightarrow> queue \<Rightarrow> queue" where
  "queue_Push j q = q\<lparr>q_heap := heap_push ph_Len ph_Less ph_Swap ph_Push j (q_heap q)\<rparr>"

definition queue_Len :: "queue \<Rightarrow> nat" where
  "queue_Len q = ph_Len (q_heap q)"

definition queue_Pop :: "queue \<Rightarrow> job option \<times> queue" where
  "queue_Pop q =
     (if ph_Len (q_heap q) = 0 then (None, q)
      else case heap_pop ph_Len ph_Less ph_Swap ph_Pop (q_heap q) of
        (j, h) \<Rightarrow> (Some j, q\<lparr>q_heap := h\<rparr>))"

definition queue_Peek :: "queue \<Rightarrow> job option" where
  "queue_Peek q = (if ph_Len (q_heap q) = 0 then None else Some (q_heap q ! 0))"

section \<open>Urgency: the order of service\<close>

text \<open>
  A job is more urgent than another when its priority is higher, or equal with an earlier
  submission. As values of a linear order, the most urgent is the least.
\<close>

datatype urgency = Urgency (u_priority: int) (u_submitted: time)

instantiation urgency :: linorder
begin

definition less_eq_urgency :: "urgency \<Rightarrow> urgency \<Rightarrow> bool" where
  "less_eq_urgency a b \<longleftrightarrow> u_priority b < u_priority a \<or>
     (u_priority a = u_priority b \<and> u_submitted a \<le> u_submitted b)"

definition less_urgency :: "urgency \<Rightarrow> urgency \<Rightarrow> bool" where
  "less_urgency a b \<longleftrightarrow> u_priority b < u_priority a \<or>
     (u_priority a = u_priority b \<and> u_submitted a < u_submitted b)"

instance
  by standard (auto simp: less_eq_urgency_def less_urgency_def intro: urgency.expand)

end

definition urgency_of :: "job \<Rightarrow> urgency" where
  "urgency_of j = Urgency (j_Priority j) (j_SubmitTime j)"

text \<open>A job as the outside of the queue sees it: the index field is the heap's own.\<close>

definition unindexed :: "job \<Rightarrow> job" where
  "unindexed j = j\<lparr>j_index := - 1\<rparr>"

lemma unindexed_simps [simp]:
  "j_ID (unindexed j) = j_ID j" "j_Priority (unindexed j) = j_Priority j"
  "j_Inference (unindexed j) = j_Inference j" "j_Attempt (unindexed j) = j_Attempt j"
  "j_MaxAttempts (unindexed j) = j_MaxAttempts j" "j_SubmitTime (unindexed j) = j_SubmitTime j"
  "j_State (unindexed j) = j_State j" "j_Resources (unindexed j) = j_Resources j"
  "j_Node (unindexed j) = j_Node j" "j_InjectFailure (unindexed j) = j_InjectFailure j"
  "unindexed (unindexed j) = unindexed j" "urgency_of (unindexed j) = urgency_of j"
  "unindexed (j\<lparr>j_index := n\<rparr>) = unindexed j" "j_index (unindexed j) = - 1"
  by (simp_all add: unindexed_def urgency_of_def)

interpretation ph: heap_interface ph_Len ph_Less ph_Swap ph_Push ph_Pop "map unindexed" unindexed urgency_of
proof unfold_locales
  fix h :: priority_heap and i j :: nat and x :: job and h' :: priority_heap
  show "ph_Len h = length (map unindexed h)" by (simp add: ph_Len_def)
  show "map unindexed (ph_Push x h) = map unindexed h @ [unindexed x]" by (simp add: ph_Push_def)
  show "ph_Less h i j = (urgency_of (map unindexed h ! i) < urgency_of (map unindexed h ! j))"
    if "i < ph_Len h" "j < ph_Len h"
    using that by (simp add: ph_Len_def ph_Less_def less_urgency_def) (auto simp: urgency_of_def)
  show "map unindexed (ph_Swap h i j) = swap_at (map unindexed h) i j"
    if "i < ph_Len h" "j < ph_Len h"
    using that unfolding ph_Len_def
    by (intro nth_equalityI) (auto simp: ph_Swap_def Let_def nth_swap_at nth_list_update)
  show "x = last (map unindexed h) \<and> map unindexed h' = butlast (map unindexed h)"
    if "map unindexed h \<noteq> []" "ph_Pop h = (x, h')"
    using that by (auto simp: ph_Pop_def last_map map_butlast unindexed_def)
qed

section \<open>The index bookkeeping\<close>

definition indexed :: "priority_heap \<Rightarrow> bool" where
  "indexed h \<longleftrightarrow> (\<forall>i < length h. j_index (h ! i) = int i)"

lemma length_ph_Swap [simp]: "length (ph_Swap h i j) = length h"
  by (simp add: ph_Swap_def Let_def)

lemma indexed_Swap:
  "indexed h \<Longrightarrow> i < length h \<Longrightarrow> j < length h \<Longrightarrow> indexed (ph_Swap h i j)"
  by (auto simp: indexed_def ph_Swap_def Let_def nth_list_update nth_swap_at)

lemma indexed_Push: "indexed h \<Longrightarrow> indexed (ph_Push x h)"
  by (auto simp: indexed_def ph_Push_def nth_append less_Suc_eq)

lemma indexed_butlast: "indexed h \<Longrightarrow> indexed (butlast h)"
  by (simp add: indexed_def nth_butlast)

lemma indexed_heap_up:
  "indexed h \<Longrightarrow> j < length h \<Longrightarrow>
   indexed (heap_up ph_Less ph_Swap h j) \<and> length (heap_up ph_Less ph_Swap h j) = length h"
proof (induction j arbitrary: h rule: less_induct)
  case (less j)
  show ?case
  proof (cases "parent j = j \<or> \<not> ph_Less h j (parent j)")
    case True
    then show ?thesis using less.prems
      by (simp add: heap_up.simps [of ph_Less ph_Swap h j] Let_def parent_def)
  next
    case False
    then have p: "parent j < j" by (cases j) (auto simp: parent_def)
    with False have "heap_up ph_Less ph_Swap h j = heap_up ph_Less ph_Swap (ph_Swap h (parent j) j) (parent j)"
      by (subst heap_up.simps) (simp add: Let_def parent_def)
    then show ?thesis using less.IH [OF p, of "ph_Swap h (parent j) j"] less.prems p
      by (simp add: indexed_Swap)
  qed
qed

lemma indexed_heap_down:
  "indexed h \<Longrightarrow> n \<le> length h \<Longrightarrow>
   indexed (heap_down ph_Less ph_Swap h i n) \<and> length (heap_down ph_Less ph_Swap h i n) = length h"
proof (induction "n - i" arbitrary: h i rule: less_induct)
  case less
  let ?c = "smaller_child ph_Less h i n"
  show ?case
  proof (cases "n \<le> 2 * i + 1 \<or> \<not> ph_Less h ?c i")
    case True
    then show ?thesis using less.prems by (simp add: heap_down_unfold [of ph_Less ph_Swap h i n])
  next
    case False
    then have "?c < n" "i < ?c" by (auto simp: smaller_child_def)
    with False show ?thesis
      using less.hyps [of ?c "ph_Swap h i ?c"] less.prems
      by (simp add: heap_down_unfold [of ph_Less ph_Swap h i n] indexed_Swap)
  qed
qed

section \<open>The invariant of the queue\<close>

definition queue_bag :: "queue \<Rightarrow> job multiset" where
  "queue_bag q = mset (map unindexed (q_heap q))"

definition queue_inv :: "queue \<Rightarrow> bool" where
  "queue_inv q \<longleftrightarrow> ph.is_heap (q_heap q) \<and> indexed (q_heap q)"

lemma queue_New_empty [simp]: "queue_New = \<lparr>q_heap = []\<rparr>"
  by (simp add: queue_New_def heap_init_def ph_Len_def)

lemma queue_Len_bag: "queue_Len q = size (queue_bag q)"
  by (simp add: queue_Len_def ph_Len_def queue_bag_def)

lemma queue_inv_New: "queue_inv queue_New"
  by (simp add: queue_inv_def heap_upto_def indexed_def)

lemma queue_bag_New: "queue_bag queue_New = {#}"
  by (simp add: queue_bag_def)

lemma queue_bag_Push: "queue_inv q \<Longrightarrow> queue_bag (queue_Push j q) = add_mset (unindexed j) (queue_bag q)"
  unfolding queue_bag_def queue_Push_def queue_inv_def
  using ph.heap_push_correct(2) [of "q_heap q" j] by simp

lemma queue_inv_Push: "queue_inv q \<Longrightarrow> queue_inv (queue_Push j q)"
proof -
  assume inv: "queue_inv q"
  have "indexed (heap_push ph_Len ph_Less ph_Swap ph_Push j (q_heap q))"
    using indexed_heap_up [of "ph_Push j (q_heap q)"] inv
    by (simp add: heap_push_def Let_def queue_inv_def indexed_Push ph_Len_def) (simp add: ph_Push_def)
  then show ?thesis using ph.heap_push_correct(1) [of "q_heap q" j] inv
    by (simp add: queue_inv_def queue_Push_def)
qed

lemma queue_Pop_None: "queue_Pop q = (None, q') \<longleftrightarrow> queue_Len q = 0 \<and> q' = q"
  by (auto simp: queue_Pop_def queue_Len_def split: prod.splits)

lemma queue_Pop_Some:
  assumes "queue_inv q" and "queue_Pop q = (Some j, q')"
  shows "queue_inv q'" and "queue_bag q = add_mset j (queue_bag q')"
    and "\<forall>k \<in># queue_bag q. urgency_of j \<le> urgency_of k" and "j_index j = - 1"
    and "queue_Peek q = Some j' \<Longrightarrow> unindexed j' = j"
proof -
  obtain h where len: "0 < ph_Len (q_heap q)"
    and pop: "heap_pop ph_Len ph_Less ph_Swap ph_Pop (q_heap q) = (j, h)" and q': "q' = q\<lparr>q_heap := h\<rparr>"
    using assms(2) by (auto simp: queue_Pop_def split: if_splits prod.splits)
  have heap: "ph.is_heap (q_heap q)" and ix: "indexed (q_heap q)"
    using assms(1) by (simp_all add: queue_inv_def)
  note pc = ph.heap_pop_correct [OF heap len pop]
  let ?n = "ph_Len (q_heap q) - 1"
  have "h = butlast (heap_down ph_Less ph_Swap (ph_Swap (q_heap q) 0 ?n) 0 ?n)"
    and jj: "j_index j = - 1"
    using pop by (simp_all add: heap_pop_def Let_def ph_Pop_def) auto
  moreover have "indexed (heap_down ph_Less ph_Swap (ph_Swap (q_heap q) 0 ?n) 0 ?n)"
    using indexed_heap_down [of "ph_Swap (q_heap q) 0 ?n" ?n 0] ix len
    by (simp add: indexed_Swap ph_Len_def)
  ultimately have "indexed h" by (simp add: indexed_butlast)
  then show "queue_inv q'" using pc(1) q' by (simp add: queue_inv_def)
  show "queue_bag q = add_mset j (queue_bag q')" using pc(2) q' by (simp add: queue_bag_def)
  show "\<forall>k \<in># queue_bag q. urgency_of j \<le> urgency_of k" using pc(3) by (simp add: queue_bag_def)
  show "j_index j = - 1" by (rule jj)
  show "unindexed j' = j" if "queue_Peek q = Some j'"
    using that pc(4) len by (auto simp: queue_Peek_def ph_Len_def)
qed

lemma queue_Pop_nonempty: "queue_Len q \<noteq> 0 \<Longrightarrow> \<exists>j q'. queue_Pop q = (Some j, q')"
  by (auto simp: queue_Pop_def queue_Len_def split: prod.splits)

section \<open>The contract of the queue\<close>

text \<open>\<open>pop_times pop n q\<close> is what \<open>n\<close> successive calls of \<open>Pop\<close> return, up to the first \<open>nil\<close>.\<close>

fun pop_times :: "('q \<Rightarrow> 'x option \<times> 'q) \<Rightarrow> nat \<Rightarrow> 'q \<Rightarrow> 'x list \<times> 'q" where
  "pop_times pop 0 q = ([], q)"
| "pop_times pop (Suc n) q =
     (case pop q of
        (None, q') \<Rightarrow> ([], q')
      | (Some x, q') \<Rightarrow> (case pop_times pop n q' of (xs, q'') \<Rightarrow> (x # xs, q'')))"

locale priority_queue =
  fixes new :: 'q
    and push :: "'x \<Rightarrow> 'q \<Rightarrow> 'q"
    and pop :: "'q \<Rightarrow> 'x option \<times> 'q"
    and len :: "'q \<Rightarrow> nat"
    and bag :: "'q \<Rightarrow> 'x multiset"
    and inv :: "'q \<Rightarrow> bool"
    and norm :: "'x \<Rightarrow> 'x"
    and rank :: "'x \<Rightarrow> 'r::linorder"
  assumes inv_new: "inv new"
    and bag_new: "bag new = {#}"
    and inv_push: "inv q \<Longrightarrow> inv (push x q)"
    and bag_push: "inv q \<Longrightarrow> bag (push x q) = add_mset (norm x) (bag q)"
    and len_bag: "len q = size (bag q)"
    and pop_none: "pop q = (None, q') \<longleftrightarrow> len q = 0 \<and> q' = q"
    and inv_pop: "inv q \<Longrightarrow> pop q = (Some x, q') \<Longrightarrow> inv q'"
    and bag_pop: "inv q \<Longrightarrow> pop q = (Some x, q') \<Longrightarrow> bag q = add_mset x (bag q')"
    and pop_least: "inv q \<Longrightarrow> pop q = (Some x, q') \<Longrightarrow> \<forall>y \<in># bag q. rank x \<le> rank y"
    and rank_norm: "rank (norm x) = rank x"
begin

lemma pushes:
  "inv q \<Longrightarrow> inv (fold push xs q) \<and> bag (fold push xs q) = image_mset norm (mset xs) + bag q"
  by (induction xs arbitrary: q) (simp_all add: inv_push bag_push)

lemma pop_times_correct:
  assumes "inv q" and "pop_times pop n q = (xs, q')"
  shows "inv q' \<and> bag q = mset xs + bag q' \<and> sorted (map rank xs) \<and> length xs = min n (len q) \<and>
    (\<forall>x \<in> set xs. \<forall>y \<in># bag q'. rank x \<le> rank y)"
  using assms
proof (induction n arbitrary: q xs)
  case 0
  then show ?case by simp
next
  case (Suc n)
  show ?case
  proof (cases "pop q")
    case (Pair r q1)
    show ?thesis
    proof (cases r)
      case None
      with Pair Suc.prems(2) have "xs = [] \<and> q' = q1" by simp
      then show ?thesis using Pair None Suc.prems(1) pop_none by auto
    next
      case (Some x)
      obtain ys where ys: "pop_times pop n q1 = (ys, q')" and xs: "xs = x # ys"
        using Suc.prems(2) Pair Some by (auto split: prod.splits)
      have px: "pop q = (Some x, q1)" using Pair Some by simp
      note b = bag_pop [OF Suc.prems(1) px] and least = pop_least [OF Suc.prems(1) px]
      have IH: "inv q' \<and> bag q1 = mset ys + bag q' \<and> sorted (map rank ys) \<and> length ys = min n (len q1) \<and>
          (\<forall>x \<in> set ys. \<forall>y \<in># bag q'. rank x \<le> rank y)"
        using Suc.IH [OF inv_pop [OF Suc.prems(1) px] ys] .
      then have inv: "inv q'" and split: "bag q1 = mset ys + bag q'"
        and rest: "sorted (map rank ys)" "length ys = min n (len q1)"
          "\<forall>x \<in> set ys. \<forall>y \<in># bag q'. rank x \<le> rank y" by blast+
      have below: "\<forall>y \<in># mset ys + bag q'. rank x \<le> rank y"
        using least unfolding b split by simp
      have "bag q = mset xs + bag q'" using b split xs by simp
      moreover have "length xs = min (Suc n) (len q)" using rest(2) b xs by (simp add: len_bag)
      moreover have "sorted (map rank xs)" using rest(1) below xs by simp
      moreover have "\<forall>x \<in> set xs. \<forall>y \<in># bag q'. rank x \<le> rank y"
        using rest(3) below unfolding xs by simp
      ultimately show ?thesis using inv by blast
    qed
  qed
qed

text \<open>Popping a whole queue lists its contents in order; with distinct ranks, it sorts.\<close>

lemma pop_all:
  assumes "inv q" and "pop_times pop (len q) q = (xs, q')"
  shows "mset xs = bag q" and "sorted (map rank xs)" and "bag q' = {#}"
proof -
  note c = pop_times_correct [OF assms]
  then have "size (bag q) = length xs + size (bag q')" by (simp add: size_mset)
  with c have "size (bag q') = 0" by (simp add: len_bag)
  then show "bag q' = {#}" by simp
  with c show "mset xs = bag q" and "sorted (map rank xs)" by simp_all
qed

lemma push_all_pop_all:
  assumes "inj_on rank (set xs)"
  shows "fst (pop_times pop (length xs) (fold push xs new)) = sort_key rank (map norm xs)"
proof -
  let ?q = "fold push xs new"
  obtain ys q' where p: "pop_times pop (length xs) ?q = (ys, q')" by fastforce
  have q: "inv ?q" "bag ?q = image_mset norm (mset xs)" using pushes [OF inv_new] bag_new by simp_all
  have "len ?q = length xs" using q by (simp add: len_bag)
  with p have all: "mset ys = mset (map norm xs)" "sorted (map rank ys)"
    using pop_all [OF q(1)] q(2) by simp_all
  have "inj_on rank (set (map norm xs))"
    using assms by (auto simp: inj_on_def rank_norm)
  then have "sort_key rank (map norm xs) = ys"
    using all by (intro sort_key_inj_key_eq) simp_all
  then show ?thesis by (simp add: p)
qed

end

interpretation jq: priority_queue queue_New queue_Push queue_Pop queue_Len queue_bag queue_inv unindexed urgency_of
proof unfold_locales
  show "queue_inv queue_New" by (rule queue_inv_New)
  show "queue_bag queue_New = {#}" by (rule queue_bag_New)
qed (auto simp: queue_inv_Push queue_bag_Push queue_Len_bag queue_Pop_None dest: queue_Pop_Some(1,2,3))

section \<open>Properties\<close>

datatype queue_op = QPush job | QPop

fun queue_exec :: "queue_op \<Rightarrow> queue \<Rightarrow> queue" where
  "queue_exec (QPush j) q = queue_Push j q"
| "queue_exec QPop q = snd (queue_Pop q)"

lemma queue_exec_inv: "queue_inv q \<Longrightarrow> queue_inv (queue_exec op q)"
proof (cases op)
  case (QPush j)
  then show "queue_inv q \<Longrightarrow> ?thesis" by (simp add: queue_inv_Push)
next
  case QPop
  assume "queue_inv q"
  obtain r q' where p: "queue_Pop q = (r, q')" by fastforce
  have "queue_inv q'"
  proof (cases r)
    case None
    with p have "q' = q" using queue_Pop_None by blast
    with \<open>queue_inv q\<close> show ?thesis by simp
  next
    case (Some j)
    with p \<open>queue_inv q\<close> show ?thesis using queue_Pop_Some(1) by blast
  qed
  then show ?thesis by (simp add: QPop p)
qed

lemma queue_exec_all_inv: "queue_inv q \<Longrightarrow> queue_inv (fold queue_exec ops q)"
  by (induction ops arbitrary: q) (simp_all add: queue_exec_inv)

text \<open>Three jobs of equal priority, the first two submitted at the same instant as the third.\<close>

definition sample_job :: "string \<Rightarrow> int \<Rightarrow> time \<Rightarrow> job" where
  "sample_job i p t =
     \<lparr>j_ID = i, j_Priority = p, j_Resources = \<lparr>rq_CPUCores = 2, rq_MemoryMB = 1024, rq_GPUs = 1\<rparr>,
      j_Inference = fst (NewResNet50Batch 1 ''fp32'' 0), j_Attempt = 0, j_MaxAttempts = 3,
      j_InjectFailure = [], j_State = Pending, j_SubmitTime = t, j_StartTime = 0, j_Node = [], j_index = - 1\<rparr>"

text \<open>
  The data-structure invariant. After any sequence of pushes and pops the heap order holds
  and every job in the heap knows its own position (\<open>j.index\<close>).
\<close>

theorem queue_invariant:
  "ph.is_heap (q_heap (fold queue_exec ops queue_New)) \<and> indexed (q_heap (fold queue_exec ops queue_New))"
  using queue_exec_all_inv [OF queue_inv_New] by (simp add: queue_inv_def)

text \<open>
  C35: what \<open>Pop\<close> returns. From a queue in order, \<open>Pop\<close> removes exactly the job it returns, which
  is the one \<open>Peek\<close> shows, no job left is more urgent, and the rest is again in order.
\<close>

theorem queue_Pop_correct:
  assumes "queue_inv q" and "queue_Pop q = (Some j, q')"
  shows "queue_inv q' \<and> queue_bag q = add_mset j (queue_bag q') \<and>
    (\<forall>k \<in># queue_bag q'. \<not> urgency_of k < urgency_of j) \<and> map_option unindexed (queue_Peek q) = Some j"
proof -
  have "ph_Len (q_heap q) \<noteq> 0" using assms(2) by (auto simp: queue_Pop_def split: if_splits)
  then obtain j' where "queue_Peek q = Some j'" by (simp add: queue_Peek_def)
  then show ?thesis
    using queue_Pop_Some [OF assms] by (auto simp: not_less)
qed

theorem queue_Pop_correct_witness:
  "map_option unindexed (queue_Peek (queue_Push (sample_job ''a'' 2 7) (queue_Push (sample_job ''b'' 4 8) queue_New)))
     = Some (sample_job ''b'' 4 8)"
proof -
  let ?q = "queue_Push (sample_job ''a'' 2 7) (queue_Push (sample_job ''b'' 4 8) queue_New)"
  have "queue_inv ?q" by (intro queue_inv_Push queue_inv_New)
  moreover have "fst (queue_Pop ?q) = Some (sample_job ''b'' 4 8)" by code_simp
  then have "queue_Pop ?q = (Some (sample_job ''b'' 4 8), snd (queue_Pop ?q))" by (simp add: prod_eq_iff)
  ultimately show ?thesis using queue_Pop_correct by blast
qed

text \<open>
  The queue sorts. Jobs pushed in any order, no two of the same priority with the same
  submission time, come out by descending priority and, within a priority, in order of
  submission.
\<close>

theorem queue_serves_in_order:
  assumes "inj_on urgency_of (set js)"
  shows "fst (pop_times queue_Pop (length js) (fold queue_Push js queue_New)) =
    sort_key urgency_of (map unindexed js)"
  using assms by (rule jq.push_all_pop_all)

theorem queue_serves_in_order_witness:
  "map j_ID (fst (pop_times queue_Pop 3
      (fold queue_Push [sample_job ''a'' 2 7, sample_job ''b'' 4 8, sample_job ''c'' 2 6] queue_New)))
     = [''b'', ''c'', ''a'']"
proof -
  let ?js = "[sample_job ''a'' 2 7, sample_job ''b'' 4 8, sample_job ''c'' 2 6]"
  have inj: "inj_on urgency_of (set ?js)" by (simp add: urgency_of_def sample_job_def inj_on_def)
  have len: "length ?js = 3" by simp
  have "sort_key urgency_of (map unindexed ?js) =
      [sample_job ''b'' 4 8, sample_job ''c'' 2 6, sample_job ''a'' 2 7]"
    by (simp add: urgency_of_def sample_job_def unindexed_def less_eq_urgency_def)
  moreover have "map j_ID [sample_job ''b'' 4 8, sample_job ''c'' 2 6, sample_job ''a'' 2 7] = [''b'', ''c'', ''a'']"
    by (simp add: sample_job_def)
  ultimately show ?thesis by (simp only: queue_serves_in_order [OF inj, unfolded len])
qed

text \<open>
  Equal submission times are not served first in, first out. Of three jobs pushed in the
  order a, b, c with the same priority and submission time, the queue returns a, c, b.
\<close>

theorem queue_ties_not_fifo:
  "map j_ID (fst (pop_times queue_Pop 3
      (fold queue_Push [sample_job ''a'' 3 7, sample_job ''b'' 3 7, sample_job ''c'' 3 7] queue_New)))
     = [''a'', ''c'', ''b'']"
  by code_simp

end
