(* ===== verification/Telemetry.thy ===== *)
theory Telemetry
  imports Inference
begin

text \<open>
  \<^verbatim>\<open>internal/telemetry/telemetry.go\<close>: the structured event and the recorder with its two
  sinks. What \<open>fmt.Sprintf\<close> and \<open>json.Marshal\<close> would print into the \<open>Detail\<close> of an event is
  kept as the call itself (\<open>Sprintf\<close> with its format and arguments, \<open>ResultJSON\<close>), so no
  information is lost and no printing is modelled. The outcome of the \<open>n\<close>-th write to a sink
  is an input of the recorder (\<open>r_write_ok\<close>, \<open>r_exec_ok\<close>): a failing sink loses the event and
  prints a line to standard error, and the program goes on.
\<close>

datatype fmt_arg = FStr string | FInt int | FDur duration

datatype detail = Text string | Sprintf string "fmt_arg list" | ResultJSON result

record event =
  ev_Timestamp :: time
  ev_JobID :: string
  ev_EventType :: string
  ev_NodeName :: string
  ev_Priority :: int
  ev_Model :: string
  ev_BatchSize :: int
  ev_Attempt :: int
  ev_TriageAction :: string
  ev_Version :: int
  ev_Detail :: detail

text \<open>An event literal leaves the fields it does not name at their zero values.\<close>

definition zero_event :: event where
  "zero_event = \<lparr>ev_Timestamp = zero_time, ev_JobID = [], ev_EventType = [], ev_NodeName = [],
     ev_Priority = 0, ev_Model = [], ev_BatchSize = 0, ev_Attempt = 0, ev_TriageAction = [],
     ev_Version = 0, ev_Detail = Text []\<rparr>"

text \<open>
  \<open>r_file\<close> holds the lines of the JSONL file, \<open>r_db\<close> the rows of \<open>scheduling_events\<close>
  (\<^term>\<open>None\<close>: no Postgres sink), \<open>r_calls\<close> counts the calls of \<open>Record\<close>, and \<open>r_stderr\<close>
  the error lines printed. The inserted row leaves out \<open>Version\<close>, as the statement does.
\<close>

record recorder =
  r_file :: "event list"
  r_db :: "event list option"
  r_calls :: nat
  r_stderr :: nat
  r_write_ok :: "nat \<Rightarrow> bool"
  r_exec_ok :: "nat \<Rightarrow> bool"

definition NewRecorder :: "bool \<Rightarrow> bool \<Rightarrow> (nat \<Rightarrow> bool) \<Rightarrow> (nat \<Rightarrow> bool) \<Rightarrow> recorder option" where
  "NewRecorder create_ok with_db write_ok exec_ok =
     (if \<not> create_ok then None
      else Some \<lparr>r_file = [], r_db = (if with_db then Some [] else None), r_calls = 0, r_stderr = 0,
                 r_write_ok = write_ok, r_exec_ok = exec_ok\<rparr>)"

definition event_row :: "event \<Rightarrow> event" where
  "event_row e = e\<lparr>ev_Version := 0\<rparr>"

definition recorder_Record :: "event \<Rightarrow> recorder \<Rightarrow> recorder" where
  "recorder_Record e r =
     (let n = r_calls r;
          r1 = (if r_write_ok r n then r\<lparr>r_file := r_file r @ [e]\<rparr>
                else r\<lparr>r_stderr := Suc (r_stderr r)\<rparr>);
          r2 = (case r_db r of
                  None \<Rightarrow> r1
                | Some rows \<Rightarrow>
                    (if r_exec_ok r n then r1\<lparr>r_db := Some (rows @ [event_row e])\<rparr>
                     else r1\<lparr>r_stderr := Suc (r_stderr r1)\<rparr>))
      in r2\<lparr>r_calls := Suc n\<rparr>)"

text \<open>The callers hold a \<open>*Recorder\<close> that may be nil.\<close>

definition record_event :: "event \<Rightarrow> recorder option \<Rightarrow> recorder option" where
  "record_event e ro = map_option (recorder_Record e) ro"

section \<open>What reaches the sinks\<close>

definition sink_ok :: "recorder \<Rightarrow> bool" where
  "sink_ok r \<longleftrightarrow> (\<forall>n. r_write_ok r n) \<and> (\<forall>n. r_exec_ok r n)"

lemma sink_ok_Record [simp]: "sink_ok (recorder_Record e r) = sink_ok r"
  by (simp add: sink_ok_def recorder_Record_def Let_def split: option.splits)

lemma recorder_Record_file:
  "r_file (recorder_Record e r) = (if r_write_ok r (r_calls r) then r_file r @ [e] else r_file r)"
  by (simp add: recorder_Record_def Let_def split: option.splits)

lemma recorder_Record_file_ok: "sink_ok r \<Longrightarrow> r_file (recorder_Record e r) = r_file r @ [e]"
  by (simp add: recorder_Record_file sink_ok_def)

lemma recorder_Record_db:
  "r_db (recorder_Record e r) =
     map_option (\<lambda>rows. if r_exec_ok r (r_calls r) then rows @ [event_row e] else rows) (r_db r)"
  by (simp add: recorder_Record_def Let_def split: option.splits)

lemma recorder_Record_outcomes [simp]:
  "r_write_ok (recorder_Record e r) = r_write_ok r" "r_exec_ok (recorder_Record e r) = r_exec_ok r"
  "r_calls (recorder_Record e r) = Suc (r_calls r)"
  by (simp_all add: recorder_Record_def Let_def split: option.splits)

text \<open>
  \<open>kept ok es\<close> are the events of a sequence whose writes succeed, the \<open>n\<close>-th write being the
  first: the file of a recorder is exactly these, whatever the database does, and conversely.
\<close>

fun kept :: "(nat \<Rightarrow> bool) \<Rightarrow> nat \<Rightarrow> event list \<Rightarrow> event list" where
  "kept ok n [] = []"
| "kept ok n (e # es) = (if ok n then e # kept ok (Suc n) es else kept ok (Suc n) es)"

lemma fold_Record_file:
  "r_file (fold recorder_Record es r) = r_file r @ kept (r_write_ok r) (r_calls r) es"
  by (induction es arbitrary: r) (simp_all add: recorder_Record_file)

lemma fold_Record_db:
  "r_db (fold recorder_Record es r) =
     map_option (\<lambda>rows. rows @ map event_row (kept (r_exec_ok r) (r_calls r) es)) (r_db r)"
proof (induction es arbitrary: r)
  case Nil
  then show ?case by (simp add: option.map_ident)
next
  case (Cons e es)
  then show ?case by (simp add: recorder_Record_db option.map_comp) (cases "r_db r"; simp)
qed

lemma kept_all: "(\<And>n. ok n) \<Longrightarrow> kept ok n es = es"
  by (induction es arbitrary: n) simp_all

section \<open>Properties\<close>

text \<open>
  The sinks are independent and keep order. After any events, the file holds exactly those
  whose write succeeded and the table, if there is one, exactly those whose insert succeeded,
  each in the order of the calls: a failing sink never stops the other nor the program.
\<close>

theorem recorder_sinks:
  "r_file (fold recorder_Record es r) = r_file r @ kept (r_write_ok r) (r_calls r) es \<and>
   r_db (fold recorder_Record es r) =
     map_option (\<lambda>rows. rows @ map event_row (kept (r_exec_ok r) (r_calls r) es)) (r_db r)"
  using fold_Record_file fold_Record_db by blast

end
