(* ===== verification/Triage.thy ===== *)
theory Triage
  imports Inference
begin

text \<open>
  \<^verbatim>\<open>internal/triage/triage.go\<close>: turning a failure into a decision. A non-nil \<open>error\<close> is its
  text. The locale \<open>triage_agent\<close> is the contract of the interface \<open>Agent\<close> that the code's
  agents keep: what they decide is a well-formed decision within the retry budget. The chat
  endpoint the LLM agent calls, and the JSON codec between them, are arguments (\<open>llm_api\<close>).
\<close>

definition Retry :: string where "Retry = ''retry''"
definition AutoAdjust :: string where "AutoAdjust = ''auto_adjust''"
definition Escalate :: string where "Escalate = ''escalate''"

lemmas action_defs = Retry_def AutoAdjust_def Escalate_def

lemma actions_distinct [simp]:
  "Retry \<noteq> AutoAdjust" "AutoAdjust \<noteq> Retry" "Retry \<noteq> Escalate" "Escalate \<noteq> Retry"
  "AutoAdjust \<noteq> Escalate" "Escalate \<noteq> AutoAdjust"
  by (simp_all add: action_defs)

record failure =
  f_JobID :: string
  f_Attempt :: int
  f_MaxAttempts :: int
  f_Error :: string
  f_Batch :: batch

record decision =
  d_Action :: string
  d_Reason :: string
  d_BatchSize :: int
  d_Precision :: string
  d_Source :: string

definition mk_decision :: "string \<Rightarrow> string \<Rightarrow> string \<Rightarrow> decision" where
  "mk_decision action reason source =
     \<lparr>d_Action = action, d_Reason = reason, d_BatchSize = 0, d_Precision = [], d_Source = source\<rparr>"

definition decision_Validate :: "decision \<Rightarrow> string option" where
  "decision_Validate d =
     (if d_Action d = Retry \<or> d_Action d = Escalate then None
      else if d_Action d = AutoAdjust then
        (if d_BatchSize d < 1 then Some ''auto_adjust requires a positive batch_size''
         else if d_Precision d \<noteq> ''fp32'' \<and> d_Precision d \<noteq> ''fp16''
           then Some ''auto_adjust precision must be fp32 or fp16''
         else None)
      else Some (''unknown triage action '' @ quote (d_Action d)))"

type_synonym agent = "failure \<Rightarrow> string + decision"

section \<open>The agents\<close>

definition policy_Decide :: agent where
  "policy_Decide f =
     (let errText = to_lower (f_Error f) in
      if f_Attempt f \<ge> f_MaxAttempts f then
        Inr (mk_decision Escalate ''retry budget exhausted'' ''policy'')
      else if contains errText ''out of memory'' \<or> contains errText ''oom'' then
        (let half = b_BatchSize (f_Batch f) sdiv 2;
             size = (if half < 1 then 1 else half)
         in Inr \<lparr>d_Action = AutoAdjust, d_Reason = ''reduce memory pressure'', d_BatchSize = size,
                 d_Precision = ''fp16'', d_Source = ''policy''\<rparr>)
      else if contains errText ''corrupt'' \<or> contains errText ''invalid input'' then
        Inr (mk_decision Escalate ''input needs human investigation'' ''policy'')
      else Inr (mk_decision Retry ''failure appears transient'' ''policy''))"

record chat_message =
  m_Role :: string
  m_Content :: string

record chat_request =
  cr_Model :: string
  cr_Messages :: "chat_message list"
  cr_ResponseFormat :: string

record http_request =
  hr_URL :: string
  hr_ContentType :: string
  hr_Authorization :: "string option"
  hr_Body :: chat_request

datatype http_result = TransportError string | Response int string string

text \<open>
  The world of the LLM agent: the codec of the failure, \<open>http.NewRequest\<close> (an error text for a
  URL it rejects), the client's \<open>Do\<close> (status code, status line and body), and the two
  decoders: the contents of the choices of a chat response, and a decision.
\<close>

record llm_api =
  api_marshal :: "failure \<Rightarrow> string + string"
  api_bad_url :: "string \<Rightarrow> string option"
  api_do :: "http_request \<Rightarrow> http_result"
  api_chat :: "string \<Rightarrow> string + string list"
  api_decision :: "string \<Rightarrow> string + decision"

record llm_agent =
  a_URL :: string
  a_APIKey :: string
  a_Model :: string

definition system_prompt :: string where
  "system_prompt = ''You triage failed ML inference batches. Return only JSON with action retry, auto_adjust, or escalate; reason; and for auto_adjust a positive batch_size and precision fp32 or fp16. Never exceed the supplied retry budget.''"

definition llm_request :: "llm_agent \<Rightarrow> string \<Rightarrow> http_request" where
  "llm_request a failureJSON =
     \<lparr>hr_URL = a_URL a, hr_ContentType = ''application/json'',
      hr_Authorization = (if a_APIKey a \<noteq> [] then Some (''Bearer '' @ a_APIKey a) else None),
      hr_Body = \<lparr>cr_Model = a_Model a,
        cr_Messages = [\<lparr>m_Role = ''system'', m_Content = system_prompt\<rparr>,
                       \<lparr>m_Role = ''user'', m_Content = failureJSON\<rparr>],
        cr_ResponseFormat = ''json_object''\<rparr>\<rparr>"

text \<open>The checks on a decoded decision: lines 166 to 173.\<close>

definition llm_accept :: "failure \<Rightarrow> decision \<Rightarrow> string + decision" where
  "llm_accept f decoded =
     (let decision = decoded\<lparr>d_Source := ''llm''\<rparr> in
      case decision_Validate decision of
        Some e \<Rightarrow> Inl e
      | None \<Rightarrow>
          (if f_Attempt f \<ge> f_MaxAttempts f \<and> d_Action decision \<noteq> Escalate
           then Inl ''triage model exceeded retry budget''
           else Inr decision))"

definition llm_Decide :: "llm_api \<Rightarrow> llm_agent \<Rightarrow> agent" where
  "llm_Decide api a f =
     (if a_URL a = [] \<or> a_Model a = [] then Inl ''LLM triage requires URL and model''
      else case api_marshal api f of
        Inl e \<Rightarrow> Inl e
      | Inr failureJSON \<Rightarrow>
      (case api_bad_url api (a_URL a) of
        Some e \<Rightarrow> Inl e
      | None \<Rightarrow>
      (case api_do api (llm_request a failureJSON) of
        TransportError e \<Rightarrow> Inl (''calling triage model: '' @ e)
      | Response code status body \<Rightarrow>
          if code sdiv 100 \<noteq> 2
          then Inl (''triage model returned '' @ status @ '': '' @ trim_space (take 4096 body))
          else (case api_chat api body of
            Inl e \<Rightarrow> Inl (''decoding triage response: '' @ e)
          | Inr [] \<Rightarrow> Inl ''triage model returned no choices''
          | Inr (content # _) \<Rightarrow>
              (case api_decision api content of
                Inl e \<Rightarrow> Inl (''decoding triage decision: '' @ e)
              | Inr decoded \<Rightarrow> llm_accept f decoded)))))"

definition fallback_Decide :: "agent \<Rightarrow> agent \<Rightarrow> agent" where
  "fallback_Decide primary fallback f =
     (case primary f of
        Inr d \<Rightarrow> Inr d
      | Inl err \<Rightarrow>
          (case fallback f of
             Inl fallbackErr \<Rightarrow> Inl (err @ [CHR 0x0A] @ fallbackErr)
           | Inr d \<Rightarrow> Inr (d\<lparr>d_Source := ''policy_fallback'',
                d_Reason := ''LLM unavailable ('' @ err @ ''); '' @ d_Reason d\<rparr>)))"

section \<open>The contract of an agent\<close>

definition valid_decision :: "decision \<Rightarrow> bool" where
  "valid_decision d \<longleftrightarrow> d_Action d = Retry \<or> d_Action d = Escalate \<or>
     (d_Action d = AutoAdjust \<and> 1 \<le> d_BatchSize d \<and> d_Precision d \<in> {''fp32'', ''fp16''})"

lemma decision_Validate_None: "decision_Validate d = None \<longleftrightarrow> valid_decision d"
  by (auto simp: decision_Validate_def valid_decision_def)

lemma decision_Validate_valid [simp]: "valid_decision d \<Longrightarrow> decision_Validate d = None"
  by (simp add: decision_Validate_None)

lemma valid_decision_cases [consumes 1, case_names retry adjust escalate]:
  assumes "valid_decision d"
  obtains "d_Action d = Retry"
    | "d_Action d = AutoAdjust" "1 \<le> d_BatchSize d" "d_Precision d \<in> {''fp32'', ''fp16''}"
    | "d_Action d = Escalate"
  using assms unfolding valid_decision_def by blast

definition within_budget :: "failure \<Rightarrow> decision \<Rightarrow> bool" where
  "within_budget f d \<longleftrightarrow> (f_MaxAttempts f \<le> f_Attempt f \<longrightarrow> d_Action d = Escalate)"

locale triage_agent =
  fixes decide :: agent
  assumes valid: "decide f = Inr d \<Longrightarrow> valid_decision d"
    and budget: "decide f = Inr d \<Longrightarrow> within_budget f d"
begin

lemma not_terminal_means_budget_left:
  "decide f = Inr d \<Longrightarrow> d_Action d \<noteq> Escalate \<Longrightarrow> f_Attempt f < f_MaxAttempts f"
  using budget [of f d] by (simp add: within_budget_def)

end

locale total_agent = triage_agent +
  assumes answers: "\<exists>d. decide f = Inr d"

interpretation policy: total_agent policy_Decide
proof unfold_locales
  fix f d
  show "\<exists>d. policy_Decide f = Inr d" by (simp add: policy_Decide_def Let_def)
  show "valid_decision d" if "policy_Decide f = Inr d"
    using that by (auto simp: policy_Decide_def Let_def valid_decision_def mk_decision_def split: if_splits)
  show "within_budget f d" if "policy_Decide f = Inr d"
    using that by (auto simp: policy_Decide_def Let_def within_budget_def mk_decision_def split: if_splits)
qed

lemma llm_accept_Inr:
  "llm_accept f decoded = Inr d \<Longrightarrow> valid_decision d \<and> within_budget f d \<and> d = decoded\<lparr>d_Source := ''llm''\<rparr>"
  by (auto simp: llm_accept_def Let_def within_budget_def decision_Validate_None split: option.splits if_splits)

lemma llm_Decide_Inr:
  "llm_Decide api a f = Inr d \<Longrightarrow> \<exists>decoded. llm_accept f decoded = Inr d"
  by (auto simp: llm_Decide_def split: if_splits sum.splits option.splits http_result.splits list.splits)

interpretation llm: triage_agent "llm_Decide api a" for api a
  by unfold_locales (auto dest!: llm_Decide_Inr llm_accept_Inr)

text \<open>Two agents in sequence keep the contract, and always answer when the second one does.\<close>

lemma valid_decision_relabel [simp]:
  "valid_decision (d\<lparr>d_Source := s, d_Reason := r\<rparr>) = valid_decision d"
  by (simp add: valid_decision_def)

lemma within_budget_relabel [simp]:
  "within_budget f (d\<lparr>d_Source := s, d_Reason := r\<rparr>) = within_budget f d"
  by (simp add: within_budget_def)

locale agent_pair = primary: triage_agent p + secondary: total_agent q for p q :: agent

sublocale agent_pair \<subseteq> both: total_agent "fallback_Decide p q"
proof unfold_locales
  fix f d
  show "\<exists>d. fallback_Decide p q f = Inr d"
    using secondary.answers [of f] by (auto simp: fallback_Decide_def split: sum.splits)
  show "valid_decision d" if "fallback_Decide p q f = Inr d"
    using that primary.valid [of f] secondary.valid [of f]
    by (auto simp: fallback_Decide_def split: sum.splits)
  show "within_budget f d" if "fallback_Decide p q f = Inr d"
    using that primary.budget [of f] secondary.budget [of f]
    by (auto simp: fallback_Decide_def split: sum.splits)
qed

interpretation llm_or_policy: agent_pair "llm_Decide api a" policy_Decide for api a
  by unfold_locales

section \<open>What the policy adjusts stays a valid batch\<close>

lemma policy_Decide_size:
  assumes "policy_Decide f = Inr d" and "d_Action d = AutoAdjust"
  shows "d_BatchSize d = max 1 (b_BatchSize (f_Batch f) sdiv 2) \<and> d_Precision d = ''fp16''"
  using assms by (auto simp: policy_Decide_def Let_def mk_decision_def action_defs split: if_splits)

lemma policy_Decide_valid_batch:
  assumes "valid_batch (f_Batch f)" and "policy_Decide f = Inr d" and "d_Action d = AutoAdjust"
  shows "valid_batch ((f_Batch f)\<lparr>b_BatchSize := d_BatchSize d, b_Precision := d_Precision d\<rparr>)"
    and "b_BatchSize (f_Batch f) > 1 \<Longrightarrow> d_BatchSize d < b_BatchSize (f_Batch f)"
proof -
  have r: "1 \<le> b_BatchSize (f_Batch f)" "b_BatchSize (f_Batch f) \<le> 256"
    using assms(1) by (simp_all add: valid_batch_def)
  have h: "b_BatchSize (f_Batch f) sdiv 2 = b_BatchSize (f_Batch f) div 2"
    using r by (simp add: signed_divide_int_def)
  show "valid_batch ((f_Batch f)\<lparr>b_BatchSize := d_BatchSize d, b_Precision := d_Precision d\<rparr>)"
    using policy_Decide_size [OF assms(2,3)] assms(1) r h by (intro valid_batch_adjust) auto
  show "b_BatchSize (f_Batch f) > 1 \<Longrightarrow> d_BatchSize d < b_BatchSize (f_Batch f)"
    using policy_Decide_size [OF assms(2,3)] h by simp
qed

section \<open>Properties\<close>

definition sample_failure :: "int \<Rightarrow> string \<Rightarrow> int \<Rightarrow> failure" where
  "sample_failure attempt err n =
     \<lparr>f_JobID = ''inference-000'', f_Attempt = attempt, f_MaxAttempts = 3, f_Error = err,
      f_Batch = fst (NewResNet50Batch n ''fp32'' 42)\<rparr>"

text \<open>
  Every agent the dispatcher can build answers every failure with a well-formed decision
  within the retry budget: the policy, and the LLM agent backed by the policy, whatever the
  endpoint returns.
\<close>

theorem agents_sound:
  "(\<exists>d. policy_Decide f = Inr d \<and> valid_decision d \<and> (f_Attempt f < f_MaxAttempts f \<or> d_Action d = Escalate)) \<and>
   (\<exists>d. fallback_Decide (llm_Decide api a) policy_Decide f = Inr d \<and> valid_decision d \<and>
      (f_Attempt f < f_MaxAttempts f \<or> d_Action d = Escalate))"
proof -
  obtain d where d: "policy_Decide f = Inr d" using policy.answers by blast
  obtain e where e: "fallback_Decide (llm_Decide api a) policy_Decide f = Inr e"
    using llm_or_policy.both.answers by blast
  show ?thesis
    using d e policy.valid [OF d] policy.budget [OF d] llm_or_policy.both.valid [OF e]
      llm_or_policy.both.budget [OF e]
    unfolding within_budget_def by (meson not_le)
qed

text \<open>
  The policy shrinks the batch and keeps it valid. When the policy adjusts a valid batch, the
  adjusted batch is valid too, and strictly smaller unless it had a single image.
\<close>

theorem policy_adjust_shrinks:
  assumes "valid_batch (f_Batch f)" and "policy_Decide f = Inr d" and "d_Action d = AutoAdjust"
  shows "valid_batch ((f_Batch f)\<lparr>b_BatchSize := d_BatchSize d, b_Precision := d_Precision d\<rparr>) \<and>
    (b_BatchSize (f_Batch f) = 1 \<or> d_BatchSize d < b_BatchSize (f_Batch f)) \<and> d_Precision d = ''fp16''"
proof -
  have "1 \<le> b_BatchSize (f_Batch f)" using assms(1) by (simp add: valid_batch_def)
  then show ?thesis
    using policy_Decide_valid_batch [OF assms] policy_Decide_size [OF assms(2,3)] by linarith
qed

theorem policy_adjust_shrinks_witness:
  "\<exists>d. policy_Decide (sample_failure 1 ''CUDA out of memory'' 32) = Inr d \<and> d_BatchSize d < 32"
proof -
  let ?f = "sample_failure 1 ''CUDA out of memory'' 32"
  let ?d = "\<lparr>d_Action = AutoAdjust, d_Reason = ''reduce memory pressure'', d_BatchSize = 16,
     d_Precision = ''fp16'', d_Source = ''policy''\<rparr>"
  have "valid_batch (f_Batch ?f)" "policy_Decide ?f = Inr ?d" "d_Action ?d = AutoAdjust" by code_simp+
  from policy_adjust_shrinks [OF this] have "b_BatchSize (f_Batch ?f) = 1 \<or> d_BatchSize ?d < b_BatchSize (f_Batch ?f)"
    by blast
  moreover have "b_BatchSize (f_Batch ?f) = 32" by code_simp
  ultimately have "d_BatchSize ?d < 32" by simp
  with \<open>policy_Decide ?f = Inr ?d\<close> show ?thesis by blast
qed

end
