(* ===== verification/Broker.thy ===== *)
theory Broker
  imports JobQueue Telemetry Triage
begin

text \<open>
  \<^verbatim>\<open>internal/dispatch/broker.go\<close>: the in-process coordinator. Every method of \<open>Broker\<close> is a
  function on its state; \<open>time.Now()\<close> is an argument. \<open>Report\<close> holds the lock twice, with the
  triage agent called in between: \<open>broker_Report_begin\<close> and \<open>broker_Report_finish\<close> are the two
  critical sections and \<open>coordinator_decision\<close> is what happens between them. The step relation
  \<open>broker_step\<close> interleaves the critical sections of concurrent calls; the calls that are
  between their two sections are the \<open>bs_triaging\<close> part of the state.
\<close>

section \<open>State and messages\<close>

record claim_reply =
  cl_Job :: "job option"
  cl_Wait :: bool
  cl_Shutdown :: bool

record report_args =
  ra_WorkerID :: string
  ra_JobID :: string
  ra_Success :: bool
  ra_Error :: string
  ra_Result :: result

record stats =
  st_Submitted :: nat
  st_Succeeded :: nat
  st_Escalated :: nat
  st_Retried :: nat
  st_Adjusted :: nat

record broker =
  br_queue :: queue
  br_running :: "(string \<times> job) list"
  br_agent :: agent
  br_recorder :: "recorder option"
  br_stats :: stats
  br_closed :: bool
  br_done :: bool

datatype submit_error = InvalidJob string batch_error | SubmissionsClosed

definition NewBroker :: "agent \<Rightarrow> recorder option \<Rightarrow> broker" where
  "NewBroker agent recorder =
     \<lparr>br_queue = queue_New, br_running = [], br_agent = agent, br_recorder = recorder,
      br_stats = \<lparr>st_Submitted = 0, st_Succeeded = 0, st_Escalated = 0, st_Retried = 0, st_Adjusted = 0\<rparr>,
      br_closed = False, br_done = False\<rparr>"

section \<open>Helpers\<close>

definition broker_record :: "event \<Rightarrow> broker \<Rightarrow> broker" where
  "broker_record e b = b\<lparr>br_recorder := record_event e (br_recorder b)\<rparr>"

definition job_event :: "time \<Rightarrow> job \<Rightarrow> string \<Rightarrow> string \<Rightarrow> detail \<Rightarrow> event" where
  "job_event now job typ nodeName detail =
     zero_event\<lparr>ev_Timestamp := now, ev_JobID := j_ID job, ev_EventType := typ, ev_NodeName := nodeName,
       ev_Priority := j_Priority job, ev_Model := b_Model (j_Inference job),
       ev_BatchSize := b_BatchSize (j_Inference job), ev_Attempt := j_Attempt job, ev_Detail := detail\<rparr>"

definition broker_recordLifecycle :: "time \<Rightarrow> job \<Rightarrow> string \<Rightarrow> string \<Rightarrow> broker \<Rightarrow> broker" where
  "broker_recordLifecycle now job eventType detail b =
     broker_record (job_event now job eventType (j_Node job) (Text detail)) b"

definition broker_maybeDone :: "broker \<Rightarrow> broker" where
  "broker_maybeDone b =
     (if br_closed b \<and> queue_Len (br_queue b) = 0 \<and> length (br_running b) = 0 \<and>
         st_Succeeded (br_stats b) + st_Escalated (br_stats b) = st_Submitted (br_stats b)
      then b\<lparr>br_done := True\<rparr> else b)"

section \<open>Submission\<close>

text \<open>What \<open>Submit\<close> fills in before the job enters the queue.\<close>

definition prepare_job :: "time \<Rightarrow> job \<Rightarrow> job" where
  "prepare_job now job =
     (let j1 = (if j_MaxAttempts job < 1 then job\<lparr>j_MaxAttempts := 3\<rparr> else job);
          j2 = j1\<lparr>j_State := Pending\<rparr>
      in if time_is_zero (j_SubmitTime j2) then j2\<lparr>j_SubmitTime := now\<rparr> else j2)"

definition submitted_detail :: "batch \<Rightarrow> detail" where
  "submitted_detail i =
     Sprintf ''inference batch model=%s shape=%dx%dx%dx%d precision=%s''
       [FStr (b_Model i), FInt (b_BatchSize i), FInt (b_Channels i), FInt (b_Height i),
        FInt (b_Width i), FStr (b_Precision i)]"

definition broker_Submit :: "time \<Rightarrow> job \<Rightarrow> broker \<Rightarrow> submit_error option \<times> broker" where
  "broker_Submit now job b =
     (case batch_Validate (j_Inference job) of
        Some e \<Rightarrow> (Some (InvalidJob (j_ID job) e), b)
      | None \<Rightarrow>
          if br_closed b then (Some SubmissionsClosed, b)
          else (let job' = prepare_job now job;
                    b1 = b\<lparr>br_queue := queue_Push job' (br_queue b)\<rparr>;
                    b2 = b1\<lparr>br_stats := (br_stats b1)\<lparr>st_Submitted := Suc (st_Submitted (br_stats b1))\<rparr>\<rparr>
                in (None, broker_record (job_event (j_SubmitTime job') job' ''submitted'' []
                            (submitted_detail (j_Inference job'))) b2)))"

definition broker_CloseSubmissions :: "broker \<Rightarrow> broker" where
  "broker_CloseSubmissions b = broker_maybeDone (b\<lparr>br_closed := True\<rparr>)"

section \<open>Claim\<close>

definition start_job :: "time \<Rightarrow> string \<Rightarrow> job \<Rightarrow> job" where
  "start_job now worker job =
     job\<lparr>j_Attempt := j_Attempt job + 1, j_State := Running, j_StartTime := now, j_Node := worker\<rparr>"

definition broker_Claim :: "time \<Rightarrow> string \<Rightarrow> broker \<Rightarrow> claim_reply \<times> broker" where
  "broker_Claim now worker b =
     (if queue_Len (br_queue b) = 0 then
        (if br_closed b \<and> length (br_running b) = 0
         then (\<lparr>cl_Job = None, cl_Wait = False, cl_Shutdown = True\<rparr>, broker_maybeDone b)
         else (\<lparr>cl_Job = None, cl_Wait = True, cl_Shutdown = False\<rparr>, b))
      else case queue_Pop (br_queue b) of
        (None, q) \<Rightarrow> (\<lparr>cl_Job = None, cl_Wait = False, cl_Shutdown = False\<rparr>, b) \<comment> \<open>not reached\<close>
      | (Some popped, q) \<Rightarrow>
          (let job = start_job now worker popped;
               b1 = b\<lparr>br_queue := q, br_running := map_put (j_ID job) job (br_running b)\<rparr>
           in (\<lparr>cl_Job = Some job, cl_Wait = False, cl_Shutdown = False\<rparr>,
               broker_record (job_event (j_StartTime job) job ''started'' worker
                 (Sprintf ''worker=%s waited=%s''
                   [FStr worker, FDur (job_WaitTime job (j_StartTime job))])) b1)))"

section \<open>Report\<close>

text \<open>
  The first critical section. \<^term>\<open>Inl\<close> is the error \<open>job %s is not assigned\<close>; a success ends
  the call (\<^term>\<open>Inr None\<close>); a failed job goes to triage (\<^term>\<open>Inr (Some job)\<close>).
\<close>

datatype report_error = NotAssigned string

definition broker_Report_begin ::
  "time \<Rightarrow> report_args \<Rightarrow> broker \<Rightarrow> (report_error + job option) \<times> broker" where
  "broker_Report_begin now args b =
     (case map_of (br_running b) (ra_JobID args) of
        None \<Rightarrow> (Inl (NotAssigned (ra_JobID args)), b)
      | Some job \<Rightarrow>
          (let b1 = b\<lparr>br_running := map_del (ra_JobID args) (br_running b)\<rparr> in
           if ra_Success args then
             (let job' = job\<lparr>j_State := Completed\<rparr>;
                  b2 = b1\<lparr>br_stats := (br_stats b1)\<lparr>st_Succeeded := Suc (st_Succeeded (br_stats b1))\<rparr>\<rparr>;
                  b3 = broker_record (job_event now job' ''completed'' (ra_WorkerID args)
                         (ResultJSON (ra_Result args))) b2
              in (Inr None, broker_maybeDone b3))
           else
             (Inr (Some job),
              broker_record (job_event now job ''failed'' (ra_WorkerID args) (Text (ra_Error args))) b1)))"

definition failure_of :: "report_args \<Rightarrow> job \<Rightarrow> failure" where
  "failure_of args job =
     \<lparr>f_JobID = j_ID job, f_Attempt = j_Attempt job, f_MaxAttempts = j_MaxAttempts job,
      f_Error = ra_Error args, f_Batch = j_Inference job\<rparr>"

text \<open>The decision the coordinator acts on: the agent's, unless one of its guards replaces it.\<close>

definition coordinator_decision :: "agent \<Rightarrow> failure \<Rightarrow> decision" where
  "coordinator_decision agent f =
     (let d1 = (case agent f of
                  Inl err \<Rightarrow> mk_decision Escalate (''triage agent failed: '' @ err) ''safety_fallback''
                | Inr d \<Rightarrow> d);
          d2 = (case decision_Validate d1 of
                  Some err \<Rightarrow> mk_decision Escalate (''invalid triage decision: '' @ err) ''safety_fallback''
                | None \<Rightarrow> d1)
      in if f_Attempt f \<ge> f_MaxAttempts f \<and> d_Action d2 \<noteq> Escalate
         then mk_decision Escalate ''retry budget exhausted'' ''coordinator_guardrail''
         else d2)"

definition stat_retried :: "stats \<Rightarrow> stats" where
  "stat_retried s = s\<lparr>st_Retried := Suc (st_Retried s)\<rparr>"

definition stat_adjusted :: "stats \<Rightarrow> stats" where
  "stat_adjusted s = s\<lparr>st_Adjusted := Suc (st_Adjusted s)\<rparr>"

definition stat_escalated :: "stats \<Rightarrow> stats" where
  "stat_escalated s = s\<lparr>st_Escalated := Suc (st_Escalated s)\<rparr>"

text \<open>The \<open>switch\<close> over the action.\<close>

definition broker_apply_decision :: "time \<Rightarrow> job \<Rightarrow> decision \<Rightarrow> broker \<Rightarrow> broker" where
  "broker_apply_decision now job decision b =
     (if d_Action decision = Retry then
        (let job' = job\<lparr>j_State := Pending, j_InjectFailure := []\<rparr> in
         broker_recordLifecycle now job' ''retried'' (d_Reason decision)
           (b\<lparr>br_queue := queue_Push job' (br_queue b), br_stats := stat_retried (br_stats b)\<rparr>))
      else if d_Action decision = AutoAdjust then
        (let job' = job\<lparr>j_State := Pending, j_InjectFailure := [],
              j_Inference := (j_Inference job)\<lparr>b_BatchSize := d_BatchSize decision,
                                                b_Precision := d_Precision decision\<rparr>\<rparr> in
         broker_recordLifecycle now job' ''adjusted'' (d_Reason decision)
           (b\<lparr>br_queue := queue_Push job' (br_queue b), br_stats := stat_adjusted (br_stats b)\<rparr>))
      else if d_Action decision = Escalate then
        (let job' = job\<lparr>j_State := Completed\<rparr> in
         broker_recordLifecycle now job' ''escalated'' (d_Reason decision)
           (b\<lparr>br_stats := stat_escalated (br_stats b)\<rparr>))
      else b)"

text \<open>The second critical section: the decision is recorded and carried out.\<close>

definition broker_Report_finish ::
  "time \<Rightarrow> report_args \<Rightarrow> job \<Rightarrow> decision \<Rightarrow> broker \<Rightarrow> broker" where
  "broker_Report_finish now args job decision b =
     (let triaged = (job_event now job ''triaged'' (ra_WorkerID args)
            (Sprintf ''source=%s reason=%s'' [FStr (d_Source decision), FStr (d_Reason decision)]))
            \<lparr>ev_TriageAction := d_Action decision\<rparr>
      in broker_maybeDone (broker_apply_decision now job decision (broker_record triaged b)))"

text \<open>The whole method when no other call comes between its two sections.\<close>

definition broker_Report ::
  "time \<Rightarrow> time \<Rightarrow> report_args \<Rightarrow> broker \<Rightarrow> (report_error + decision option) \<times> broker" where
  "broker_Report now1 now2 args b =
     (case broker_Report_begin now1 args b of
        (Inl e, b1) \<Rightarrow> (Inl e, b1)
      | (Inr None, b1) \<Rightarrow> (Inr None, b1)
      | (Inr (Some job), b1) \<Rightarrow>
          (let d = coordinator_decision (br_agent b1) (failure_of args job)
           in (Inr (Some d), broker_Report_finish now2 args job d b1)))"

section \<open>The decision the coordinator acts on\<close>

lemma mk_decision_simps [simp]:
  "d_Action (mk_decision a r s) = a" "d_Reason (mk_decision a r s) = r" "d_Source (mk_decision a r s) = s"
  "valid_decision (mk_decision Escalate r s)"
  by (simp_all add: mk_decision_def valid_decision_def)

lemma coordinator_decision_valid: "valid_decision (coordinator_decision agent f)"
  by (auto simp: coordinator_decision_def Let_def decision_Validate_None split: option.split)

lemma coordinator_decision_budget: "within_budget f (coordinator_decision agent f)"
  by (auto simp: coordinator_decision_def Let_def mk_decision_def within_budget_def)

context triage_agent
begin

text \<open>With an agent that keeps its contract, the coordinator's guards never replace a decision.\<close>

lemma guards_do_not_fire:
  assumes "decide f = Inr d"
  shows "coordinator_decision decide f = d"
proof -
  show ?thesis using assms valid [OF assms] budget [OF assms]
    by (auto simp: coordinator_decision_def Let_def within_budget_def)
qed

end

end
