(* ===== verification/BrokerSystem.thy ===== *)
theory BrokerSystem
  imports Broker
begin

text \<open>
  The broker under concurrent callers. A state is the broker and the \<open>Report\<close> calls that have
  left their first critical section and not yet entered the second. A step is one critical
  section of one call. The invariant ties queue, running map and pending reports together; the
  ledger is the abstract specification the broker implements: every accepted job is waiting,
  assigned, in triage or terminal, and the counters say how many.
\<close>

section \<open>States and steps\<close>

record broker_sys =
  bs_broker :: broker
  bs_triaging :: "(report_args \<times> job) list"

definition triaging_jobs :: "broker_sys \<Rightarrow> job multiset" where
  "triaging_jobs s = mset (map snd (bs_triaging s))"

definition live_jobs :: "broker_sys \<Rightarrow> job multiset" where
  "live_jobs s = queue_bag (br_queue (bs_broker s)) + map_vals (br_running (bs_broker s)) + triaging_jobs s"

definition live_ids :: "broker_sys \<Rightarrow> string multiset" where
  "live_ids s = image_mset j_ID (live_jobs s)"

definition init_sys :: "agent \<Rightarrow> recorder option \<Rightarrow> broker_sys" where
  "init_sys agent rec = \<lparr>bs_broker = NewBroker agent rec, bs_triaging = []\<rparr>"

text \<open>
  One rule per critical section. A submitted job is new: its ID is not the ID of a live job and
  it has not been attempted (\<^verbatim>\<open>generateJobs\<close> numbers the jobs and leaves \<open>Attempt\<close> at 0).
  Rejected calls (\<open>Submit\<close> of an invalid batch or after closing, \<open>Report\<close> of an unknown job,
  \<open>Claim\<close> on an empty queue) are steps too.
\<close>

datatype label = LSubmit | LClose | LGrant | LIdle | LSuccess | LFailure | LReject | LDecide

inductive broker_step :: "broker_sys \<Rightarrow> label \<Rightarrow> broker_sys \<Rightarrow> bool" where
  submit: "broker_Submit now job (bs_broker s) = (None, b) \<Longrightarrow> j_ID job \<notin># live_ids s \<Longrightarrow>
     j_Attempt job = 0 \<Longrightarrow> broker_step s LSubmit (s\<lparr>bs_broker := b\<rparr>)"
| submit_rejected: "broker_Submit now job (bs_broker s) = (Some e, b) \<Longrightarrow>
     broker_step s LReject (s\<lparr>bs_broker := b\<rparr>)"
| close: "broker_step s LClose (s\<lparr>bs_broker := broker_CloseSubmissions (bs_broker s)\<rparr>)"
| grant: "broker_Claim now worker (bs_broker s) = (reply, b) \<Longrightarrow> cl_Job reply = Some job \<Longrightarrow>
     broker_step s LGrant (s\<lparr>bs_broker := b\<rparr>)"
| idle: "broker_Claim now worker (bs_broker s) = (reply, b) \<Longrightarrow> cl_Job reply = None \<Longrightarrow>
     broker_step s LIdle (s\<lparr>bs_broker := b\<rparr>)"
| success: "broker_Report_begin now args (bs_broker s) = (Inr None, b) \<Longrightarrow>
     broker_step s LSuccess (s\<lparr>bs_broker := b\<rparr>)"
| failure: "broker_Report_begin now args (bs_broker s) = (Inr (Some job), b) \<Longrightarrow>
     broker_step s LFailure (s\<lparr>bs_broker := b, bs_triaging := bs_triaging s @ [(args, job)]\<rparr>)"
| unknown: "broker_Report_begin now args (bs_broker s) = (Inl e, b) \<Longrightarrow>
     broker_step s LReject (s\<lparr>bs_broker := b\<rparr>)"
| decide: "bs_triaging s = xs @ (args, job) # ys \<Longrightarrow>
     d = coordinator_decision (br_agent (bs_broker s)) (failure_of args job) \<Longrightarrow>
     broker_step s LDecide
       (s\<lparr>bs_broker := broker_Report_finish now args job d (bs_broker s), bs_triaging := xs @ ys\<rparr>)"

inductive broker_reachable :: "agent \<Rightarrow> recorder option \<Rightarrow> broker_sys \<Rightarrow> bool"
  for agent :: agent and rec :: "recorder option" where
  init: "broker_reachable agent rec (init_sys agent rec)"
| step: "broker_reachable agent rec s \<Longrightarrow> broker_step s l t \<Longrightarrow> broker_reachable agent rec t"

inductive_cases grant_stepE: "broker_step s LGrant t"
inductive_cases decide_stepE: "broker_step s LDecide t"
inductive_cases success_stepE: "broker_step s LSuccess t"
inductive_cases failure_stepE: "broker_step s LFailure t"

section \<open>What each critical section does\<close>

lemma broker_record_simps [simp]:
  "br_queue (broker_record e b) = br_queue b" "br_running (broker_record e b) = br_running b"
  "br_stats (broker_record e b) = br_stats b" "br_closed (broker_record e b) = br_closed b"
  "br_done (broker_record e b) = br_done b" "br_agent (broker_record e b) = br_agent b"
  by (simp_all add: broker_record_def)

lemma broker_maybeDone_simps [simp]:
  "br_queue (broker_maybeDone b) = br_queue b" "br_running (broker_maybeDone b) = br_running b"
  "br_stats (broker_maybeDone b) = br_stats b" "br_closed (broker_maybeDone b) = br_closed b"
  "br_agent (broker_maybeDone b) = br_agent b" "br_recorder (broker_maybeDone b) = br_recorder b"
  by (simp_all add: broker_maybeDone_def)

text \<open>\<open>settled st\<close> is the number of jobs that have reached a terminal state.\<close>

definition settled :: "stats \<Rightarrow> nat" where
  "settled st = st_Succeeded st + st_Escalated st"

lemma broker_maybeDone_done:
  "br_done (broker_maybeDone b) \<longleftrightarrow> br_done b \<or>
     (br_closed b \<and> queue_Len (br_queue b) = 0 \<and> br_running b = [] \<and>
      settled (br_stats b) = st_Submitted (br_stats b))"
  by (auto simp: broker_maybeDone_def settled_def)

lemma prepare_job_simps [simp]:
  "j_ID (prepare_job now job) = j_ID job" "j_Attempt (prepare_job now job) = j_Attempt job"
  "j_State (prepare_job now job) = Pending" "j_Inference (prepare_job now job) = j_Inference job"
  "0 < j_MaxAttempts (prepare_job now job)" "j_Priority (prepare_job now job) = j_Priority job"
  by (simp_all add: prepare_job_def Let_def)

lemma start_job_simps [simp]:
  "j_ID (start_job now w job) = j_ID job" "j_Attempt (start_job now w job) = j_Attempt job + 1"
  "j_State (start_job now w job) = Running" "j_Inference (start_job now w job) = j_Inference job"
  "j_MaxAttempts (start_job now w job) = j_MaxAttempts job" "j_Node (start_job now w job) = w"
  "j_Priority (start_job now w job) = j_Priority job"
  by (simp_all add: start_job_def)

lemma broker_SubmitE:
  assumes "broker_Submit now job b = (None, b')"
  obtains "valid_batch (j_Inference job)" "\<not> br_closed b"
    "br_queue b' = queue_Push (prepare_job now job) (br_queue b)" "br_running b' = br_running b"
    "br_stats b' = (br_stats b)\<lparr>st_Submitted := Suc (st_Submitted (br_stats b))\<rparr>"
    "br_closed b' = br_closed b" "br_done b' = br_done b" "br_agent b' = br_agent b"
  using assms that by (auto simp: broker_Submit_def Let_def split: option.splits if_splits)

lemma broker_Submit_rejected: "broker_Submit now job b = (Some e, b') \<Longrightarrow> b' = b"
  by (auto simp: broker_Submit_def Let_def split: option.splits if_splits)

lemma broker_Claim_grantE:
  assumes "broker_Claim now w b = (reply, b')" and "cl_Job reply = Some job"
  obtains popped q where "queue_Pop (br_queue b) = (Some popped, q)" "job = start_job now w popped"
    "br_queue b' = q" "br_running b' = map_put (j_ID popped) job (br_running b)"
    "br_stats b' = br_stats b" "br_closed b' = br_closed b" "br_done b' = br_done b"
    "br_agent b' = br_agent b" "\<not> cl_Wait reply" "\<not> cl_Shutdown reply"
  using assms that
  by (auto simp: broker_Claim_def Let_def split: option.splits if_splits prod.splits)

lemma broker_Claim_idle:
  assumes "broker_Claim now w b = (reply, b')" and "cl_Job reply = None"
  shows "b' = b \<or> b' = broker_maybeDone b" and "queue_Len (br_queue b) = 0"
    and "cl_Shutdown reply \<longleftrightarrow> br_closed b \<and> br_running b = []" and "cl_Wait reply \<longleftrightarrow> \<not> cl_Shutdown reply"
  using assms queue_Pop_nonempty [of "br_queue b"]
  by (auto simp: broker_Claim_def Let_def split: option.splits if_splits prod.splits)

lemma broker_Report_successE:
  assumes "broker_Report_begin now args b = (Inr None, b')"
  obtains job where "map_of (br_running b) (ra_JobID args) = Some job"
    "br_queue b' = br_queue b" "br_running b' = map_del (ra_JobID args) (br_running b)"
    "br_stats b' = (br_stats b)\<lparr>st_Succeeded := Suc (st_Succeeded (br_stats b))\<rparr>"
    "br_closed b' = br_closed b" "br_agent b' = br_agent b"
    "br_done b' \<longleftrightarrow> br_done b \<or> (br_closed b' \<and> queue_Len (br_queue b') = 0 \<and> br_running b' = [] \<and>
        settled (br_stats b') = st_Submitted (br_stats b'))"
  using assms that
  by (auto simp: broker_Report_begin_def Let_def broker_maybeDone_done split: option.splits if_splits)

lemma broker_Report_failureE:
  assumes "broker_Report_begin now args b = (Inr (Some job), b')"
  obtains "map_of (br_running b) (ra_JobID args) = Some job"
    "br_queue b' = br_queue b" "br_running b' = map_del (ra_JobID args) (br_running b)"
    "br_stats b' = br_stats b" "br_closed b' = br_closed b" "br_agent b' = br_agent b"
    "br_done b' = br_done b"
  using assms that
  by (auto simp: broker_Report_begin_def Let_def split: option.splits if_splits)

lemma broker_Report_unknown: "broker_Report_begin now args b = (Inl e, b') \<Longrightarrow> b' = b"
  by (auto simp: broker_Report_begin_def Let_def split: option.splits if_splits)

text \<open>The job as the decision leaves it.\<close>

definition requeued_job :: "decision \<Rightarrow> job \<Rightarrow> job" where
  "requeued_job d job =
     (if d_Action d = AutoAdjust
      then job\<lparr>j_State := Pending, j_InjectFailure := [],
               j_Inference := (j_Inference job)\<lparr>b_BatchSize := d_BatchSize d, b_Precision := d_Precision d\<rparr>\<rparr>
      else job\<lparr>j_State := Pending, j_InjectFailure := []\<rparr>)"

lemma requeued_job_simps [simp]:
  "j_ID (requeued_job d job) = j_ID job" "j_Attempt (requeued_job d job) = j_Attempt job"
  "j_MaxAttempts (requeued_job d job) = j_MaxAttempts job" "j_State (requeued_job d job) = Pending"
  "j_Priority (requeued_job d job) = j_Priority job" "j_SubmitTime (requeued_job d job) = j_SubmitTime job"
  by (simp_all add: requeued_job_def)

lemma broker_recordLifecycle_simps [simp]:
  "br_queue (broker_recordLifecycle now j t r b) = br_queue b"
  "br_running (broker_recordLifecycle now j t r b) = br_running b"
  "br_stats (broker_recordLifecycle now j t r b) = br_stats b"
  "br_closed (broker_recordLifecycle now j t r b) = br_closed b"
  "br_done (broker_recordLifecycle now j t r b) = br_done b"
  "br_agent (broker_recordLifecycle now j t r b) = br_agent b"
  by (simp_all add: broker_recordLifecycle_def)

lemma broker_apply_decision_frame [simp]:
  "br_running (broker_apply_decision now job d b) = br_running b"
  "br_closed (broker_apply_decision now job d b) = br_closed b"
  "br_agent (broker_apply_decision now job d b) = br_agent b"
  "br_done (broker_apply_decision now job d b) = br_done b"
  by (simp_all add: broker_apply_decision_def Let_def)

lemma broker_Report_finish_frame [simp]:
  "br_running (broker_Report_finish now args job d b) = br_running b"
  "br_closed (broker_Report_finish now args job d b) = br_closed b"
  "br_agent (broker_Report_finish now args job d b) = br_agent b"
  by (simp_all add: broker_Report_finish_def Let_def)

lemma broker_Report_finish_requeue:
  assumes "valid_decision d" and "d_Action d \<noteq> Escalate"
  shows "br_queue (broker_Report_finish now args job d b) = queue_Push (requeued_job d job) (br_queue b)"
    and "settled (br_stats (broker_Report_finish now args job d b)) = settled (br_stats b)"
    and "st_Submitted (br_stats (broker_Report_finish now args job d b)) = st_Submitted (br_stats b)"
  using assms
  by (cases rule: valid_decision_cases;
      simp add: broker_Report_finish_def broker_apply_decision_def Let_def requeued_job_def settled_def
        stat_retried_def stat_adjusted_def)+

lemma broker_Report_finish_escalate:
  assumes "d_Action d = Escalate"
  shows "br_queue (broker_Report_finish now args job d b) = br_queue b"
    and "settled (br_stats (broker_Report_finish now args job d b)) = Suc (settled (br_stats b))"
    and "st_Submitted (br_stats (broker_Report_finish now args job d b)) = st_Submitted (br_stats b)"
  using assms
  by (simp_all add: broker_Report_finish_def broker_apply_decision_def Let_def settled_def stat_escalated_def)

lemma broker_Report_finish_done:
  "br_done (broker_Report_finish now args job d b) \<longleftrightarrow> br_done b \<or>
     (br_closed b \<and> queue_Len (br_queue (broker_Report_finish now args job d b)) = 0 \<and> br_running b = [] \<and>
      settled (br_stats (broker_Report_finish now args job d b)) =
        st_Submitted (br_stats (broker_Report_finish now args job d b)))"
  by (simp add: broker_Report_finish_def Let_def broker_maybeDone_done)

section \<open>The invariant\<close>

text \<open>A queued job has an attempt left; an assigned one has used at least one and at most its budget.\<close>

definition queued_ok :: "job \<Rightarrow> bool" where
  "queued_ok j \<longleftrightarrow> j_State j = Pending \<and> 0 \<le> j_Attempt j \<and> j_Attempt j < j_MaxAttempts j"

definition started_ok :: "job \<Rightarrow> bool" where
  "started_ok j \<longleftrightarrow> j_State j = Running \<and> 1 \<le> j_Attempt j \<and> j_Attempt j \<le> j_MaxAttempts j"

definition running_keys :: "(string \<times> job) list \<Rightarrow> bool" where
  "running_keys m \<longleftrightarrow> distinct_keys m \<and> (\<forall>(k, j) \<in> set m. j_ID j = k)"

definition jobs_inv :: "broker_sys \<Rightarrow> bool" where
  "jobs_inv s \<longleftrightarrow> queue_inv (br_queue (bs_broker s)) \<and> running_keys (br_running (bs_broker s)) \<and>
     (\<forall>j \<in># queue_bag (br_queue (bs_broker s)). queued_ok j) \<and>
     (\<forall>j \<in># map_vals (br_running (bs_broker s)) + triaging_jobs s. started_ok j) \<and>
     (\<forall>i. count (live_ids s) i \<le> 1)"

definition counts_inv :: "broker_sys \<Rightarrow> bool" where
  "counts_inv s \<longleftrightarrow>
     st_Submitted (br_stats (bs_broker s)) = settled (br_stats (bs_broker s)) + size (live_jobs s)"

definition done_inv :: "broker_sys \<Rightarrow> bool" where
  "done_inv s \<longleftrightarrow> (br_done (bs_broker s) \<longleftrightarrow> br_closed (bs_broker s) \<and> live_jobs s = {#})"

definition broker_inv :: "broker_sys \<Rightarrow> bool" where
  "broker_inv s \<longleftrightarrow> jobs_inv s \<and> counts_inv s \<and> done_inv s"

lemmas broker_inv_defs = broker_inv_def jobs_inv_def counts_inv_def done_inv_def

lemma live_jobs_simps [simp]:
  "size (live_jobs s) = queue_Len (br_queue (bs_broker s)) + length (br_running (bs_broker s)) +
     length (bs_triaging s)"
  by (simp add: live_jobs_def triaging_jobs_def queue_Len_bag)

lemma live_jobs_empty:
  "live_jobs s = {#} \<longleftrightarrow> queue_Len (br_queue (bs_broker s)) = 0 \<and> br_running (bs_broker s) = [] \<and> bs_triaging s = []"
  using live_jobs_simps [of s] by (metis add_eq_0_iff_both_eq_0 length_0_conv size_eq_0_iff_empty)

text \<open>The three counting conditions of \<open>maybeDone\<close> hold together exactly when nothing is live.\<close>

lemma counts_inv_settled:
  "counts_inv s \<Longrightarrow>
     (queue_Len (br_queue (bs_broker s)) = 0 \<and> br_running (bs_broker s) = [] \<and>
      settled (br_stats (bs_broker s)) = st_Submitted (br_stats (bs_broker s))) \<longleftrightarrow> live_jobs s = {#}"
  by (auto simp: counts_inv_def live_jobs_empty)

lemma count_le_1_add:
  "(\<forall>i. count M i \<le> 1) \<Longrightarrow> x \<notin># M \<Longrightarrow> \<forall>i. count (add_mset x M) i \<le> 1"
  by (auto simp: not_in_iff)

lemma count_le_1_subset: "M \<subseteq># N \<Longrightarrow> \<forall>i. count N i \<le> 1 \<Longrightarrow> \<forall>i. count M i \<le> (1::nat)"
  by (meson le_trans mset_subset_eq_count)

lemma broker_inv_init: "broker_inv (init_sys agent rec)"
  by (simp add: broker_inv_defs init_sys_def NewBroker_def live_ids_def live_jobs_def triaging_jobs_def
      queue_bag_def queue_Len_def ph_Len_def settled_def running_keys_def queue_inv_New [simplified])

text \<open>
  A step is described by what it does to the three groups of live jobs; \<open>jobs_inv_step\<close> is the
  one place where the invariant on them is re-established.
\<close>

lemma running_entry:
  assumes "running_keys m" and "map_of m k = Some j"
  shows "j_ID j = k" and "map_vals m = add_mset j (map_vals (map_del k m))" and "running_keys (map_del k m)"
proof -
  show "j_ID j = k" using assms by (auto simp: running_keys_def dest!: map_of_SomeD)
  show "map_vals m = add_mset j (map_vals (map_del k m))"
    using assms by (intro map_vals_del) (simp_all add: running_keys_def)
  show "running_keys (map_del k m)"
    using assms by (auto simp: running_keys_def distinct_delete dest: set_map_del)
qed

lemma running_lookup: "running_keys m \<Longrightarrow> map_of m k = Some j \<Longrightarrow> k \<in> j_ID ` snd ` set m"
  by (force simp: running_keys_def dest!: map_of_SomeD)

lemma running_put:
  assumes "running_keys m" and "j_ID j \<notin># image_mset j_ID (map_vals m)"
  shows "map_vals (map_put (j_ID j) j m) = add_mset j (map_vals m)" and "running_keys (map_put (j_ID j) j m)"
proof -
  have "k \<in> j_ID ` snd ` set m" if "(k, j') \<in> set m" for k j'
    using that assms(1) by (force simp: running_keys_def)
  then have "fst ` set m \<subseteq> j_ID ` snd ` set m" by auto
  moreover have "j_ID j \<notin> j_ID ` snd ` set m" using assms(2) by simp
  ultimately have fresh: "map_of m (j_ID j) = None" by (auto simp: map_of_eq_None_iff)
  then show "map_vals (map_put (j_ID j) j m) = add_mset j (map_vals m)" by (rule map_vals_put_fresh)
  show "running_keys (map_put (j_ID j) j m)"
    using assms(1) fresh by (auto simp: running_keys_def map_put_fresh map_of_eq_None_iff)
qed

lemma jobs_invD:
  assumes "jobs_inv s"
  shows "queue_inv (br_queue (bs_broker s))" and "running_keys (br_running (bs_broker s))"
    and "\<forall>j \<in># queue_bag (br_queue (bs_broker s)). queued_ok j"
    and "\<forall>j \<in># map_vals (br_running (bs_broker s)). started_ok j"
    and "\<forall>j \<in># triaging_jobs s. started_ok j" and "\<forall>i. count (live_ids s) i \<le> 1"
  using assms by (auto simp: jobs_inv_def)

lemma triaging_update [simp]:
  "triaging_jobs (s\<lparr>bs_broker := b\<rparr>) = triaging_jobs s"
  "triaging_jobs (s\<lparr>bs_broker := b, bs_triaging := ts\<rparr>) = mset (map snd ts)"
  by (simp_all add: triaging_jobs_def)

lemma submit_inv:
  assumes inv: "broker_inv s" and sub: "broker_Submit now job (bs_broker s) = (None, b)"
    and new: "j_ID job \<notin># live_ids s" "j_Attempt job = 0"
  shows "broker_inv (s\<lparr>bs_broker := b\<rparr>)"
proof -
  let ?s = "s\<lparr>bs_broker := b\<rparr>" and ?j = "unindexed (prepare_job now job)"
  have J: "jobs_inv s" and C: "counts_inv s" and D: "done_inv s" using inv by (simp_all add: broker_inv_def)
  note q = jobs_invD(1) [OF J]
  from sub show ?thesis
  proof (rule broker_SubmitE)
    assume b: "valid_batch (j_Inference job)" "\<not> br_closed (bs_broker s)"
      "br_queue b = queue_Push (prepare_job now job) (br_queue (bs_broker s))"
      "br_running b = br_running (bs_broker s)"
      "br_stats b = (br_stats (bs_broker s))\<lparr>st_Submitted := Suc (st_Submitted (br_stats (bs_broker s)))\<rparr>"
      "br_closed b = br_closed (bs_broker s)" "br_done b = br_done (bs_broker s)"
      "br_agent b = br_agent (bs_broker s)"
    have bag: "queue_bag (br_queue b) = add_mset ?j (queue_bag (br_queue (bs_broker s)))"
      using queue_bag_Push [OF q] b(3) by simp
    have live: "live_jobs ?s = add_mset ?j (live_jobs s)" by (simp add: live_jobs_def bag b(4))
    then have "\<forall>i. count (live_ids ?s) i \<le> 1"
      using count_le_1_add [OF jobs_invD(6) [OF J] new(1)] by (simp add: live_ids_def)
    moreover have "queued_ok ?j"
      using new(2) by (simp add: queued_ok_def)
    ultimately have "jobs_inv ?s"
      using J bag b(3,4) queue_inv_Push [OF q] by (simp add: jobs_inv_def)
    moreover have "counts_inv ?s"
      using C live by (simp add: counts_inv_def b(5) settled_def del: live_jobs_simps)
    moreover have "done_inv ?s" using D b(2,6,7) by (simp add: done_inv_def)
    ultimately show ?thesis by (simp add: broker_inv_def)
  qed
qed

lemma maybeDone_inv:
  assumes "jobs_inv s" and "counts_inv s" and "br_done (bs_broker s) \<longrightarrow> br_closed (bs_broker s) \<and> live_jobs s = {#}"
  shows "broker_inv (s\<lparr>bs_broker := broker_maybeDone (bs_broker s)\<rparr>)"
proof -
  let ?s = "s\<lparr>bs_broker := broker_maybeDone (bs_broker s)\<rparr>"
  have live: "live_jobs ?s = live_jobs s" by (simp add: live_jobs_def)
  then have ids: "live_ids ?s = live_ids s" by (simp add: live_ids_def)
  have "jobs_inv ?s" using assms(1) ids by (simp add: jobs_inv_def)
  moreover have "counts_inv ?s" using assms(2) live by (simp add: counts_inv_def del: live_jobs_simps)
  moreover have "done_inv ?s"
    using assms(3) live counts_inv_settled [OF assms(2)]
    by (auto simp: done_inv_def broker_maybeDone_done)
  ultimately show ?thesis by (simp add: broker_inv_def)
qed

lemma close_inv:
  assumes "broker_inv s"
  shows "broker_inv (s\<lparr>bs_broker := broker_CloseSubmissions (bs_broker s)\<rparr>)"
proof -
  let ?b = "(bs_broker s)\<lparr>br_closed := True\<rparr>"
  have live: "live_jobs (s\<lparr>bs_broker := ?b\<rparr>) = live_jobs s" by (simp add: live_jobs_def)
  then have ids: "live_ids (s\<lparr>bs_broker := ?b\<rparr>) = live_ids s" by (simp add: live_ids_def)
  have "broker_inv ((s\<lparr>bs_broker := ?b\<rparr>)\<lparr>bs_broker := broker_maybeDone (bs_broker (s\<lparr>bs_broker := ?b\<rparr>))\<rparr>)"
  proof (rule maybeDone_inv)
    show "jobs_inv (s\<lparr>bs_broker := ?b\<rparr>)"
      using assms ids by (simp add: broker_inv_def jobs_inv_def)
    show "counts_inv (s\<lparr>bs_broker := ?b\<rparr>)"
      using assms live by (simp add: broker_inv_def counts_inv_def del: live_jobs_simps)
    show "br_done (bs_broker (s\<lparr>bs_broker := ?b\<rparr>)) \<longrightarrow>
        br_closed (bs_broker (s\<lparr>bs_broker := ?b\<rparr>)) \<and> live_jobs (s\<lparr>bs_broker := ?b\<rparr>) = {#}"
      using assms live by (simp add: broker_inv_def done_inv_def)
  qed
  then show ?thesis by (simp add: broker_CloseSubmissions_def)
qed

lemma grant_running:
  assumes J: "jobs_inv s" and pop: "queue_Pop (br_queue (bs_broker s)) = (Some popped, q)"
    and job_def: "job = start_job now w popped"
  shows "j_ID job \<notin># image_mset j_ID (map_vals (br_running (bs_broker s)) + triaging_jobs s)"
    and "map_vals (map_put (j_ID popped) job (br_running (bs_broker s))) =
           add_mset job (map_vals (br_running (bs_broker s)))"
    and "running_keys (map_put (j_ID popped) job (br_running (bs_broker s)))"
    and "started_ok job"
proof -
  let ?rest = "image_mset j_ID (map_vals (br_running (bs_broker s)) + triaging_jobs s)"
  note p = queue_Pop_Some [OF jobs_invD(1) [OF J] pop]
  have id: "j_ID popped = j_ID job" by (simp add: job_def)
  have "live_ids s = add_mset (j_ID job) (image_mset j_ID (queue_bag q)) + ?rest"
    by (simp add: live_ids_def live_jobs_def p(2) id)
  then have "count (live_ids s) (j_ID job) \<ge> Suc (count ?rest (j_ID job))" by simp
  with jobs_invD(6) [OF J] have "Suc (count ?rest (j_ID job)) \<le> 1" by (meson le_trans)
  then have "count ?rest (j_ID job) = 0" by linarith
  then show new: "j_ID job \<notin># ?rest" by (rule iffD1 [OF count_eq_zero_iff])
  then have "j_ID job \<notin># image_mset j_ID (map_vals (br_running (bs_broker s)))" by simp
  note put = running_put [OF jobs_invD(2) [OF J] this]
  show "map_vals (map_put (j_ID popped) job (br_running (bs_broker s))) =
      add_mset job (map_vals (br_running (bs_broker s)))"
    and "running_keys (map_put (j_ID popped) job (br_running (bs_broker s)))"
    using put by (simp_all add: id)
  have "queued_ok popped" using jobs_invD(3) [OF J] p(2) by simp
  then show "started_ok job" by (simp add: job_def started_ok_def queued_ok_def)
qed

lemma grant_inv:
  assumes inv: "broker_inv s" and cl: "broker_Claim now w (bs_broker s) = (reply, b)" "cl_Job reply = Some job"
  shows "broker_inv (s\<lparr>bs_broker := b\<rparr>)"
proof -
  let ?s = "s\<lparr>bs_broker := b\<rparr>"
  have J: "jobs_inv s" and C: "counts_inv s" and D: "done_inv s" using inv by (simp_all add: broker_inv_def)
  obtain popped q where pop: "queue_Pop (br_queue (bs_broker s)) = (Some popped, q)"
    and job: "job = start_job now w popped" and b: "br_queue b = q"
      "br_running b = map_put (j_ID popped) job (br_running (bs_broker s))"
      "br_stats b = br_stats (bs_broker s)" "br_closed b = br_closed (bs_broker s)"
      "br_done b = br_done (bs_broker s)"
    using broker_Claim_grantE [OF cl] by metis
  note p = queue_Pop_Some [OF jobs_invD(1) [OF J] pop] and g = grant_running [OF J pop job]
  have vals: "map_vals (br_running b) = add_mset job (map_vals (br_running (bs_broker s)))"
    using g(2) by (simp add: b(2))
  have id: "j_ID popped = j_ID job" by (simp add: job)
  have live: "live_ids ?s = live_ids s" and sz: "size (live_jobs ?s) = size (live_jobs s)"
    by (simp_all add: live_ids_def live_jobs_def b(1) vals p(2) id del: live_jobs_simps)
  have "jobs_inv ?s"
    using J p(1,2) g(3,4) live vals by (simp add: jobs_inv_def b(1)) (simp add: b(2))
  moreover have "counts_inv ?s" using C sz by (simp add: counts_inv_def b(3) del: live_jobs_simps)
  moreover have "live_jobs ?s \<noteq> {#}" "live_jobs s \<noteq> {#}" by (simp_all add: live_jobs_def vals p(2))
  then have "done_inv ?s" using D by (simp add: done_inv_def b(4,5))
  ultimately show ?thesis by (simp add: broker_inv_def)
qed

lemma idle_inv:
  assumes inv: "broker_inv s" and cl: "broker_Claim now w (bs_broker s) = (reply, b)" "cl_Job reply = None"
  shows "broker_inv (s\<lparr>bs_broker := b\<rparr>)"
  using broker_Claim_idle(1) [OF cl] inv
  by (auto simp: broker_inv_def [of s] done_inv_def intro: maybeDone_inv)

text \<open>A report takes the job out of the running map.\<close>

lemma report_takes:
  assumes J: "jobs_inv s" and k: "map_of (br_running (bs_broker s)) k = Some job"
  shows "map_vals (br_running (bs_broker s)) = add_mset job (map_vals (map_del k (br_running (bs_broker s))))"
    and "running_keys (map_del k (br_running (bs_broker s)))" and "started_ok job"
  using running_entry [OF jobs_invD(2) [OF J] k] jobs_invD(4) [OF J] by simp_all

lemma success_inv:
  assumes inv: "broker_inv s" and rep: "broker_Report_begin now args (bs_broker s) = (Inr None, b)"
  shows "broker_inv (s\<lparr>bs_broker := b\<rparr>)"
proof -
  let ?s = "s\<lparr>bs_broker := b\<rparr>"
  have J: "jobs_inv s" and C: "counts_inv s" and D: "done_inv s" using inv by (simp_all add: broker_inv_def)
  obtain job where k: "map_of (br_running (bs_broker s)) (ra_JobID args) = Some job"
    and b: "br_queue b = br_queue (bs_broker s)"
      "br_running b = map_del (ra_JobID args) (br_running (bs_broker s))"
      "br_stats b = (br_stats (bs_broker s))\<lparr>st_Succeeded := Suc (st_Succeeded (br_stats (bs_broker s)))\<rparr>"
      "br_closed b = br_closed (bs_broker s)"
      "br_done b \<longleftrightarrow> br_done (bs_broker s) \<or> (br_closed b \<and> queue_Len (br_queue b) = 0 \<and>
         br_running b = [] \<and> settled (br_stats b) = st_Submitted (br_stats b))"
    by (rule broker_Report_successE [OF rep])
  note t = report_takes [OF J k]
  have live: "live_jobs s = add_mset job (live_jobs ?s)" by (simp add: live_jobs_def b(1,2) t(1))
  then have "live_ids ?s \<subseteq># live_ids s" by (simp add: live_ids_def)
  then have "\<forall>i. count (live_ids ?s) i \<le> 1" using jobs_invD(6) [OF J] by (rule count_le_1_subset)
  then have "jobs_inv ?s" using J t by (simp add: jobs_inv_def b(1,2))
  moreover have C': "counts_inv ?s"
    using C live by (simp add: counts_inv_def b(3) settled_def del: live_jobs_simps)
  moreover have "\<not> br_done (bs_broker s)" using D live by (simp add: done_inv_def)
  then have "done_inv ?s" using counts_inv_settled [OF C'] by (auto simp: done_inv_def b(5))
  ultimately show ?thesis by (simp add: broker_inv_def)
qed

lemma failure_inv:
  assumes inv: "broker_inv s" and rep: "broker_Report_begin now args (bs_broker s) = (Inr (Some job), b)"
  shows "broker_inv (s\<lparr>bs_broker := b, bs_triaging := bs_triaging s @ [(args, job)]\<rparr>)" (is "broker_inv ?s")
proof -
  have J: "jobs_inv s" and C: "counts_inv s" and D: "done_inv s" using inv by (simp_all add: broker_inv_def)
  have k: "map_of (br_running (bs_broker s)) (ra_JobID args) = Some job"
    and b: "br_queue b = br_queue (bs_broker s)"
      "br_running b = map_del (ra_JobID args) (br_running (bs_broker s))"
      "br_stats b = br_stats (bs_broker s)" "br_closed b = br_closed (bs_broker s)"
      "br_done b = br_done (bs_broker s)"
    by (rule broker_Report_failureE [OF rep]; simp)+
  note t = report_takes [OF J k]
  have live: "live_jobs ?s = live_jobs s" by (simp add: live_jobs_def b(1,2) t(1) triaging_jobs_def)
  then have ids: "live_ids ?s = live_ids s" by (simp add: live_ids_def)
  have "jobs_inv ?s" using J t ids by (simp add: jobs_inv_def b(1,2)) (simp add: triaging_jobs_def)
  moreover have "counts_inv ?s" using C live by (simp add: counts_inv_def b(3) del: live_jobs_simps)
  moreover have "done_inv ?s" using D live by (simp add: done_inv_def b(4,5))
  ultimately show ?thesis by (simp add: broker_inv_def)
qed

lemma failure_of_simps [simp]:
  "f_Attempt (failure_of args job) = j_Attempt job" "f_MaxAttempts (failure_of args job) = j_MaxAttempts job"
  "f_Batch (failure_of args job) = j_Inference job" "f_JobID (failure_of args job) = j_ID job"
  "f_Error (failure_of args job) = ra_Error args"
  by (simp_all add: failure_of_def)

text \<open>A decision other than escalation leaves the job with an attempt in hand.\<close>

lemma requeued_ok:
  assumes "started_ok job" and "d = coordinator_decision agent (failure_of args job)" and "d_Action d \<noteq> Escalate"
  shows "queued_ok (requeued_job d job)"
  using assms coordinator_decision_budget [of "failure_of args job" agent]
  by (auto simp: queued_ok_def started_ok_def within_budget_def)

lemma decide_inv:
  assumes inv: "broker_inv s" and ts: "bs_triaging s = xs @ (args, job) # ys"
    and d: "d = coordinator_decision (br_agent (bs_broker s)) (failure_of args job)"
  shows "broker_inv (s\<lparr>bs_broker := broker_Report_finish now args job d (bs_broker s), bs_triaging := xs @ ys\<rparr>)"
    (is "broker_inv ?s")
proof -
  let ?b = "broker_Report_finish now args job d (bs_broker s)"
  have J: "jobs_inv s" and C: "counts_inv s" and D: "done_inv s" using inv by (simp_all add: broker_inv_def)
  have t: "triaging_jobs s = add_mset job (triaging_jobs ?s)" by (simp add: triaging_jobs_def ts)
  then have st: "started_ok job" using jobs_invD(5) [OF J] by simp
  have nd: "\<not> br_done (bs_broker s)" using D by (simp add: done_inv_def live_jobs_def t)
  have v: "valid_decision d" by (simp add: d coordinator_decision_valid)
  have JC: "jobs_inv ?s \<and> counts_inv ?s"
  proof (cases "d_Action d = Escalate")
    case True
    note f = broker_Report_finish_escalate [OF True, of now args job "bs_broker s"]
    have live: "live_jobs s = add_mset job (live_jobs ?s)" by (simp add: live_jobs_def f(1) t)
    then have "live_ids ?s \<subseteq># live_ids s" by (simp add: live_ids_def)
    then have "\<forall>i. count (live_ids ?s) i \<le> 1" using jobs_invD(6) [OF J] by (rule count_le_1_subset)
    then have "jobs_inv ?s" using J t by (simp add: jobs_inv_def f(1))
    moreover have "counts_inv ?s" using C live by (simp add: counts_inv_def f(2,3) del: live_jobs_simps)
    ultimately show ?thesis ..
  next
    case False
    note f = broker_Report_finish_requeue [OF v False, of now args job "bs_broker s"]
    have q: "queue_inv (br_queue (bs_broker s))" using J by (rule jobs_invD)
    have bag: "queue_bag (br_queue ?b) =
        add_mset (unindexed (requeued_job d job)) (queue_bag (br_queue (bs_broker s)))"
      using queue_bag_Push [OF q] by (simp add: f(1))
    have ids: "live_ids ?s = live_ids s" and sz: "size (live_jobs ?s) = size (live_jobs s)"
      by (simp_all add: live_ids_def live_jobs_def bag t del: live_jobs_simps)
    have "queued_ok (unindexed (requeued_job d job))"
      using requeued_ok [OF st d False] by (simp add: queued_ok_def)
    then have "jobs_inv ?s"
      using J t ids bag queue_inv_Push [OF q] by (simp add: jobs_inv_def f(1))
    moreover have "counts_inv ?s" using C sz by (simp add: counts_inv_def f(2,3) del: live_jobs_simps)
    ultimately show ?thesis ..
  qed
  moreover have "done_inv ?s"
    using nd counts_inv_settled [of ?s] JC by (auto simp: done_inv_def broker_Report_finish_done)
  ultimately show ?thesis by (simp add: broker_inv_def)
qed

lemma broker_step_inv: "broker_step s l t \<Longrightarrow> broker_inv s \<Longrightarrow> broker_inv t"
proof (induction rule: broker_step.induct)
  case (submit_rejected now job s e b)
  then show ?case using broker_Submit_rejected by fastforce
next
  case (unknown now args s e b)
  then show ?case using broker_Report_unknown by fastforce
qed (blast intro: submit_inv close_inv grant_inv idle_inv success_inv failure_inv decide_inv)+

lemma broker_reachable_inv: "broker_reachable agent rec s \<Longrightarrow> broker_inv s"
  by (induction rule: broker_reachable.induct) (auto intro: broker_inv_init broker_step_inv)

end
