(* ===== verification/GoRuntime.thy ===== *)
theory GoRuntime
  imports Prelude
begin

text \<open>
  What the runtime decides for the program: the order in which \<open>range\<close> visits a map, and the
  numbers \<^verbatim>\<open>math/rand\<close> draws. Both are read from a stream that is an input of the model, by
  functions under which every outcome the runtime allows is the outcome of some stream, and no
  other is. Then the lemmas on numerals and separators behind the round trips.
\<close>

section \<open>Iteration order of maps\<close>

definition insert_at :: "nat \<Rightarrow> 'a \<Rightarrow> 'a list \<Rightarrow> 'a list" where
  "insert_at i x xs = take i xs @ x # drop i xs"

fun map_order :: "(nat \<Rightarrow> nat) \<Rightarrow> 'a list \<Rightarrow> 'a list" where
  "map_order f [] = []"
| "map_order f (x # xs) = insert_at (f (length xs) mod Suc (length xs)) x (map_order f xs)"

lemma mset_insert_at [simp]: "mset (insert_at i x xs) = add_mset x (mset xs)"
  unfolding insert_at_def by (metis append_take_drop_id mset.simps(2) mset_append union_mset_add_mset_right)

lemma mset_map_order [simp]: "mset (map_order f xs) = mset xs"
  by (induction xs) simp_all

lemma set_map_order [simp]: "set (map_order f xs) = set xs"
  using mset_map_order by (rule mset_eq_setD)

lemma map_order_cong: "(\<And>k. k < length xs \<Longrightarrow> f k = g k) \<Longrightarrow> map_order f xs = map_order g xs"
  by (induction xs) simp_all

lemma map_order_surj: "mset ys = mset xs \<Longrightarrow> \<exists>f. map_order f xs = ys"
proof (induction xs arbitrary: ys)
  case Nil
  then show ?case by simp
next
  case (Cons x xs)
  then have "x \<in> set ys" by (metis list.set_intros(1) mset_eq_setD)
  then obtain a b where ys: "ys = a @ x # b" by (meson split_list)
  with Cons.prems have "mset (a @ b) = mset xs" by simp
  then obtain f where f: "map_order f xs = a @ b" using Cons.IH by blast
  have "length xs = length (a @ b)" using \<open>mset (a @ b) = mset xs\<close> by (metis size_mset)
  moreover have "map_order (f(length xs := length a)) xs = a @ b"
    using f map_order_cong [of xs "f(length xs := length a)" f] by simp
  ultimately have "map_order (f(length xs := length a)) (x # xs) = ys"
    by (simp add: insert_at_def ys)
  then show ?case by blast
qed

section \<open>Sorting\<close>

text \<open>
  \<open>sort.SliceStable\<close> is HOL's \<^const>\<open>sort_key\<close>; \<open>sort.Slice\<close> leaves the order of equal elements to
  the runtime: some stream decides in which order they meet the stable sort.
\<close>

definition sort_slice :: "(nat \<Rightarrow> nat) \<Rightarrow> ('a \<Rightarrow> 'k::linorder) \<Rightarrow> 'a list \<Rightarrow> 'a list" where
  "sort_slice f key xs = sort_key key (map_order f xs)"

lemma sort_slice_outcomes: "(\<exists>f. sort_slice f key xs = ys) \<longleftrightarrow> mset ys = mset xs \<and> sorted (map key ys)"
proof
  assume "\<exists>f. sort_slice f key xs = ys"
  then show "mset ys = mset xs \<and> sorted (map key ys)" by (auto simp: sort_slice_def)
next
  assume "mset ys = mset xs \<and> sorted (map key ys)"
  moreover from this obtain f where "map_order f xs = ys" using map_order_surj by blast
  ultimately have "sort_slice f key xs = ys" by (simp add: sort_slice_def sort_key_id_if_sorted)
  then show "\<exists>f. sort_slice f key xs = ys" by blast
qed

section \<open>Random numbers\<close>

record rng =
  rg_raw :: "nat \<Rightarrow> int"
  rg_pos :: nat

text \<open>\<open>Intn(n)\<close> for \<open>0 < n\<close>: some value from 0 to \<open>n - 1\<close>.\<close>

definition rng_Intn :: "int \<Rightarrow> rng \<Rightarrow> int \<times> rng" where
  "rng_Intn n g = (rg_raw g (rg_pos g) mod n, g\<lparr>rg_pos := Suc (rg_pos g)\<rparr>)"

lemma rng_Intn_range: "0 < n \<Longrightarrow> rng_Intn n g = (v, g') \<Longrightarrow> 0 \<le> v \<and> v < n"
  by (auto simp: rng_Intn_def)

text \<open>\<open>Float64\<close>: some multiple of \<open>2 ^ - 53\<close> from 0 up to but not including 1.\<close>

definition rng_Float64 :: "rng \<Rightarrow> rat \<times> rng" where
  "rng_Float64 g = (of_int (rg_raw g (rg_pos g) mod 2 ^ 53) / 2 ^ 53, g\<lparr>rg_pos := Suc (rg_pos g)\<rparr>)"

section \<open>Numerals\<close>

lemma of_char_digit: "d < 10 \<Longrightarrow> (of_char (digit_char d) :: nat) = 48 + d"
  by (simp add: digit_char_def)

lemma is_digit_digit_char: "d < 10 \<Longrightarrow> is_digit (digit_char d)"
  by (simp add: is_digit_def of_char_digit)

lemma nat_digits_digits: "list_all is_digit (nat_digits n)"
proof (induction n rule: nat_digits.induct)
  case (1 n)
  then show ?case by (subst nat_digits.simps) (simp add: is_digit_digit_char)
qed

lemma nat_digits_nonempty: "nat_digits n \<noteq> []"
  by (subst nat_digits.simps) simp

lemma digits_value_append: "digits_value acc (xs @ ys) = digits_value (digits_value acc xs) ys"
  by (induction xs arbitrary: acc) simp_all

lemma digits_value_nat_digits: "digits_value 0 (nat_digits n) = n"
proof (induction n rule: nat_digits.induct)
  case (1 n)
  then show ?case
    by (subst nat_digits.simps) (auto simp: digits_value_append of_char_digit)
qed

lemma nat_digits_no_sign: "\<exists>c r. nat_digits n = c # r \<and> c \<noteq> CHR ''-'' \<and> c \<noteq> CHR ''+''"
proof -
  obtain c r where "nat_digits n = c # r" using nat_digits_nonempty by (cases "nat_digits n") auto
  moreover from this have "is_digit c" using nat_digits_digits [of n] by simp
  ultimately show ?thesis by (auto simp: is_digit_def)
qed

lemma atoi_itoa: "int64_range i \<Longrightarrow> atoi (itoa i) = Some i"
proof -
  assume r: "int64_range i"
  have pos: "atoi_sign (nat_digits n) = (False, nat_digits n)" for n
    using nat_digits_no_sign [of n] by (auto simp: atoi_sign_def)
  show ?thesis
  proof (cases "i < 0")
    case True
    have "atoi_sign (itoa i) = (True, nat_digits (nat (- i)))" using True by (simp add: itoa_def atoi_sign_def)
    then show ?thesis using True r
      by (simp add: atoi_def nat_digits_digits nat_digits_nonempty digits_value_nat_digits)
  next
    case False
    have "atoi_sign (itoa i) = (False, nat_digits (nat i))" using False pos by (simp add: itoa_def)
    then show ?thesis using False r
      by (simp add: atoi_def nat_digits_digits nat_digits_nonempty digits_value_nat_digits)
  qed
qed

lemma set_itoa: "c \<in> set (itoa i) \<Longrightarrow> c = CHR ''-'' \<or> is_digit c"
  using nat_digits_digits [of "nat i"] nat_digits_digits [of "nat (- i)"]
  by (auto simp: itoa_def list_all_iff split: if_splits)

text \<open>\<open>%03d\<close> of a number that is not negative.\<close>

definition pad3 :: "nat \<Rightarrow> string" where
  "pad3 n = replicate (3 - length (nat_digits n)) (CHR ''0'') @ nat_digits n"

lemma digits_value_zeros: "digits_value 0 (replicate k (CHR ''0'') @ s) = digits_value 0 s"
  by (induction k) simp_all

lemma digits_value_pad3: "digits_value 0 (pad3 n) = n"
  by (simp add: pad3_def digits_value_zeros digits_value_nat_digits)

lemma pad3_inj: "pad3 m = pad3 n \<longleftrightarrow> m = n"
  by (metis digits_value_pad3)

text \<open>\<open>%02d\<close> of a number that is not negative.\<close>

definition pad2 :: "nat \<Rightarrow> string" where
  "pad2 n = replicate (2 - length (nat_digits n)) (CHR ''0'') @ nat_digits n"

lemma pad2_inj: "pad2 m = pad2 n \<longleftrightarrow> m = n"
  by (metis pad2_def digits_value_zeros digits_value_nat_digits)

section \<open>Separators\<close>

fun join_with :: "char \<Rightarrow> string list \<Rightarrow> string" where
  "join_with sep [] = []"
| "join_with sep [f] = f"
| "join_with sep (f # fs) = f @ sep # join_with sep fs"

lemma split_on_single: "sep \<notin> set f \<Longrightarrow> split_on sep f = [f]"
  by (induction f) auto

lemma split_on_cons: "sep \<notin> set f \<Longrightarrow> split_on sep (f @ sep # s) = f # split_on sep s"
  by (induction f) auto

lemma split_on_join:
  "fs \<noteq> [] \<Longrightarrow> \<forall>f \<in> set fs. sep \<notin> set f \<Longrightarrow> split_on sep (join_with sep fs) = fs"
  by (induction sep fs rule: join_with.induct) (simp_all add: split_on_single split_on_cons)

end
