(* ===== verification/SqsQueue.thy ===== *)
theory SqsQueue
  imports GoRuntime JobQueue
begin

text \<open>
  \<^verbatim>\<open>internal/sqsqueue/sqsqueue.go\<close>: the SQS-backed queue, one SQS queue per priority tier
  and a shared dead-letter queue. The SQS service and the JSON codec are not code of the
  repository: they are the record \<open>sqs_client\<close>, whose functions map a state of the service to
  an answer and the next state, and every function below takes one.
\<close>

section \<open>The service\<close>

text \<open>
  \<open>m_ReceiveCount\<close> is the attribute \<open>ApproximateReceiveCount\<close>, a numeral. The queue attributes
  the code sets are the visibility timeout in seconds and the redrive policy (the ARN of the
  dead-letter queue and the maximal receive count).
\<close>

record message =
  m_Body :: string
  m_MessageId :: string
  m_ReceiptHandle :: string
  m_ReceiveCount :: string

record queue_attributes =
  qa_VisibilityTimeout :: string
  qa_RedrivePolicy :: "string \<times> int"

record 'q sqs_client =
  sc_create :: "string \<Rightarrow> queue_attributes option \<Rightarrow> 'q \<Rightarrow> (string + string) \<times> 'q"
  sc_arn :: "string \<Rightarrow> 'q \<Rightarrow> (string + string) \<times> 'q"
  sc_url :: "string \<Rightarrow> 'q \<Rightarrow> (string + string) \<times> 'q"
  sc_drop :: "string \<Rightarrow> 'q \<Rightarrow> 'q"
  sc_send :: "string \<Rightarrow> string \<Rightarrow> 'q \<Rightarrow> string option \<times> 'q"
  sc_receive :: "string \<Rightarrow> nat \<Rightarrow> 'q \<Rightarrow> (string + message list) \<times> 'q"
  sc_delete :: "string \<Rightarrow> string \<Rightarrow> 'q \<Rightarrow> string option \<times> 'q"
  sc_visible :: "string \<Rightarrow> string \<Rightarrow> 'q \<Rightarrow> string option \<times> 'q"
  sc_marshal :: "job \<Rightarrow> string + string"
  sc_unmarshal :: "string \<Rightarrow> string + job"

section \<open>Configuration\<close>

definition MinTier :: int where "MinTier = 1"
definition MaxTier :: int where "MaxTier = 5"

record sqs_config =
  c_Endpoint :: string
  c_Region :: string
  c_Prefix :: string
  c_VisibilityTimeout :: duration
  c_MaxReceiveCount :: int

definition sqs_defaults :: "sqs_config \<Rightarrow> sqs_config" where
  "sqs_defaults c0 =
     (let c1 = (if c_Prefix c0 = [] then c0\<lparr>c_Prefix := ''sched''\<rparr> else c0);
          c2 = (if c_Region c1 = [] then c1\<lparr>c_Region := ''us-east-1''\<rparr> else c1);
          c3 = (if c_VisibilityTimeout c2 \<le> 0 then c2\<lparr>c_VisibilityTimeout := 30 * second\<rparr> else c2)
      in (if c_MaxReceiveCount c3 \<le> 0 then c3\<lparr>c_MaxReceiveCount := 3\<rparr> else c3))"

record queues =
  qs_cfg :: sqs_config
  qs_tierURL :: "(int \<times> string) list"
  qs_dlqURL :: string

record delivery =
  dl_Job :: job
  dl_Tier :: int
  dl_ReceiveCount :: int
  dl_MessageID :: string
  dl_queueURL :: string
  dl_receipt :: string

record dead_letter =
  dd_Job :: job
  dd_MessageID :: string
  dd_ReceiveCount :: int

definition TierQueueName :: "string \<Rightarrow> int \<Rightarrow> string" where
  "TierQueueName prefix tier = prefix @ ''-p'' @ itoa tier"

definition DLQName :: "string \<Rightarrow> string" where
  "DLQName prefix = prefix @ ''-dlq''"

definition Tier :: "int \<Rightarrow> int" where
  "Tier priority =
     (if priority < MinTier then MinTier else if priority > MaxTier then MaxTier else priority)"

text \<open>The tiers in the order of the loops \<open>MinTier\<close> to \<open>MaxTier\<close> and back.\<close>

definition tiers_up :: "int list" where
  "tiers_up = [MinTier..MaxTier]"

definition tiers_down :: "int list" where
  "tiers_down = rev [MinTier..MaxTier]"

text \<open>A missing key of \<open>tierURL\<close> is the empty string.\<close>

definition tier_url :: "queues \<Rightarrow> int \<Rightarrow> string" where
  "tier_url q tier = (case map_of (qs_tierURL q) tier of None \<Rightarrow> [] | Some u \<Rightarrow> u)"

section \<open>Creating and opening\<close>

text \<open>
  The errors, each with the error of the service. \<open>client\<close> is what \<open>newClient\<close>, which only
  calls the SDK, answers.
\<close>

datatype sqs_error =
    NoClient string | CreateDLQ string | GetArn string | CreateTier int string | OpenDLQ string | OpenTier int string

fun create_tiers ::
  "'q sqs_client \<Rightarrow> sqs_config \<Rightarrow> queue_attributes \<Rightarrow> int list \<Rightarrow> (int \<times> string) list \<Rightarrow> 'q \<Rightarrow>
   (sqs_error + (int \<times> string) list) \<times> 'q" where
  "create_tiers sc cfg attrs [] urls s = (Inr urls, s)"
| "create_tiers sc cfg attrs (tier # rest) urls s =
     (case sc_create sc (TierQueueName (c_Prefix cfg) tier) (Some attrs) s of
        (Inl e, s1) \<Rightarrow> (Inl (CreateTier tier e), s1)
      | (Inr u, s1) \<Rightarrow> create_tiers sc cfg attrs rest (map_put tier u urls) s1)"

definition queues_Create ::
  "string + 'q sqs_client \<Rightarrow> sqs_config \<Rightarrow> 'q \<Rightarrow> (sqs_error + queues) \<times> 'q" where
  "queues_Create client cfg0 s =
     (let cfg = sqs_defaults cfg0 in
      case client of Inl e \<Rightarrow> (Inl (NoClient e), s) | Inr sc \<Rightarrow>
      case sc_create sc (DLQName (c_Prefix cfg)) None s of
        (Inl e, s1) \<Rightarrow> (Inl (CreateDLQ e), s1)
      | (Inr dlq, s1) \<Rightarrow>
          (case sc_arn sc dlq s1 of
             (Inl e, s2) \<Rightarrow> (Inl (GetArn e), s2)
           | (Inr arn, s2) \<Rightarrow>
               (let attrs = \<lparr>qa_VisibilityTimeout = itoa (c_VisibilityTimeout cfg sdiv second),
                             qa_RedrivePolicy = (arn, c_MaxReceiveCount cfg)\<rparr>
                in case create_tiers sc cfg attrs tiers_up [] s2 of
                     (Inl e, s3) \<Rightarrow> (Inl e, s3)
                   | (Inr urls, s3) \<Rightarrow> (Inr \<lparr>qs_cfg = cfg, qs_tierURL = urls, qs_dlqURL = dlq\<rparr>, s3))))"

fun open_tiers ::
  "'q sqs_client \<Rightarrow> sqs_config \<Rightarrow> int list \<Rightarrow> (int \<times> string) list \<Rightarrow> 'q \<Rightarrow>
   (sqs_error + (int \<times> string) list) \<times> 'q" where
  "open_tiers sc cfg [] urls s = (Inr urls, s)"
| "open_tiers sc cfg (tier # rest) urls s =
     (case sc_url sc (TierQueueName (c_Prefix cfg) tier) s of
        (Inl e, s1) \<Rightarrow> (Inl (OpenTier tier e), s1)
      | (Inr u, s1) \<Rightarrow> open_tiers sc cfg rest (map_put tier u urls) s1)"

definition queues_Open ::
  "string + 'q sqs_client \<Rightarrow> sqs_config \<Rightarrow> 'q \<Rightarrow> (sqs_error + queues) \<times> 'q" where
  "queues_Open client cfg0 s =
     (let cfg = sqs_defaults cfg0 in
      case client of Inl e \<Rightarrow> (Inl (NoClient e), s) | Inr sc \<Rightarrow>
      case sc_url sc (DLQName (c_Prefix cfg)) s of
        (Inl e, s1) \<Rightarrow> (Inl (OpenDLQ e), s1)
      | (Inr dlq, s1) \<Rightarrow>
          (case open_tiers sc cfg tiers_up [] s1 of
             (Inl e, s2) \<Rightarrow> (Inl e, s2)
           | (Inr urls, s2) \<Rightarrow> (Inr \<lparr>qs_cfg = cfg, qs_tierURL = urls, qs_dlqURL = dlq\<rparr>, s2)))"

definition queues_Delete :: "'q sqs_client \<Rightarrow> (nat \<Rightarrow> nat) \<Rightarrow> queues \<Rightarrow> 'q \<Rightarrow> 'q" where
  "queues_Delete sc order q s =
     sc_drop sc (qs_dlqURL q) (fold (\<lambda>(_, u). sc_drop sc u) (map_order order (qs_tierURL q)) s)"

section \<open>Messages\<close>

definition queues_Send :: "'q sqs_client \<Rightarrow> queues \<Rightarrow> job \<Rightarrow> 'q \<Rightarrow> string option \<times> 'q" where
  "queues_Send sc q job s =
     (case sc_marshal sc job of
        Inl e \<Rightarrow> (Some e, s)
      | Inr body \<Rightarrow> sc_send sc (tier_url q (Tier (j_Priority job))) body s)"

text \<open>\<open>strconv.Atoi\<close> with the error dropped: the nearest bound when out of range, 0 otherwise.\<close>

definition count_of :: "string \<Rightarrow> int" where
  "count_of a =
     (case atoi a of
        Some n \<Rightarrow> n
      | None \<Rightarrow>
          (case atoi_sign a of (neg, ds) \<Rightarrow>
             if ds = [] \<or> \<not> list_all is_digit ds then 0 else if neg then - (2 ^ 63) else 2 ^ 63 - 1))"

datatype receive_error = ServiceError string | Undecodable string string

fun receive_tiers ::
  "'q sqs_client \<Rightarrow> queues \<Rightarrow> int list \<Rightarrow> 'q \<Rightarrow> (receive_error + delivery option) \<times> 'q" where
  "receive_tiers sc q [] s = (Inr None, s)"
| "receive_tiers sc q (tier # rest) s =
     (case sc_receive sc (tier_url q tier) 1 s of
        (Inl e, s1) \<Rightarrow> (Inl (ServiceError e), s1)
      | (Inr [], s1) \<Rightarrow> receive_tiers sc q rest s1
      | (Inr (m # _), s1) \<Rightarrow>
          (case sc_unmarshal sc (m_Body m) of
             Inl e \<Rightarrow> (Inl (Undecodable (m_MessageId m) e), s1)
           | Inr job \<Rightarrow>
               (Inr (Some \<lparr>dl_Job = job, dl_Tier = tier, dl_ReceiveCount = count_of (m_ReceiveCount m),
                           dl_MessageID = m_MessageId m, dl_queueURL = tier_url q tier,
                           dl_receipt = m_ReceiptHandle m\<rparr>), s1)))"

definition queues_Receive :: "'q sqs_client \<Rightarrow> queues \<Rightarrow> 'q \<Rightarrow> (receive_error + delivery option) \<times> 'q" where
  "queues_Receive sc q s = receive_tiers sc q tiers_down s"

definition queues_Ack :: "'q sqs_client \<Rightarrow> delivery \<Rightarrow> 'q \<Rightarrow> string option \<times> 'q" where
  "queues_Ack sc d s = sc_delete sc (dl_queueURL d) (dl_receipt d) s"

definition queues_Release :: "'q sqs_client \<Rightarrow> delivery \<Rightarrow> 'q \<Rightarrow> string option \<times> 'q" where
  "queues_Release sc d s = sc_visible sc (dl_queueURL d) (dl_receipt d) s"

fun dead_letters :: "'q sqs_client \<Rightarrow> message list \<Rightarrow> dead_letter list \<Rightarrow> receive_error + dead_letter list" where
  "dead_letters sc [] res = Inr res"
| "dead_letters sc (m # ms) res =
     (case sc_unmarshal sc (m_Body m) of
        Inl e \<Rightarrow> Inl (Undecodable (m_MessageId m) e)
      | Inr job \<Rightarrow>
          dead_letters sc ms (res @ [\<lparr>dd_Job = job, dd_MessageID = m_MessageId m,
                                      dd_ReceiveCount = count_of (m_ReceiveCount m)\<rparr>]))"

definition queues_PeekDeadLetters ::
  "'q sqs_client \<Rightarrow> queues \<Rightarrow> 'q \<Rightarrow> (receive_error + dead_letter list) \<times> 'q" where
  "queues_PeekDeadLetters sc q s =
     (case sc_receive sc (qs_dlqURL q) 10 s of
        (Inl e, s1) \<Rightarrow> (Inl (ServiceError e), s1)
      | (Inr ms, s1) \<Rightarrow> (dead_letters sc ms [], s1))"

section \<open>Tiers and the sweep\<close>

lemma Tier_range: "MinTier \<le> Tier p \<and> Tier p \<le> MaxTier"
  by (simp add: Tier_def MinTier_def MaxTier_def)

lemma Tier_mono: "p \<le> p' \<Longrightarrow> Tier p \<le> Tier p'"
  by (simp add: Tier_def MinTier_def MaxTier_def)

lemma Tier_id: "MinTier \<le> p \<Longrightarrow> p \<le> MaxTier \<Longrightarrow> Tier p = p"
  by (simp add: Tier_def)

lemma tiers_down_eq: "tiers_down = [5, 4, 3, 2, 1]"
  by (simp add: tiers_down_def MinTier_def MaxTier_def upto.simps)

lemma tiers_up_eq: "tiers_up = [1, 2, 3, 4, 5]"
  by (simp add: tiers_up_def MinTier_def MaxTier_def upto.simps)

text \<open>\<open>all_empty sc q tiers s\<close>: the state after every tier of the list was asked and answered empty.\<close>

fun all_empty :: "'q sqs_client \<Rightarrow> queues \<Rightarrow> int list \<Rightarrow> 'q \<Rightarrow> 'q option" where
  "all_empty sc q [] s = Some s"
| "all_empty sc q (tier # rest) s =
     (case sc_receive sc (tier_url q tier) 1 s of
        (Inr [], s1) \<Rightarrow> all_empty sc q rest s1
      | _ \<Rightarrow> None)"

lemma receive_tiers_Some:
  "receive_tiers sc q tiers s = (Inr (Some d), s') \<Longrightarrow>
   \<exists>before after s1 m ms. tiers = before @ dl_Tier d # after \<and> all_empty sc q before s = Some s1 \<and>
     sc_receive sc (tier_url q (dl_Tier d)) 1 s1 = (Inr (m # ms), s') \<and>
     sc_unmarshal sc (m_Body m) = Inr (dl_Job d) \<and> dl_receipt d = m_ReceiptHandle m \<and>
     dl_queueURL d = tier_url q (dl_Tier d)"
proof (induction tiers arbitrary: s)
  case Nil
  then show ?case by simp
next
  case (Cons t ts)
  obtain r s1 where r: "sc_receive sc (tier_url q t) 1 s = (r, s1)" by fastforce
  show ?case
  proof (cases r)
    case (Inl e)
    then show ?thesis using Cons.prems r by simp
  next
    case (Inr ms)
    show ?thesis
    proof (cases ms)
      case Nil
      with Cons.prems r Inr have "receive_tiers sc q ts s1 = (Inr (Some d), s')" by simp
      from Cons.IH [OF this] obtain before after s2 m ms' where
        "ts = before @ dl_Tier d # after" "all_empty sc q before s1 = Some s2"
        "sc_receive sc (tier_url q (dl_Tier d)) 1 s2 = (Inr (m # ms'), s')"
        "sc_unmarshal sc (m_Body m) = Inr (dl_Job d)" "dl_receipt d = m_ReceiptHandle m"
        "dl_queueURL d = tier_url q (dl_Tier d)" by blast
      then show ?thesis using r Inr Nil
        by - (rule exI [of _ "t # before"], rule exI [of _ after], auto)
    next
      case (Cons m ms')
      then show ?thesis using \<open>receive_tiers sc q (t # ts) s = (Inr (Some d), s')\<close> r Inr
        by - (rule exI [of _ "[]"], rule exI [of _ ts], auto split: sum.splits)
    qed
  qed
qed

lemma receive_tiers_None:
  "receive_tiers sc q tiers s = (Inr None, s') \<longleftrightarrow> all_empty sc q tiers s = Some s'"
proof (induction tiers arbitrary: s)
  case (Cons t ts)
  then show ?case by (auto split: prod.splits sum.splits list.splits)
qed auto

section \<open>The directory of queues\<close>

text \<open>
  What the code relies on of the service: a queue that \<open>CreateQueue\<close> made is found by its name
  until it is deleted. \<open>known s\<close> is the URL of each name in a state of the service.
\<close>

definition keeps_directory :: "'q sqs_client \<Rightarrow> ('q \<Rightarrow> string \<Rightarrow> string option) \<Rightarrow> bool" where
  "keeps_directory sc known \<longleftrightarrow>
     (\<forall>n attrs s u s'. sc_create sc n attrs s = (Inr u, s') \<longrightarrow> known s' = (known s)(n \<mapsto> u)) \<and>
     (\<forall>u s r s'. sc_arn sc u s = (r, s') \<longrightarrow> known s' = known s) \<and>
     (\<forall>n s u. known s n = Some u \<longrightarrow> (\<exists>s'. sc_url sc n s = (Inr u, s') \<and> known s' = known s))"

lemma create_tiers_known:
  assumes "keeps_directory sc known" and "create_tiers sc cfg attrs tiers urls s = (Inr urls', s')"
    and "distinct (map (TierQueueName (c_Prefix cfg)) tiers)"
  shows "\<exists>us. length us = length tiers \<and> urls' = fold (\<lambda>(t, u). map_put t u) (zip tiers us) urls \<and>
    (\<forall>(t, u) \<in> set (zip tiers us). known s' (TierQueueName (c_Prefix cfg) t) = Some u) \<and>
    (\<forall>n. n \<notin> TierQueueName (c_Prefix cfg) ` set tiers \<longrightarrow> known s' n = known s n)"
  using assms(2,3)
proof (induction tiers arbitrary: urls s)
  case Nil
  then show ?case by auto
next
  case (Cons t ts)
  let ?n = "TierQueueName (c_Prefix cfg)"
  obtain u s1 where u: "sc_create sc (?n t) (Some attrs) s = (Inr u, s1)"
    and rest: "create_tiers sc cfg attrs ts (map_put t u urls) s1 = (Inr urls', s')"
    using Cons.prems(1) by (auto split: prod.splits sum.splits)
  have k: "known s1 = (known s)(?n t \<mapsto> u)" using assms(1) u unfolding keeps_directory_def by blast
  from Cons.IH [OF rest] Cons.prems(2) obtain us where
    us: "length us = length ts" "urls' = fold (\<lambda>(t, u). map_put t u) (zip ts us) (map_put t u urls)"
      "\<forall>(t, u) \<in> set (zip ts us). known s' (?n t) = Some u"
      "\<forall>n. n \<notin> ?n ` set ts \<longrightarrow> known s' n = known s1 n" by auto
  have "known s' (?n t) = Some u" using us(4) k Cons.prems(2) by simp
  then show ?case using us k by (intro exI [of _ "u # us"]) auto
qed

lemma open_tiers_known:
  assumes "keeps_directory sc known" and "length us = length tiers"
    and "\<forall>(t, u) \<in> set (zip tiers us). known s (TierQueueName (c_Prefix cfg) t) = Some u"
  shows "\<exists>s'. open_tiers sc cfg tiers urls s = (Inr (fold (\<lambda>(t, u). map_put t u) (zip tiers us) urls), s')"
  using assms(2,3)
proof (induction tiers arbitrary: urls s us)
  case (Cons t ts)
  obtain u us' where us: "us = u # us'" using Cons.prems(1) by (cases us) auto
  then have "known s (TierQueueName (c_Prefix cfg) t) = Some u" using Cons.prems(2) by simp
  then obtain s1 where s1: "sc_url sc (TierQueueName (c_Prefix cfg) t) s = (Inr u, s1)" "known s1 = known s"
    using assms(1) unfolding keeps_directory_def by blast
  have "\<exists>s'. open_tiers sc cfg ts (map_put t u urls) s1 =
      (Inr (fold (\<lambda>(t, u). map_put t u) (zip ts us') (map_put t u urls)), s')"
    by (rule Cons.IH) (use Cons.prems us s1(2) in auto)
  then show ?case by (simp add: us s1)
qed auto

lemma queue_names: "distinct (map (TierQueueName p) tiers_up)" "DLQName p \<notin> TierQueueName p ` set tiers_up"
proof -
  have i: "itoa 1 = ''1''" "itoa 2 = ''2''" "itoa 3 = ''3''" "itoa 4 = ''4''" "itoa 5 = ''5''" by code_simp+
  show "distinct (map (TierQueueName p) tiers_up)" "DLQName p \<notin> TierQueueName p ` set tiers_up"
    by (simp_all add: tiers_up_eq TierQueueName_def DLQName_def i)
qed

end
