(* ===== verification/SqsCoordinator.thy ===== *)
theory SqsCoordinator
  imports Broker SqsQueue
begin

text \<open>
  \<^verbatim>\<open>internal/dispatch/sqs.go\<close>, the coordinator: what SQS cannot keep, that is telemetry,
  triage and the record of which jobs reached a terminal state. Every method that holds the lock
  is a function; \<open>Report\<close> holds it twice and is split like the broker's. \<open>Submit\<close> takes what
  the queue's \<open>Send\<close> answered, and returns whether it was called. The hook \<open>OnStarted\<close> is the
  dispatcher's; \<open>Started\<close> calls it exactly when it does not answer \<open>Duplicate\<close>.
\<close>

section \<open>State and messages\<close>

definition InjectHang :: string where "InjectHang = ''hang''"
definition InjectPoison :: string where "InjectPoison = ''poison''"

record started_args =
  sa_WorkerID :: string
  sa_Job :: job
  sa_Attempt :: int
  sa_ReceiveCount :: int
  sa_Tier :: int

record sqs_report_args =
  sr_WorkerID :: string
  sr_Job :: job
  sr_Attempt :: int
  sr_Success :: bool
  sr_Error :: string
  sr_Result :: result

text \<open>The reply of \<open>Report\<close>; the zero decision is \<^term>\<open>None\<close>.\<close>

record sqs_report_reply =
  rr_Duplicate :: bool
  rr_Decision :: "decision option"

record sqs_stats =
  ss_Submitted :: nat
  ss_Succeeded :: nat
  ss_Escalated :: nat
  ss_DeadLettered :: nat
  ss_Retried :: nat
  ss_Adjusted :: nat
  ss_Redelivered :: nat
  ss_Duplicates :: nat

record sqs_coord =
  co_agent :: agent
  co_recorder :: "recorder option"
  co_maxReceive :: int
  co_jobs :: "(string \<times> job) list"
  co_terminal :: "(string \<times> string) list"
  co_released :: "(string \<times> bool) list"
  co_stats :: sqs_stats
  co_closed :: bool
  co_done :: bool

definition zero_stats :: sqs_stats where
  "zero_stats = \<lparr>ss_Submitted = 0, ss_Succeeded = 0, ss_Escalated = 0, ss_DeadLettered = 0,
     ss_Retried = 0, ss_Adjusted = 0, ss_Redelivered = 0, ss_Duplicates = 0\<rparr>"

text \<open>Of the queue handle the coordinator only uses \<open>Send\<close> and the configured receive limit.\<close>

definition NewSQSCoordinator :: "agent \<Rightarrow> recorder option \<Rightarrow> queues \<Rightarrow> sqs_coord" where
  "NewSQSCoordinator agent recorder qs =
     \<lparr>co_agent = agent, co_recorder = recorder, co_maxReceive = c_MaxReceiveCount (qs_cfg qs),
      co_jobs = [], co_terminal = [], co_released = [], co_stats = zero_stats,
      co_closed = False, co_done = False\<rparr>"

section \<open>Helpers\<close>

definition coord_record :: "time \<Rightarrow> job \<Rightarrow> string \<Rightarrow> string \<Rightarrow> int \<Rightarrow> detail \<Rightarrow> sqs_coord \<Rightarrow> sqs_coord" where
  "coord_record now job eventType worker attempt detail c =
     c\<lparr>co_recorder := record_event
        (zero_event\<lparr>ev_Timestamp := now, ev_JobID := j_ID job, ev_EventType := eventType, ev_NodeName := worker,
           ev_Priority := j_Priority job, ev_Model := b_Model (j_Inference job),
           ev_BatchSize := b_BatchSize (j_Inference job), ev_Attempt := attempt, ev_Detail := detail\<rparr>)
        (co_recorder c)\<rparr>"

definition coord_recordTriage :: "time \<Rightarrow> job \<Rightarrow> sqs_report_args \<Rightarrow> decision \<Rightarrow> sqs_coord \<Rightarrow> sqs_coord" where
  "coord_recordTriage now job args d c =
     c\<lparr>co_recorder := record_event
        (zero_event\<lparr>ev_Timestamp := now, ev_JobID := j_ID job, ev_EventType := ''triaged'',
           ev_NodeName := sr_WorkerID args, ev_Priority := j_Priority job,
           ev_Model := b_Model (j_Inference job), ev_BatchSize := b_BatchSize (j_Inference job),
           ev_Attempt := sr_Attempt args, ev_TriageAction := d_Action d,
           ev_Detail := Sprintf ''source=%s reason=%s'' [FStr (d_Source d), FStr (d_Reason d)]\<rparr>)
        (co_recorder c)\<rparr>"

definition coord_maybeDone :: "sqs_coord \<Rightarrow> sqs_coord" where
  "coord_maybeDone c =
     (if co_closed c \<and> length (co_terminal c) \<ge> ss_Submitted (co_stats c) then c\<lparr>co_done := True\<rparr> else c)"

definition set_terminal :: "string \<Rightarrow> string \<Rightarrow> sqs_coord \<Rightarrow> sqs_coord" where
  "set_terminal jid outcome c = c\<lparr>co_terminal := map_put jid outcome (co_terminal c)\<rparr>"

definition count_stat :: "(sqs_stats \<Rightarrow> sqs_stats) \<Rightarrow> sqs_coord \<Rightarrow> sqs_coord" where
  "count_stat f c = c\<lparr>co_stats := f (co_stats c)\<rparr>"

section \<open>Submission\<close>

datatype sqs_submit_error = SqsInvalidJob string batch_error | SqsClosed | EnqueueFailed string string

definition sqs_Submit ::
  "time \<Rightarrow> job \<Rightarrow> string option \<Rightarrow> sqs_coord \<Rightarrow> sqs_submit_error option \<times> job option \<times> sqs_coord" where
  "sqs_Submit now job send_answer c =
     (case batch_Validate (j_Inference job) of
        Some e \<Rightarrow> (Some (SqsInvalidJob (j_ID job) e), None, c)
      | None \<Rightarrow>
          (if co_closed c then (Some SqsClosed, None, c)
           else (let job' = prepare_job now job;
                     c1 = c\<lparr>co_jobs := map_put (j_ID job') job' (co_jobs c)\<rparr>;
                     c2 = count_stat (\<lambda>s. s\<lparr>ss_Submitted := Suc (ss_Submitted s)\<rparr>) c1;
                     c3 = coord_record now job' ''submitted'' [] (j_Attempt job')
                       (Sprintf ''sqs tier=p%d model=%s batch=%d precision=%s''
                          [FInt (Tier (j_Priority job')), FStr (b_Model (j_Inference job')),
                           FInt (b_BatchSize (j_Inference job')), FStr (b_Precision (j_Inference job'))]) c2
                 in (case send_answer of
                       Some e \<Rightarrow> (Some (EnqueueFailed (j_ID job') e), Some job', c3)
                     | None \<Rightarrow> (None, Some job', c3)))))"

definition sqs_CloseSubmissions :: "sqs_coord \<Rightarrow> sqs_coord" where
  "sqs_CloseSubmissions c = coord_maybeDone (c\<lparr>co_closed := True\<rparr>)"

section \<open>Started and Report\<close>

definition sqs_Started :: "time \<Rightarrow> started_args \<Rightarrow> sqs_coord \<Rightarrow> bool \<times> sqs_coord" where
  "sqs_Started now args c =
     (let job = sa_Job args in
      case map_of (co_terminal c) (j_ID job) of
        Some outcome \<Rightarrow>
          (True, coord_record now job ''duplicate_delivery'' (sa_WorkerID args) (sa_Attempt args)
             (Sprintf ''job already %s; acking and skipping (receive_count=%d)''
                [FStr outcome, FInt (sa_ReceiveCount args)])
             (count_stat (\<lambda>s. s\<lparr>ss_Duplicates := Suc (ss_Duplicates s)\<rparr>) c))
      | None \<Rightarrow>
          (let c1 = (if sa_ReceiveCount args > 1 \<and> map_of (co_released c) (j_ID job) \<noteq> Some True
                     then coord_record now job ''redelivered'' (sa_WorkerID args) (sa_Attempt args)
                            (Sprintf ''receive_count=%d: previous holder never acked within the visibility timeout (died or stalled)''
                               [FInt (sa_ReceiveCount args)])
                            (count_stat (\<lambda>s. s\<lparr>ss_Redelivered := Suc (ss_Redelivered s)\<rparr>) c)
                     else c);
               c2 = c1\<lparr>co_released := map_del (j_ID job) (co_released c1)\<rparr>
           in (False, coord_record now job ''started'' (sa_WorkerID args) (sa_Attempt args)
                 (Sprintf ''worker=%s tier=p%d receive_count=%d''
                    [FStr (sa_WorkerID args), FInt (sa_Tier args), FInt (sa_ReceiveCount args)]) c2)))"

text \<open>The first critical section of \<open>Report\<close>: \<^term>\<open>Some\<close> of a reply ends the call.\<close>

definition sqs_Report_begin ::
  "time \<Rightarrow> sqs_report_args \<Rightarrow> sqs_coord \<Rightarrow> sqs_report_reply option \<times> sqs_coord" where
  "sqs_Report_begin now args c =
     (let job = sr_Job args in
      case map_of (co_terminal c) (j_ID job) of
        Some _ \<Rightarrow>
          (Some \<lparr>rr_Duplicate = True, rr_Decision = None\<rparr>,
           count_stat (\<lambda>s. s\<lparr>ss_Duplicates := Suc (ss_Duplicates s)\<rparr>) c)
      | None \<Rightarrow>
          (if sr_Success args then
             (Some \<lparr>rr_Duplicate = False, rr_Decision = None\<rparr>,
              coord_maybeDone (coord_record now job ''completed'' (sr_WorkerID args) (sr_Attempt args)
                (ResultJSON (sr_Result args))
                (count_stat (\<lambda>s. s\<lparr>ss_Succeeded := Suc (ss_Succeeded s)\<rparr>)
                   (set_terminal (j_ID job) ''completed'' c))))
           else (None, coord_record now job ''failed'' (sr_WorkerID args) (sr_Attempt args)
                         (Text (sr_Error args)) c)))"

definition sqs_failure :: "sqs_report_args \<Rightarrow> failure" where
  "sqs_failure args =
     \<lparr>f_JobID = j_ID (sr_Job args), f_Attempt = sr_Attempt args, f_MaxAttempts = j_MaxAttempts (sr_Job args),
      f_Error = sr_Error args, f_Batch = j_Inference (sr_Job args)\<rparr>"

text \<open>Between the sections, the same guards as in the broker.\<close>

definition sqs_decision :: "agent \<Rightarrow> sqs_report_args \<Rightarrow> decision" where
  "sqs_decision agent args = coordinator_decision agent (sqs_failure args)"

definition sqs_apply :: "time \<Rightarrow> sqs_report_args \<Rightarrow> decision \<Rightarrow> sqs_coord \<Rightarrow> sqs_coord" where
  "sqs_apply now args d c =
     (let job = sr_Job args in
      if d_Action d = Retry then
        coord_record now job ''retried'' (sr_WorkerID args) (sr_Attempt args) (Text (d_Reason d))
          (count_stat (\<lambda>s. s\<lparr>ss_Retried := Suc (ss_Retried s)\<rparr>)
             (c\<lparr>co_released := map_put (j_ID job) True (co_released c)\<rparr>))
      else if d_Action d = AutoAdjust then
        coord_record now job ''adjusted'' (sr_WorkerID args) (sr_Attempt args) (Text (d_Reason d))
          (count_stat (\<lambda>s. s\<lparr>ss_Adjusted := Suc (ss_Adjusted s)\<rparr>) c)
      else if d_Action d = Escalate then
        coord_record now job ''escalated'' (sr_WorkerID args) (sr_Attempt args) (Text (d_Reason d))
          (count_stat (\<lambda>s. s\<lparr>ss_Escalated := Suc (ss_Escalated s)\<rparr>)
             (set_terminal (j_ID job) ''escalated'' c))
      else c)"

text \<open>The second critical section.\<close>

definition sqs_Report_finish ::
  "time \<Rightarrow> sqs_report_args \<Rightarrow> decision \<Rightarrow> sqs_coord \<Rightarrow> sqs_report_reply \<times> sqs_coord" where
  "sqs_Report_finish now args d c =
     (let job = sr_Job args in
      case map_of (co_terminal c) (j_ID job) of
        Some _ \<Rightarrow>
          (\<lparr>rr_Duplicate = True, rr_Decision = None\<rparr>,
           count_stat (\<lambda>s. s\<lparr>ss_Duplicates := Suc (ss_Duplicates s)\<rparr>) c)
      | None \<Rightarrow>
          (\<lparr>rr_Duplicate = False, rr_Decision = Some d\<rparr>,
           coord_maybeDone (sqs_apply now args d (coord_recordTriage now job args d c))))"

definition sqs_Status :: "sqs_coord \<Rightarrow> bool" where
  "sqs_Status c = co_done c"

section \<open>Dead letters\<close>

definition bury_one :: "time \<Rightarrow> dead_letter \<Rightarrow> sqs_coord \<Rightarrow> sqs_coord" where
  "bury_one now d c =
     (let job = dd_Job d in
      case map_of (co_terminal c) (j_ID job) of
        Some _ \<Rightarrow> c
      | None \<Rightarrow>
          coord_record now job ''dead_lettered'' [] (j_Attempt job)
            (Sprintf ''exceeded maxReceiveCount=%d without an ack; moved to DLQ (message %s)''
               [FInt (co_maxReceive c), FStr (dd_MessageID d)])
            (count_stat (\<lambda>s. s\<lparr>ss_DeadLettered := Suc (ss_DeadLettered s)\<rparr>)
               (set_terminal (j_ID job) ''dead_lettered'' c)))"

text \<open>One round of \<open>WatchDeadLetters\<close>: what a tick does with the answer of the queue.\<close>

definition watch_round :: "time \<Rightarrow> receive_error + dead_letter list \<Rightarrow> sqs_coord \<Rightarrow> sqs_coord" where
  "watch_round now peeked c =
     (case peeked of Inl _ \<Rightarrow> c | Inr dead \<Rightarrow> coord_maybeDone (fold (bury_one now) dead c))"

end
