(* ===== verification/SqsWorker.thy ===== *)
theory SqsWorker
  imports SqsCoordinator
begin

text \<open>
  \<^verbatim>\<open>internal/dispatch/sqs.go\<close>, the worker loop \<open>RunSQSWorker\<close>, and the whole SQS back end:
  coordinator, queue and workers. The loop is a state machine: its states are the points where
  it waits for the queue, the coordinator or the runner, and each function below is the code
  from one such point to the next. The queue of the system is the list of messages sent and not
  deleted, those in the dead-letter queue included; what SQS documents of it is the choice of
  rules: any such message may be delivered to any worker, again and again and while another
  holds it, and only a delete removes it. Workers may die at every point; a call that takes
  effect and whose answer is lost is the call followed by the death of the worker.
\<close>

section \<open>The worker loop\<close>

datatype worker_exit = AllDone | Cancelled | Failed

datatype worker_pc =
    WLoop
  | WPoll
  | WGot delivery
  | WRun delivery
  | WStall delivery
  | WReport delivery sqs_report_args
  | WTriage delivery sqs_report_args
  | WAck delivery
  | WRelease delivery
  | WResend delivery job
  | WExit worker_exit

definition worker_received :: "receive_error + delivery option \<Rightarrow> worker_pc" where
  "worker_received r =
     (case r of Inl _ \<Rightarrow> WExit Failed | Inr None \<Rightarrow> WPoll | Inr (Some d) \<Rightarrow> WGot d)"

definition worker_polled :: "bool \<Rightarrow> worker_pc" where
  "worker_polled done = (if done then WExit AllDone else WLoop)"

definition worker_attempt :: "delivery \<Rightarrow> int" where
  "worker_attempt d = j_Attempt (dl_Job d) + dl_ReceiveCount d"

definition started_args_of :: "string \<Rightarrow> delivery \<Rightarrow> started_args" where
  "started_args_of w d = \<lparr>sa_WorkerID = w, sa_Job = dl_Job d, sa_Attempt = worker_attempt d,
     sa_ReceiveCount = dl_ReceiveCount d, sa_Tier = dl_Tier d\<rparr>"

definition stalls :: "job \<Rightarrow> int \<Rightarrow> bool" where
  "stalls job attempt \<longleftrightarrow> j_InjectFailure job = InjectPoison \<or>
     (j_InjectFailure job = InjectHang \<and> attempt = 1)"

definition worker_started :: "delivery \<Rightarrow> bool \<Rightarrow> worker_pc" where
  "worker_started d duplicate =
     (if duplicate then WAck d
      else if stalls (dl_Job d) (worker_attempt d) then WStall d
      else WRun d)"

text \<open>\<open>outcome\<close> is what the runner returned; its zero result is \<open>r0\<close>.\<close>

definition report_of :: "string \<Rightarrow> result \<Rightarrow> delivery \<Rightarrow> string + result \<Rightarrow> sqs_report_args" where
  "report_of w r0 d outcome =
     \<lparr>sr_WorkerID = w, sr_Job = dl_Job d, sr_Attempt = worker_attempt d,
      sr_Success = (case outcome of Inl _ \<Rightarrow> False | Inr _ \<Rightarrow> True),
      sr_Error = (case outcome of Inl e \<Rightarrow> e | Inr _ \<Rightarrow> []),
      sr_Result = (case outcome of Inl _ \<Rightarrow> r0 | Inr r \<Rightarrow> r)\<rparr>"

definition adjusted_job :: "decision \<Rightarrow> delivery \<Rightarrow> job" where
  "adjusted_job dec d =
     (dl_Job d)\<lparr>j_Inference := (j_Inference (dl_Job d))\<lparr>b_BatchSize := d_BatchSize dec,
                                                        b_Precision := d_Precision dec\<rparr>,
                j_Attempt := worker_attempt d, j_InjectFailure := []\<rparr>"

definition worker_replied :: "delivery \<Rightarrow> bool \<Rightarrow> sqs_report_reply \<Rightarrow> worker_pc" where
  "worker_replied d success reply =
     (if success \<or> rr_Duplicate reply then WAck d
      else (case rr_Decision reply of
              None \<Rightarrow> WAck d
            | Some dec \<Rightarrow>
                (if d_Action dec = Retry then WRelease d
                 else if d_Action dec = AutoAdjust then WResend d (adjusted_job dec d)
                 else WAck d)))"

text \<open>After \<open>Ack\<close> or \<open>Release\<close>, and after the \<open>Send\<close> of an adjusted job.\<close>

definition worker_acked :: "string option \<Rightarrow> worker_pc" where
  "worker_acked err = (case err of None \<Rightarrow> WLoop | Some _ \<Rightarrow> WExit Failed)"

definition worker_resent :: "delivery \<Rightarrow> string option \<Rightarrow> worker_pc" where
  "worker_resent d err = (case err of None \<Rightarrow> WAck d | Some _ \<Rightarrow> WExit Failed)"

section \<open>The system\<close>

text \<open>
  A message is a number (SQS's message, numbered in the order of sending) with its job; a worker
  has an ID, the number of the message it received last, and its point in the loop.
  \<open>sy_accepted\<close> lists the jobs whose \<open>Submit\<close> returned nil.
\<close>

record sqs_worker =
  wk_ID :: string
  wk_mid :: nat
  wk_pc :: worker_pc

record sqs_sys =
  sy_coord :: sqs_coord
  sy_pool :: "(nat \<times> job) list"
  sy_next :: nat
  sy_workers :: "sqs_worker list"
  sy_accepted :: "string list"

definition init_sqs :: "agent \<Rightarrow> recorder option \<Rightarrow> queues \<Rightarrow> sqs_sys" where
  "init_sqs agent rec qs = \<lparr>sy_coord = NewSQSCoordinator agent rec qs, sy_pool = [], sy_next = 0,
     sy_workers = [], sy_accepted = []\<rparr>"

definition send_to_pool :: "job \<Rightarrow> sqs_sys \<Rightarrow> sqs_sys" where
  "send_to_pool job s = s\<lparr>sy_pool := sy_pool s @ [(sy_next s, job)], sy_next := Suc (sy_next s)\<rparr>"

definition at_pc :: "sqs_worker \<Rightarrow> worker_pc \<Rightarrow> sqs_worker" where
  "at_pc w pc = w\<lparr>wk_pc := pc\<rparr>"

text \<open>
  A step is labelled with what the process that supervises the workers sees of it: its own calls
  of \<open>Submit\<close> and \<open>CloseSubmissions\<close>, a worker process started or gone, a call of \<open>Started\<close> with
  whether it was a duplicate (its hook runs when it was not), and a round of \<open>WatchDeadLetters\<close>.
\<close>

datatype sqs_label =
    Submits job "sqs_submit_error option"
  | Closes
  | Spawns string
  | Gone string
  | Starts started_args bool
  | Works
  | Watches

inductive sqs_step :: "sqs_sys \<Rightarrow> sqs_label \<Rightarrow> sqs_sys \<Rightarrow> bool" where
  submit: "sqs_Submit now job None (sy_coord s) = (None, Some job', c) \<Longrightarrow>
     map_of (co_jobs (sy_coord s)) (j_ID job) = None \<Longrightarrow>
     sqs_step s (Submits job None) (send_to_pool job' (s\<lparr>sy_coord := c, sy_accepted := sy_accepted s @ [j_ID job]\<rparr>))"
| submit_failed: "sqs_Submit now job ans (sy_coord s) = (Some e, sent, c) \<Longrightarrow>
     map_of (co_jobs (sy_coord s)) (j_ID job) = None \<Longrightarrow> sqs_step s (Submits job (Some e)) (s\<lparr>sy_coord := c\<rparr>)"
| close: "sqs_step s Closes (s\<lparr>sy_coord := sqs_CloseSubmissions (sy_coord s)\<rparr>)"
| spawn: "sqs_step s (Spawns i) (s\<lparr>sy_workers := sy_workers s @ [\<lparr>wk_ID = i, wk_mid = 0, wk_pc = WLoop\<rparr>]\<rparr>)"
| crash: "sy_workers s = xs @ w # ys \<Longrightarrow> sqs_step s (Gone (wk_ID w)) (s\<lparr>sy_workers := xs @ ys\<rparr>)"
| receive: "sy_workers s = xs @ w # ys \<Longrightarrow> wk_pc w = WLoop \<Longrightarrow> (mid, job) \<in> set (sy_pool s) \<Longrightarrow>
     dl_Job d = unindexed job \<Longrightarrow>
     sqs_step s Works (s\<lparr>sy_workers := xs @ (at_pc w (worker_received (Inr (Some d))))\<lparr>wk_mid := mid\<rparr> # ys\<rparr>)"
| empty: "sy_workers s = xs @ w # ys \<Longrightarrow> wk_pc w = WLoop \<Longrightarrow>
     sqs_step s Works (s\<lparr>sy_workers := xs @ at_pc w (worker_received (Inr None)) # ys\<rparr>)"
| polled: "sy_workers s = xs @ w # ys \<Longrightarrow> wk_pc w = WPoll \<Longrightarrow>
     sqs_step s Works (s\<lparr>sy_workers := xs @ at_pc w (worker_polled (sqs_Status (sy_coord s))) # ys\<rparr>)"
| started: "sy_workers s = xs @ w # ys \<Longrightarrow> wk_pc w = WGot d \<Longrightarrow>
     sqs_Started now (started_args_of (wk_ID w) d) (sy_coord s) = (dup, c) \<Longrightarrow>
     sqs_step s (Starts (started_args_of (wk_ID w) d) dup) (s\<lparr>sy_coord := c, sy_workers := xs @ at_pc w (worker_started d dup) # ys\<rparr>)"
| run: "sy_workers s = xs @ w # ys \<Longrightarrow> wk_pc w = WRun d \<Longrightarrow>
     sqs_step s Works (s\<lparr>sy_workers := xs @ at_pc w (WReport d (report_of (wk_ID w) r0 d outcome)) # ys\<rparr>)"
| report_ends: "sy_workers s = xs @ w # ys \<Longrightarrow> wk_pc w = WReport d args \<Longrightarrow>
     sqs_Report_begin now args (sy_coord s) = (Some reply, c) \<Longrightarrow>
     sqs_step s Works (s\<lparr>sy_coord := c, sy_workers := xs @ at_pc w (worker_replied d (sr_Success args) reply) # ys\<rparr>)"
| report_triage: "sy_workers s = xs @ w # ys \<Longrightarrow> wk_pc w = WReport d args \<Longrightarrow>
     sqs_Report_begin now args (sy_coord s) = (None, c) \<Longrightarrow>
     sqs_step s Works (s\<lparr>sy_coord := c, sy_workers := xs @ at_pc w (WTriage d args) # ys\<rparr>)"
| report_decides: "sy_workers s = xs @ w # ys \<Longrightarrow> wk_pc w = WTriage d args \<Longrightarrow>
     sqs_Report_finish now args (sqs_decision (co_agent (sy_coord s)) args) (sy_coord s) = (reply, c) \<Longrightarrow>
     sqs_step s Works (s\<lparr>sy_coord := c, sy_workers := xs @ at_pc w (worker_replied d False reply) # ys\<rparr>)"
| ack: "sy_workers s = xs @ w # ys \<Longrightarrow> wk_pc w = WAck d \<Longrightarrow>
     sqs_step s Works (s\<lparr>sy_pool := map_del (wk_mid w) (sy_pool s), sy_workers := xs @ at_pc w (worker_acked None) # ys\<rparr>)"
| release: "sy_workers s = xs @ w # ys \<Longrightarrow> wk_pc w = WRelease d \<Longrightarrow>
     sqs_step s Works (s\<lparr>sy_workers := xs @ at_pc w (worker_acked None) # ys\<rparr>)"
| resend: "sy_workers s = xs @ w # ys \<Longrightarrow> wk_pc w = WResend d job \<Longrightarrow>
     sqs_step s Works (send_to_pool job (s\<lparr>sy_workers := xs @ at_pc w (worker_resent d None) # ys\<rparr>))"
| receive_fails: "sy_workers s = xs @ w # ys \<Longrightarrow> wk_pc w = WLoop \<Longrightarrow>
     sqs_step s Works (s\<lparr>sy_workers := xs @ at_pc w (worker_received (Inl e)) # ys\<rparr>)"
| ack_fails: "sy_workers s = xs @ w # ys \<Longrightarrow> wk_pc w = WAck d \<or> wk_pc w = WRelease d \<Longrightarrow>
     sqs_step s Works (s\<lparr>sy_workers := xs @ at_pc w (worker_acked (Some e)) # ys\<rparr>)"
| resend_fails: "sy_workers s = xs @ w # ys \<Longrightarrow> wk_pc w = WResend d job \<Longrightarrow>
     sqs_step s Works (s\<lparr>sy_workers := xs @ at_pc w (worker_resent d (Some e)) # ys\<rparr>)"
| stall_ends: "sy_workers s = xs @ w # ys \<Longrightarrow> wk_pc w = WStall d \<Longrightarrow>
     sqs_step s Works (s\<lparr>sy_workers := xs @ at_pc w (WExit Cancelled) # ys\<rparr>)"
| watch: "\<forall>d \<in> set dead. \<exists>(mid, job) \<in> set (sy_pool s). dd_Job d = unindexed job \<Longrightarrow>
     sqs_step s Watches (s\<lparr>sy_coord := watch_round now (Inr dead) (sy_coord s)\<rparr>)"

inductive sqs_reachable :: "sqs_sys \<Rightarrow> sqs_sys \<Rightarrow> bool" for s0 where
  start: "sqs_reachable s0 s0"
| step: "sqs_reachable s0 s \<Longrightarrow> sqs_step s l s' \<Longrightarrow> sqs_reachable s0 s'"

end
