(* ===== verification/Dispatcher.thy ===== *)
theory Dispatcher
  imports BrokerSystem SqsWorker
begin

text \<open>
  \<^verbatim>\<open>cmd/dispatcher/main.go\<close>: the synthetic workload, the worker process of the in-process
  broker, and the coordinator that starts workers and waits for them. The Python runner, the RPC
  transport and the operating system are not code of the repository: what they answer is an
  argument. Errors are kept as their text.
\<close>

section \<open>Injected errors and the runner\<close>

definition injectedError :: "string \<Rightarrow> string option" where
  "injectedError kind =
     (if kind = ''oom'' then Some ''CUDA out of memory while allocating inference tensor''
      else if kind = ''transient'' then Some ''transient GPU worker reset''
      else if kind = ''corrupt_input'' then Some ''corrupt input image in batch''
      else None)"

record runner_response =
  rs_OK :: bool
  rs_Error :: string
  rs_Result :: result

text \<open>\<open>encode\<close> and \<open>decode\<close> are the two JSON streams of the child process, whose state is \<open>'p\<close>.\<close>

definition runner_Run ::
  "(batch \<Rightarrow> 'p \<Rightarrow> string option \<times> 'p) \<Rightarrow> ('p \<Rightarrow> (string + runner_response) \<times> 'p) \<Rightarrow> batch \<Rightarrow> 'p \<Rightarrow>
   (string + result) \<times> 'p" where
  "runner_Run encode decode batch p =
     (case encode batch p of
        (Some err, p1) \<Rightarrow> (Inl err, p1)
      | (None, p1) \<Rightarrow>
          (case decode p1 of
             (Inl err, p2) \<Rightarrow> (Inl err, p2)
           | (Inr response, p2) \<Rightarrow>
               (if \<not> rs_OK response then (Inl (rs_Error response), p2) else (Inr (rs_Result response), p2))))"

section \<open>The triage agent of a run\<close>

datatype agent_error = MissingLLMFlags | UnknownMode string

definition buildAgent ::
  "llm_api \<Rightarrow> string \<Rightarrow> string \<Rightarrow> string \<Rightarrow> string \<Rightarrow> agent_error + agent" where
  "buildAgent api mode url key model =
     (if mode = ''policy'' then Inr policy_Decide
      else if mode = ''llm'' then
        (if url = [] \<or> model = [] then Inl MissingLLMFlags
         else Inr (fallback_Decide (llm_Decide api \<lparr>a_URL = url, a_APIKey = key, a_Model = model\<rparr>) policy_Decide))
      else Inl (UnknownMode mode))"

section \<open>The workload\<close>

datatype options_error = NotPositive | RateOutOfRange

definition check_options :: "int \<Rightarrow> int \<Rightarrow> rat \<Rightarrow> options_error option" where
  "check_options numJobs numWorkers failureRate =
     (if numJobs < 1 \<or> numWorkers < 1 then Some NotPositive
      else if failureRate < 0 \<or> failureRate > 1 then Some RateOutOfRange
      else None)"

definition workload_sizes :: "int list" where
  "workload_sizes = [1, 8, 16, 32]"

definition failureKinds :: "string list" where
  "failureKinds = [''oom'', ''transient'', ''corrupt_input'']"

definition generate_job :: "int \<Rightarrow> rat \<Rightarrow> time \<Rightarrow> nat \<Rightarrow> rng \<Rightarrow> (batch_error + job) \<times> rng" where
  "generate_job seed failureRate baseTime i g0 =
     (let (r1, g1) = rng_Intn (int (length workload_sizes)) g0; batchSize = workload_sizes ! nat r1;
          (r2, g2) = rng_Intn 2 g1; precision = (if r2 = 0 then ''fp16'' else ''fp32'')
      in case NewResNet50Batch batchSize precision (go_add seed (int i)) of
           (_, Some e) \<Rightarrow> (Inl e, g2)
         | (batch, None) \<Rightarrow>
             (let (f, g3) = rng_Float64 g2;
                  failure = (if f < failureRate then failureKinds ! (i mod length failureKinds) else []);
                  (r4, g4) = rng_Intn 5 g3
              in (Inr \<lparr>j_ID = ''inference-'' @ pad3 i, j_Priority = 1 + r4,
                       j_Resources = \<lparr>rq_CPUCores = 2, rq_MemoryMB = 1024 + batchSize * 64, rq_GPUs = 1\<rparr>,
                       j_Inference = batch, j_Attempt = 0, j_MaxAttempts = 3, j_InjectFailure = failure,
                       j_State = Pending, j_SubmitTime = baseTime + int i * nanosecond, j_StartTime = zero_time,
                       j_Node = [], j_index = 0\<rparr>, g4)))"

fun generate_from :: "int \<Rightarrow> rat \<Rightarrow> time \<Rightarrow> nat list \<Rightarrow> rng \<Rightarrow> batch_error + job list" where
  "generate_from seed failureRate baseTime [] g = Inr []"
| "generate_from seed failureRate baseTime (i # rest) g =
     (case generate_job seed failureRate baseTime i g of
        (Inl e, _) \<Rightarrow> Inl e
      | (Inr job, g1) \<Rightarrow>
          (case generate_from seed failureRate baseTime rest g1 of
             Inl e \<Rightarrow> Inl e
           | Inr jobs \<Rightarrow> Inr (job # jobs)))"

definition generateJobs :: "int \<Rightarrow> int \<Rightarrow> rat \<Rightarrow> time \<Rightarrow> rng \<Rightarrow> batch_error + job list" where
  "generateJobs numJobs seed failureRate baseTime g =
     generate_from seed failureRate baseTime [0..<nat numJobs] g"

text \<open>The loop over \<open>Submit\<close>, which stops at the first error; each call has its own clock reading.\<close>

fun submit_jobs :: "(time \<times> job) list \<Rightarrow> broker \<Rightarrow> submit_error option \<times> broker" where
  "submit_jobs [] b = (None, b)"
| "submit_jobs ((now, job) # rest) b =
     (case broker_Submit now job b of
        (Some e, b1) \<Rightarrow> (Some e, b1)
      | (None, b1) \<Rightarrow> submit_jobs rest b1)"

section \<open>A worker process of the broker\<close>

text \<open>
  The points at which the worker waits: for \<open>Claim\<close>, for the runner, for \<open>Report\<close>; \<open>BTriage\<close> is a
  \<open>Report\<close> whose call is between the broker's two critical sections. \<^term>\<open>BExit None\<close> is the
  return of nil.
\<close>

datatype bw_pc =
    BClaim
  | BRun job
  | BReport job report_args
  | BTriage report_args job
  | BExit "string option"

definition claim_next :: "string + claim_reply \<Rightarrow> bw_pc" where
  "claim_next answer =
     (case answer of
        Inl e \<Rightarrow> BExit (Some (''claim: '' @ e))
      | Inr claim \<Rightarrow>
          (if cl_Shutdown claim then BExit None
           else if cl_Wait claim then BClaim
           else (case cl_Job claim of None \<Rightarrow> BExit (Some ''nil pointer dereference'') | Some job \<Rightarrow> BRun job)))"

definition worker_outcome :: "job \<Rightarrow> string + result \<Rightarrow> string + result" where
  "worker_outcome job answer =
     (case injectedError (j_InjectFailure job) of Some e \<Rightarrow> Inl e | None \<Rightarrow> answer)"

definition worker_report :: "string \<Rightarrow> result \<Rightarrow> job \<Rightarrow> string + result \<Rightarrow> report_args" where
  "worker_report w r0 job outcome =
     \<lparr>ra_WorkerID = w, ra_JobID = j_ID job,
      ra_Success = (case outcome of Inl _ \<Rightarrow> False | Inr _ \<Rightarrow> True),
      ra_Error = (case outcome of Inl e \<Rightarrow> e | Inr _ \<Rightarrow> []),
      ra_Result = (case outcome of Inl _ \<Rightarrow> r0 | Inr r \<Rightarrow> r)\<rparr>"

definition report_next :: "job \<Rightarrow> string option \<Rightarrow> bw_pc" where
  "report_next job err =
     (case err of None \<Rightarrow> BClaim | Some e \<Rightarrow> BExit (Some (''report '' @ j_ID job @ '': '' @ e)))"

section \<open>The coordinator waits for its workers\<close>

text \<open>
  \<open>MSelect\<close> is the outer select; \<open>MDrain n err\<close> the loop at \<open>drainWorkers\<close> with \<open>n\<close> exits received
  and the first error seen; \<^term>\<open>MReturn None\<close> the return of nil.
\<close>

datatype main_pc = MSelect | MDrain nat "string option" | MReturn "string option"

definition main_done :: main_pc where
  "main_done = MDrain 0 None"

definition early_exit :: string where
  "early_exit = ''worker exited before all jobs reached a terminal state''"

definition main_exit :: "bool \<Rightarrow> string option \<Rightarrow> main_pc" where
  "main_exit done workerErr =
     (if done then MDrain 1 workerErr
      else MReturn (Some (''worker process: '' @ (case workerErr of None \<Rightarrow> early_exit | Some e \<Rightarrow> e))))"

definition main_drain :: "nat \<Rightarrow> string option \<Rightarrow> string option \<Rightarrow> main_pc" where
  "main_drain received firstErr workerErr =
     MDrain (Suc received) (if workerErr \<noteq> None \<and> firstErr = None then workerErr else firstErr)"

definition main_return :: "string option \<Rightarrow> main_pc" where
  "main_return firstErr = MReturn (map_option (\<lambda>e. ''worker process: '' @ e) firstErr)"

text \<open>
  The run: the broker with its pending reports, the worker processes and the coordinator's main
  goroutine. A process may die at every point, with any error. A pending \<open>Report\<close> is finished by the
  broker whether or not its caller still lives. \<open>pr_reaped\<close> marks an exit the coordinator has
  received; when it gives up it kills and reaps all others.
\<close>

record proc =
  pr_ID :: string
  pr_pc :: bw_pc
  pr_reaped :: bool

record disp =
  dp_sys :: broker_sys
  dp_procs :: "proc list"
  dp_main :: main_pc

definition new_proc :: "string \<Rightarrow> proc" where
  "new_proc i = \<lparr>pr_ID = i, pr_pc = BClaim, pr_reaped = False\<rparr>"

definition worker_id :: "nat \<Rightarrow> string" where
  "worker_id i = ''worker-'' @ pad2 (i + 1)"

text \<open>
  \<open>cmd.Start\<close> answers for each worker in turn; at the first failure the workers started so far are
  killed and waited for, and the run returns the error.
\<close>

fun start_workers :: "nat \<Rightarrow> string option list \<Rightarrow> proc list \<Rightarrow> string + proc list" where
  "start_workers i [] workers = Inr workers"
| "start_workers i (None # rest) workers = start_workers (Suc i) rest (workers @ [new_proc (worker_id i)])"
| "start_workers i (Some e # rest) workers = Inl (''start '' @ worker_id i @ '': '' @ e)"

datatype start_error = SubmitFailed submit_error | NoExecutable string | StartFailed string

text \<open>From the first \<open>Submit\<close> to the last \<open>Start\<close>; \<open>exe\<close> is the error of \<open>os.Executable\<close>.\<close>

definition start_run ::
  "agent \<Rightarrow> recorder option \<Rightarrow> (time \<times> job) list \<Rightarrow> string option \<Rightarrow> string option list \<Rightarrow> start_error + disp" where
  "start_run agent rec jobs exe starts =
     (case submit_jobs jobs (NewBroker agent rec) of
        (Some e, _) \<Rightarrow> Inl (SubmitFailed e)
      | (None, b) \<Rightarrow>
          (case exe of
             Some e \<Rightarrow> Inl (NoExecutable e)
           | None \<Rightarrow>
               (case start_workers 0 starts [] of
                  Inl e \<Rightarrow> Inl (StartFailed e)
                | Inr workers \<Rightarrow>
                    Inr \<lparr>dp_sys = \<lparr>bs_broker = broker_CloseSubmissions b, bs_triaging = []\<rparr>,
                         dp_procs = workers, dp_main = MSelect\<rparr>)))"

definition at_point :: "proc \<Rightarrow> bw_pc \<Rightarrow> proc" where
  "at_point p pc = p\<lparr>pr_pc := pc\<rparr>"

definition with_broker :: "disp \<Rightarrow> broker \<Rightarrow> (report_args \<times> job) list \<Rightarrow> proc list \<Rightarrow> disp" where
  "with_broker s b tri ps = s\<lparr>dp_sys := \<lparr>bs_broker = b, bs_triaging = tri\<rparr>, dp_procs := ps\<rparr>"

definition kill_others :: "proc list \<Rightarrow> proc list" where
  "kill_others ps =
     map (\<lambda>p. (case pr_pc p of BExit _ \<Rightarrow> p | _ \<Rightarrow> at_point p (BExit (Some ''signal: killed'')))\<lparr>pr_reaped := True\<rparr>) ps"

definition main_receive :: "disp \<Rightarrow> string option \<Rightarrow> proc list \<Rightarrow> disp" where
  "main_receive s workerErr ps =
     (if br_done (bs_broker (dp_sys s)) then s\<lparr>dp_main := main_exit True workerErr, dp_procs := ps\<rparr>
      else s\<lparr>dp_main := main_exit False workerErr, dp_procs := kill_others ps\<rparr>)"

inductive disp_step :: "disp \<Rightarrow> disp \<Rightarrow> bool" where
  claims: "dp_procs s = xs @ p # ys \<Longrightarrow> pr_pc p = BClaim \<Longrightarrow>
     broker_Claim now (pr_ID p) (bs_broker (dp_sys s)) = (reply, b) \<Longrightarrow>
     disp_step s (with_broker s b (bs_triaging (dp_sys s)) (xs @ at_point p (claim_next (Inr reply)) # ys))"
| runs: "dp_procs s = xs @ p # ys \<Longrightarrow> pr_pc p = BRun job \<Longrightarrow>
     disp_step s (s\<lparr>dp_procs := xs @ at_point p (BReport job (worker_report (pr_ID p) r0 job (worker_outcome job answer))) # ys\<rparr>)"
| reports: "dp_procs s = xs @ p # ys \<Longrightarrow> pr_pc p = BReport job args \<Longrightarrow>
     broker_Report_begin now args (bs_broker (dp_sys s)) = (Inr None, b) \<Longrightarrow>
     disp_step s (with_broker s b (bs_triaging (dp_sys s)) (xs @ at_point p (report_next job None) # ys))"
| refused: "dp_procs s = xs @ p # ys \<Longrightarrow> pr_pc p = BReport job args \<Longrightarrow>
     broker_Report_begin now args (bs_broker (dp_sys s)) = (Inl e, b) \<Longrightarrow>
     disp_step s (with_broker s b (bs_triaging (dp_sys s))
       (xs @ at_point p (report_next job (Some (''job '' @ ra_JobID args @ '' is not assigned''))) # ys))"
| triages: "dp_procs s = xs @ p # ys \<Longrightarrow> pr_pc p = BReport job args \<Longrightarrow>
     broker_Report_begin now args (bs_broker (dp_sys s)) = (Inr (Some failed), b) \<Longrightarrow>
     disp_step s (with_broker s b (bs_triaging (dp_sys s) @ [(args, failed)]) (xs @ at_point p (BTriage args failed) # ys))"
| decides: "dp_procs s = xs @ p # ys \<Longrightarrow> pr_pc p = BTriage args job \<Longrightarrow> bs_triaging (dp_sys s) = us @ (args, job) # vs \<Longrightarrow>
     disp_step s (with_broker s (broker_Report_finish now args job
         (coordinator_decision (br_agent (bs_broker (dp_sys s))) (failure_of args job)) (bs_broker (dp_sys s)))
       (us @ vs) (xs @ at_point p (report_next job None) # ys))"
| decides_alone: "bs_triaging (dp_sys s) = us @ (args, job) # vs \<Longrightarrow> BTriage args job \<notin> pr_pc ` set (dp_procs s) \<Longrightarrow>
     disp_step s (with_broker s (broker_Report_finish now args job
         (coordinator_decision (br_agent (bs_broker (dp_sys s))) (failure_of args job)) (bs_broker (dp_sys s)))
       (us @ vs) (dp_procs s))"
| dies: "dp_procs s = xs @ p # ys \<Longrightarrow> (\<nexists>e. pr_pc p = BExit e) \<Longrightarrow>
     disp_step s (s\<lparr>dp_procs := xs @ at_point p (BExit (Some e)) # ys\<rparr>)"
| main_sees_done: "dp_main s = MSelect \<Longrightarrow> br_done (bs_broker (dp_sys s)) \<Longrightarrow> disp_step s (s\<lparr>dp_main := main_done\<rparr>)"
| main_sees_exit: "dp_main s = MSelect \<Longrightarrow> dp_procs s = xs @ p # ys \<Longrightarrow> pr_pc p = BExit e \<Longrightarrow> \<not> pr_reaped p \<Longrightarrow>
     disp_step s (main_receive s e (xs @ p\<lparr>pr_reaped := True\<rparr> # ys))"
| main_drains: "dp_main s = MDrain n err \<Longrightarrow> n < length (dp_procs s) \<Longrightarrow> dp_procs s = xs @ p # ys \<Longrightarrow>
     pr_pc p = BExit e \<Longrightarrow> \<not> pr_reaped p \<Longrightarrow>
     disp_step s (s\<lparr>dp_main := main_drain n err e, dp_procs := xs @ p\<lparr>pr_reaped := True\<rparr> # ys\<rparr>)"
| main_returns: "dp_main s = MDrain n err \<Longrightarrow> length (dp_procs s) \<le> n \<Longrightarrow> disp_step s (s\<lparr>dp_main := main_return err\<rparr>)"

inductive disp_reachable :: "disp \<Rightarrow> disp \<Rightarrow> bool" for s0 where
  start: "disp_reachable s0 s0"
| step: "disp_reachable s0 s \<Longrightarrow> disp_step s s' \<Longrightarrow> disp_reachable s0 s'"

end
