(* ===== verification/SqsRun.thy ===== *)
theory SqsRun
  imports Dispatcher
begin

text \<open>
  \<^verbatim>\<open>cmd/dispatcher/sqs.go\<close>: the worker's runner closure, the chaos jobs, the supervisor of
  worker processes, and \<open>runSQSCoordinator\<close> as a whole. Its state joins the SQS back end, the
  supervisor's map, the channel of exits, the goroutines the chaos hook has started and the point
  the main goroutine is at; a step is one of theirs. Processes may die at every point, so the kill
  signals of the hook and of the last deadline need no effect of their own.
\<close>

section \<open>The SQS worker's runner and the chaos jobs\<close>

text \<open>The closure \<open>run\<close> of \<open>runSQSWorker\<close>: injected failures hit the first attempt only.\<close>

definition sqs_run :: "job \<Rightarrow> int \<Rightarrow> string + result \<Rightarrow> string + result" where
  "sqs_run job attempt answer =
     (case (if attempt = 1 then injectedError (j_InjectFailure job) else None) of
        Some e \<Rightarrow> Inl e | None \<Rightarrow> answer)"

definition chaos_job :: "int \<Rightarrow> int \<Rightarrow> nat \<Rightarrow> job \<Rightarrow> job" where
  "chaos_job chaosPoison chaosHang i job =
     (if int i < chaosPoison then job\<lparr>j_InjectFailure := InjectPoison\<rparr>
      else if int i < chaosPoison + chaosHang then job\<lparr>j_InjectFailure := InjectHang\<rparr>
      else job)"

definition chaos_jobs :: "int \<Rightarrow> int \<Rightarrow> job list \<Rightarrow> job list" where
  "chaos_jobs chaosPoison chaosHang jobs =
     map (\<lambda>(i, job). chaos_job chaosPoison chaosHang i job) (enumerate 0 jobs)"

section \<open>The supervisor of SQS workers\<close>

record worker_proc =
  wp_killed :: bool
  wp_exited :: bool

record supervisor =
  su_procs :: "(string \<times> worker_proc) list"
  su_nextID :: nat
  su_spawned :: nat

definition init_supervisor :: supervisor where
  "init_supervisor = \<lparr>su_procs = [], su_nextID = 0, su_spawned = 0\<rparr>"

definition next_worker :: "supervisor \<Rightarrow> string" where
  "next_worker s = ''worker-'' @ pad2 (Suc (su_nextID s))"

text \<open>\<open>spawn\<close>, with what \<open>cmd.Start\<close> answers; the ID is used up even when the start fails.\<close>

definition su_spawn :: "string option \<Rightarrow> supervisor \<Rightarrow> string option \<times> supervisor" where
  "su_spawn started s =
     (let i = next_worker s; s1 = s\<lparr>su_nextID := Suc (su_nextID s)\<rparr>
      in case started of
           Some e \<Rightarrow> (Some (''start '' @ i @ '': '' @ e), s1)
         | None \<Rightarrow> (None, s1\<lparr>su_procs := map_put i \<lparr>wp_killed = False, wp_exited = False\<rparr> (su_procs s1),
                            su_spawned := Suc (su_spawned s1)\<rparr>))"

definition su_exited :: "string \<Rightarrow> supervisor \<Rightarrow> supervisor" where
  "su_exited i s =
     (case map_of (su_procs s) i of
        None \<Rightarrow> s | Some p \<Rightarrow> s\<lparr>su_procs := map_put i (p\<lparr>wp_exited := True\<rparr>) (su_procs s)\<rparr>)"

text \<open>The hook: whom it picks, and what its goroutine does after the delay.\<close>

definition chaos_target :: "started_args \<Rightarrow> bool" where
  "chaos_target a \<longleftrightarrow> (j_InjectFailure (sa_Job a) = InjectPoison \<or>
     (j_InjectFailure (sa_Job a) = InjectHang \<and> sa_Attempt a = 1))"

definition chaos_mark :: "string \<Rightarrow> supervisor \<Rightarrow> supervisor" where
  "chaos_mark i s =
     (case map_of (su_procs s) i of
        None \<Rightarrow> s
      | Some p \<Rightarrow> (if \<not> wp_killed p then s\<lparr>su_procs := map_put i (p\<lparr>wp_killed := True\<rparr>) (su_procs s)\<rparr> else s))"

definition chaos_kill :: "string \<Rightarrow> string option \<Rightarrow> supervisor \<Rightarrow> supervisor" where
  "chaos_kill i started s = snd (su_spawn started (chaos_mark i s))"

definition su_alive :: "supervisor \<Rightarrow> nat" where
  "su_alive s = length (filter (\<lambda>(_, p). \<not> wp_exited p) (su_procs s))"

text \<open>
  The main loop receives the exit of worker \<open>i\<close>: it goes on, leaves the loop, or sleeps 200
  milliseconds; a missing map entry would be a nil dereference.
\<close>

datatype exit_verdict = GoOn | Leave | Grace | NilDereference

definition exit_received :: "bool \<Rightarrow> string \<Rightarrow> supervisor \<Rightarrow> exit_verdict" where
  "exit_received done i s =
     (case map_of (su_procs s) i of
        None \<Rightarrow> NilDereference
      | Some p \<Rightarrow> (if wp_killed p then GoOn else if done then Leave else Grace))"

text \<open>At the deadline the stragglers are killed.\<close>

definition stragglers :: "supervisor \<Rightarrow> string list" where
  "stragglers s = map fst (filter (\<lambda>(_, p). \<not> wp_exited p) (su_procs s))"

section \<open>The coordinator\<close>

text \<open>A goroutine of the hook first kills, under the lock, and then calls \<open>spawn\<close>.\<close>

datatype hook = Kill string | Respawn

definition started_hook :: "started_args \<Rightarrow> bool \<Rightarrow> hook list" where
  "started_hook args duplicate =
     (if \<not> duplicate \<and> chaos_target args then [Kill (sa_WorkerID args)] else [])"

datatype run_error = SubmitError sqs_submit_error | StartError string | NoWorkers string

text \<open>
  The points of the main goroutine: jobs left to submit, workers left to start, the select loop,
  the sleep after an unexpected exit, the wait for the last workers, the return, and a panic.
\<close>

datatype coord_pc =
    CSubmit "job list"
  | CSpawn nat
  | CLoop
  | CGrace string
  | CDrain "run_error option"
  | CReturn "run_error option"
  | CPanic

fun after_exit :: "string \<Rightarrow> exit_verdict \<Rightarrow> coord_pc" where
  "after_exit i GoOn = CLoop"
| "after_exit i Leave = CDrain None"
| "after_exit i Grace = CGrace i"
| "after_exit i NilDereference = CPanic"

definition after_grace :: "string \<Rightarrow> supervisor \<Rightarrow> coord_pc" where
  "after_grace i s = (if su_alive s = 0 then CDrain (Some (NoWorkers i)) else CLoop)"

record coord_run =
  rn_sys :: sqs_sys
  rn_su :: supervisor
  rn_exits :: "string list"
  rn_hooks :: "hook list"
  rn_main :: coord_pc

definition start_sqs ::
  "agent \<Rightarrow> recorder option \<Rightarrow> queues \<Rightarrow> int \<Rightarrow> int \<Rightarrow> job list \<Rightarrow> coord_run" where
  "start_sqs agent rec qs chaosPoison chaosHang jobs =
     \<lparr>rn_sys = init_sqs agent rec qs, rn_su = init_supervisor, rn_exits = [], rn_hooks = [],
      rn_main = CSubmit (chaos_jobs chaosPoison chaosHang jobs)\<rparr>"

text \<open>Nothing of the process runs on once the main goroutine has returned.\<close>

fun returned :: "coord_pc \<Rightarrow> bool" where
  "returned (CReturn r) = True"
| "returned CPanic = True"
| "returned pc = False"

fun submitting :: "coord_pc \<Rightarrow> bool" where
  "submitting (CSubmit jobs) = True"
| "submitting pc = False"

inductive run_step :: "nat \<Rightarrow> coord_run \<Rightarrow> coord_run \<Rightarrow> bool" for workers where
  submits: "rn_main s = CSubmit (job # jobs) \<Longrightarrow> sqs_step (rn_sys s) (Submits job None) sys \<Longrightarrow>
     run_step workers s (s\<lparr>rn_sys := sys, rn_main := CSubmit jobs\<rparr>)"
| submit_fails: "rn_main s = CSubmit (job # jobs) \<Longrightarrow> sqs_step (rn_sys s) (Submits job (Some e)) sys \<Longrightarrow>
     run_step workers s (s\<lparr>rn_sys := sys, rn_main := CReturn (Some (SubmitError e))\<rparr>)"
| closes: "rn_main s = CSubmit [] \<Longrightarrow> sqs_step (rn_sys s) Closes sys \<Longrightarrow>
     run_step workers s (s\<lparr>rn_sys := sys, rn_main := CSpawn workers\<rparr>)"
| starts_worker: "rn_main s = CSpawn (Suc n) \<Longrightarrow> su_spawn None (rn_su s) = (None, su) \<Longrightarrow>
     sqs_step (rn_sys s) (Spawns (next_worker (rn_su s))) sys \<Longrightarrow>
     run_step workers s (s\<lparr>rn_sys := sys, rn_su := su, rn_main := CSpawn n\<rparr>)"
| start_fails: "rn_main s = CSpawn (Suc n) \<Longrightarrow> su_spawn (Some e) (rn_su s) = (Some err, su) \<Longrightarrow>
     run_step workers s (s\<lparr>rn_su := su, rn_main := CReturn (Some (StartError err))\<rparr>)"
| all_started: "rn_main s = CSpawn 0 \<Longrightarrow> run_step workers s (s\<lparr>rn_main := CLoop\<rparr>)"
| works: "\<not> returned (rn_main s) \<Longrightarrow> sqs_step (rn_sys s) Works sys \<Longrightarrow> run_step workers s (s\<lparr>rn_sys := sys\<rparr>)"
| calls_started: "\<not> returned (rn_main s) \<Longrightarrow> sqs_step (rn_sys s) (Starts args dup) sys \<Longrightarrow>
     run_step workers s (s\<lparr>rn_sys := sys, rn_hooks := rn_hooks s @ started_hook args dup\<rparr>)"
| watches: "\<not> returned (rn_main s) \<Longrightarrow> \<not> submitting (rn_main s) \<Longrightarrow>
     sqs_step (rn_sys s) Watches sys \<Longrightarrow> run_step workers s (s\<lparr>rn_sys := sys\<rparr>)"
| hook_kills: "\<not> returned (rn_main s) \<Longrightarrow> rn_hooks s = us @ Kill i # vs \<Longrightarrow>
     run_step workers s (s\<lparr>rn_su := chaos_mark i (rn_su s), rn_hooks := us @ Respawn # vs\<rparr>)"
| hook_respawns: "\<not> returned (rn_main s) \<Longrightarrow> rn_hooks s = us @ Respawn # vs \<Longrightarrow>
     su_spawn None (rn_su s) = (None, su) \<Longrightarrow> sqs_step (rn_sys s) (Spawns (next_worker (rn_su s))) sys \<Longrightarrow>
     run_step workers s (s\<lparr>rn_sys := sys, rn_su := su, rn_hooks := us @ vs\<rparr>)"
| hook_fails: "\<not> returned (rn_main s) \<Longrightarrow> rn_hooks s = us @ Respawn # vs \<Longrightarrow>
     su_spawn (Some e) (rn_su s) = (Some err, su) \<Longrightarrow>
     run_step workers s (s\<lparr>rn_su := su, rn_hooks := us @ vs\<rparr>)"
| worker_exits: "\<not> returned (rn_main s) \<Longrightarrow> sqs_step (rn_sys s) (Gone i) sys \<Longrightarrow>
     run_step workers s (s\<lparr>rn_sys := sys, rn_su := su_exited i (rn_su s), rn_exits := rn_exits s @ [i]\<rparr>)"
| sees_done: "rn_main s = CLoop \<Longrightarrow> co_done (sy_coord (rn_sys s)) \<Longrightarrow>
     run_step workers s (s\<lparr>rn_main := CDrain None\<rparr>)"
| sees_exit: "rn_main s = CLoop \<Longrightarrow> rn_exits s = i # exits \<Longrightarrow>
     run_step workers s (s\<lparr>rn_exits := exits,
       rn_main := after_exit i (exit_received (co_done (sy_coord (rn_sys s))) i (rn_su s))\<rparr>)"
| grace_ends: "rn_main s = CGrace i \<Longrightarrow> run_step workers s (s\<lparr>rn_main := after_grace i (rn_su s)\<rparr>)"
| drains: "rn_main s = CDrain err \<Longrightarrow> su_alive (rn_su s) \<noteq> 0 \<Longrightarrow> rn_exits s = i # exits \<Longrightarrow>
     run_step workers s (s\<lparr>rn_exits := exits\<rparr>)"
| returns: "rn_main s = CDrain err \<Longrightarrow> su_alive (rn_su s) = 0 \<Longrightarrow>
     run_step workers s (s\<lparr>rn_main := CReturn err\<rparr>)"

inductive run_reachable :: "nat \<Rightarrow> coord_run \<Rightarrow> coord_run \<Rightarrow> bool" for workers s0 where
  start: "run_reachable workers s0 s0"
| step: "run_reachable workers s0 s \<Longrightarrow> run_step workers s s' \<Longrightarrow> run_reachable workers s0 s'"

end
