(* ===== verification/SqsInv.thy ===== *)
theory SqsInv
  imports SqsWorker
begin

text \<open>
  The invariants of the SQS back end: the coordinator's books (every terminal state counted
  once, \<open>Done\<close> exactly when all submitted jobs are terminal) and the safety of the deletes: a
  worker about to delete a message either knows the job is terminal or has sent a newer message
  for it.
\<close>

section \<open>The coordinator\<close>

definition coord_ids :: "sqs_coord \<Rightarrow> string set" where
  "coord_ids c = fst ` set (co_jobs c)"

definition terminal_ids :: "sqs_coord \<Rightarrow> string set" where
  "terminal_ids c = fst ` set (co_terminal c)"

definition coord_books :: "sqs_coord \<Rightarrow> bool" where
  "coord_books c \<longleftrightarrow> distinct_keys (co_terminal c) \<and>
     length (co_terminal c) = ss_Succeeded (co_stats c) + ss_Escalated (co_stats c) + ss_DeadLettered (co_stats c) \<and>
     distinct_keys (co_jobs c) \<and> ss_Submitted (co_stats c) = length (co_jobs c) \<and>
     terminal_ids c \<subseteq> coord_ids c \<and>
     (co_done c \<longrightarrow> co_closed c \<and> ss_Submitted (co_stats c) \<le> length (co_terminal c))"

definition coord_inv :: "sqs_coord \<Rightarrow> bool" where
  "coord_inv c \<longleftrightarrow> coord_books c \<and>
     (co_closed c \<and> ss_Submitted (co_stats c) \<le> length (co_terminal c) \<longrightarrow> co_done c)"

lemma coord_record_simps [simp]:
  "co_jobs (coord_record now j t w a d c) = co_jobs c" "co_terminal (coord_record now j t w a d c) = co_terminal c"
  "co_stats (coord_record now j t w a d c) = co_stats c" "co_closed (coord_record now j t w a d c) = co_closed c"
  "co_done (coord_record now j t w a d c) = co_done c" "co_agent (coord_record now j t w a d c) = co_agent c"
  "co_released (coord_record now j t w a d c) = co_released c"
  by (simp_all add: coord_record_def)

lemma coord_recordTriage_simps [simp]:
  "co_jobs (coord_recordTriage now j a d c) = co_jobs c" "co_terminal (coord_recordTriage now j a d c) = co_terminal c"
  "co_stats (coord_recordTriage now j a d c) = co_stats c" "co_closed (coord_recordTriage now j a d c) = co_closed c"
  "co_released (coord_recordTriage now j a d c) = co_released c"
  "co_done (coord_recordTriage now j a d c) = co_done c" "co_agent (coord_recordTriage now j a d c) = co_agent c"
  by (simp_all add: coord_recordTriage_def)

lemma count_stat_simps [simp]:
  "co_jobs (count_stat f c) = co_jobs c" "co_terminal (count_stat f c) = co_terminal c"
  "co_stats (count_stat f c) = f (co_stats c)" "co_closed (count_stat f c) = co_closed c"
  "co_done (count_stat f c) = co_done c" "co_agent (count_stat f c) = co_agent c"
  "co_released (count_stat f c) = co_released c"
  by (simp_all add: count_stat_def)

lemma set_terminal_simps [simp]:
  "co_jobs (set_terminal i o1 c) = co_jobs c" "co_terminal (set_terminal i o1 c) = map_put i o1 (co_terminal c)"
  "co_stats (set_terminal i o1 c) = co_stats c" "co_closed (set_terminal i o1 c) = co_closed c"
  "co_done (set_terminal i o1 c) = co_done c" "co_agent (set_terminal i o1 c) = co_agent c"
  by (simp_all add: set_terminal_def)

lemma maybeDone_simps [simp]:
  "co_jobs (coord_maybeDone c) = co_jobs c" "co_terminal (coord_maybeDone c) = co_terminal c"
  "co_stats (coord_maybeDone c) = co_stats c" "co_closed (coord_maybeDone c) = co_closed c"
  "co_agent (coord_maybeDone c) = co_agent c" "co_released (coord_maybeDone c) = co_released c"
  "coord_ids (coord_maybeDone c) = coord_ids c" "terminal_ids (coord_maybeDone c) = terminal_ids c"
  by (simp_all add: coord_maybeDone_def coord_ids_def terminal_ids_def)

lemma ids_simps [simp]:
  "coord_ids (coord_record now j t w a d c) = coord_ids c"
  "terminal_ids (coord_record now j t w a d c) = terminal_ids c"
  "coord_ids (count_stat f c) = coord_ids c" "terminal_ids (count_stat f c) = terminal_ids c"
  "coord_ids (coord_recordTriage now j a1 d1 c) = coord_ids c"
  "terminal_ids (coord_recordTriage now j a1 d1 c) = terminal_ids c"
  "coord_ids (set_terminal i o1 c) = coord_ids c"
  by (simp_all add: coord_ids_def terminal_ids_def)

lemma terminal_ids_lookup: "i \<in> terminal_ids c \<longleftrightarrow> map_of (co_terminal c) i \<noteq> None"
  by (simp add: terminal_ids_def map_of_eq_None_iff)

lemma terminal_ids_put: "terminal_ids (set_terminal i o1 c) = insert i (terminal_ids c)"
  by (auto simp: terminal_ids_lookup split: if_splits)

lemma maybeDone_done [simp]: "co_done c \<Longrightarrow> co_done (coord_maybeDone c)"
  by (simp add: coord_maybeDone_def)

lemma coord_inv_maybeDone: "coord_books c \<Longrightarrow> coord_inv (coord_maybeDone c)"
  by (auto simp: coord_inv_def coord_books_def coord_maybeDone_def terminal_ids_def coord_ids_def)

text \<open>A job becomes terminal once: the three ways are counted apart.\<close>

lemma coord_books_terminal:
  assumes "coord_books c" and "map_of (co_terminal c) i = None" and "i \<in> coord_ids c"
    and "f = (\<lambda>s. s\<lparr>ss_Succeeded := Suc (ss_Succeeded s)\<rparr>) \<or> f = (\<lambda>s. s\<lparr>ss_Escalated := Suc (ss_Escalated s)\<rparr>) \<or>
      f = (\<lambda>s. s\<lparr>ss_DeadLettered := Suc (ss_DeadLettered s)\<rparr>)"
  shows "coord_books (count_stat f (set_terminal i o1 c))"
proof -
  have l: "map_put i o1 (co_terminal c) = co_terminal c @ [(i, o1)]" using assms(2) by (rule map_put_fresh)
  have d: "distinct_keys (co_terminal c @ [(i, o1)])"
    using assms(1) map_of_NoneD [OF assms(2)] by (simp add: coord_books_def)
  show ?thesis using assms(1,3,4) d
    by (auto simp: coord_books_def l terminal_ids_put)
qed

lemma coord_books_count:
  assumes "coord_books c" and "\<And>s. ss_Submitted (f s) = ss_Submitted s" and "\<And>s. ss_Succeeded (f s) = ss_Succeeded s"
    and "\<And>s. ss_Escalated (f s) = ss_Escalated s" and "\<And>s. ss_DeadLettered (f s) = ss_DeadLettered s"
  shows "coord_books (count_stat f c)"
  using assms by (auto simp: coord_books_def)

lemma coord_books_record [simp]:
  "coord_books (coord_record now j t w a d c) = coord_books c"
  "coord_books (coord_recordTriage now j a1 d1 c) = coord_books c"
  by (simp_all add: coord_books_def)

lemma coord_books_released [simp]: "coord_books (c\<lparr>co_released := rel\<rparr>) = coord_books c"
  by (simp add: coord_books_def terminal_ids_def coord_ids_def)

text \<open>What every operation after submission does to the identifiers.\<close>

definition coord_next :: "sqs_coord \<Rightarrow> sqs_coord \<Rightarrow> bool" where
  "coord_next c c' \<longleftrightarrow> coord_inv c' \<and> coord_ids c' = coord_ids c \<and> terminal_ids c \<subseteq> terminal_ids c' \<and>
     (\<forall>i o1. map_of (co_terminal c) i = Some o1 \<longrightarrow> map_of (co_terminal c') i = Some o1) \<and>
     (co_done c \<longrightarrow> co_done c') \<and> co_agent c' = co_agent c"

lemma Submit_inv:
  assumes inv: "coord_inv c" and op: "sqs_Submit now job ans c = (err, sent, c')"
    and new: "map_of (co_jobs c) (j_ID job) = None"
  shows "coord_inv c' \<and> coord_ids c \<subseteq> coord_ids c' \<and> terminal_ids c' = terminal_ids c \<and>
    co_terminal c' = co_terminal c \<and> (err = None \<longrightarrow> j_ID job \<in> coord_ids c') \<and>
    (\<forall>job'. sent = Some job' \<longrightarrow> j_ID job' = j_ID job) \<and> (co_done c \<longrightarrow> co_done c')"
proof -
  have pid: "j_ID (prepare_job now job) = j_ID job" by (simp add: prepare_job_def Let_def)
  show ?thesis
  proof (cases "batch_Validate (j_Inference job) = None \<and> \<not> co_closed c")
    case False
    then have "c' = c \<and> err \<noteq> None \<and> sent = None" using op by (auto simp: sqs_Submit_def split: option.splits if_splits)
    then show ?thesis using inv by auto
  next
    case True
    then have s: "co_jobs c' = co_jobs c @ [(j_ID job, prepare_job now job)]"
      "co_stats c' = (co_stats c)\<lparr>ss_Submitted := Suc (ss_Submitted (co_stats c))\<rparr>"
      "co_terminal c' = co_terminal c" "co_closed c' = co_closed c" "co_done c' = co_done c"
      "sent = Some (prepare_job now job)"
      using op new pid
      by (auto simp: sqs_Submit_def Let_def map_put_fresh simp del: batch_Validate_None split: option.splits)
    have "\<not> co_done c" using inv True by (auto simp: coord_inv_def coord_books_def)
    moreover have "coord_ids c' = insert (j_ID job) (coord_ids c)" by (simp add: coord_ids_def s)
    moreover have "terminal_ids c' = terminal_ids c" by (simp add: terminal_ids_def s)
    moreover have "distinct_keys (co_jobs c')" using inv map_of_NoneD [OF new] by (simp add: s coord_inv_def coord_books_def)
    ultimately show ?thesis using inv True pid by (auto simp: coord_inv_def coord_books_def s)
  qed
qed

lemma Close_inv: "coord_inv c \<Longrightarrow> coord_next c (sqs_CloseSubmissions c)"
proof -
  assume "coord_inv c"
  then have "coord_books (c\<lparr>co_closed := True\<rparr>)"
    by (auto simp: coord_inv_def coord_books_def terminal_ids_def coord_ids_def)
  from coord_inv_maybeDone [OF this] show "coord_next c (sqs_CloseSubmissions c)"
    by (simp add: sqs_CloseSubmissions_def coord_next_def) (simp add: terminal_ids_def coord_ids_def)
qed

lemma coord_next_same:
  assumes "coord_inv c" and "co_jobs c' = co_jobs c" and "co_terminal c' = co_terminal c"
    and "co_closed c' = co_closed c" and "co_done c' = co_done c" and "co_agent c' = co_agent c"
    and "ss_Submitted (co_stats c') = ss_Submitted (co_stats c)" and "ss_Succeeded (co_stats c') = ss_Succeeded (co_stats c)"
    and "ss_Escalated (co_stats c') = ss_Escalated (co_stats c)" and "ss_DeadLettered (co_stats c') = ss_DeadLettered (co_stats c)"
  shows "coord_next c c'"
  using assms by (auto simp: coord_next_def coord_inv_def coord_books_def terminal_ids_def coord_ids_def)

lemma Started_inv:
  assumes "coord_inv c" and "sqs_Started now args c = (dup, c')"
  shows "coord_next c c' \<and> (dup \<longrightarrow> j_ID (sa_Job args) \<in> terminal_ids c')"
proof (cases "map_of (co_terminal c) (j_ID (sa_Job args))")
  case None
  then have "\<not> dup" using assms(2) by (simp add: sqs_Started_def Let_def)
  moreover have "coord_next c c'"
    by (rule coord_next_same [OF assms(1)]) (use assms(2) None in \<open>auto simp: sqs_Started_def Let_def split: if_splits\<close>)
  ultimately show ?thesis by simp
next
  case (Some o1)
  then have "co_terminal c' = co_terminal c" using assms(2) by (auto simp: sqs_Started_def Let_def)
  with Some have "j_ID (sa_Job args) \<in> terminal_ids c'" by (simp add: terminal_ids_lookup)
  moreover have "coord_next c c'"
    by (rule coord_next_same [OF assms(1)]) (use assms(2) Some in \<open>auto simp: sqs_Started_def Let_def\<close>)
  ultimately show ?thesis by simp
qed

lemma duplicate_inv:
  "coord_inv c \<Longrightarrow> coord_next c (count_stat (\<lambda>s. s\<lparr>ss_Duplicates := Suc (ss_Duplicates s)\<rparr>) c)"
  by (rule coord_next_same) simp_all

lemma coord_next_terminal:
  assumes "coord_inv c" and "map_of (co_terminal c) i = None" and "i \<in> coord_ids c"
    and "f = (\<lambda>s. s\<lparr>ss_Succeeded := Suc (ss_Succeeded s)\<rparr>) \<or> f = (\<lambda>s. s\<lparr>ss_Escalated := Suc (ss_Escalated s)\<rparr>) \<or>
      f = (\<lambda>s. s\<lparr>ss_DeadLettered := Suc (ss_DeadLettered s)\<rparr>)"
  shows "coord_next c (coord_maybeDone (coord_record now j t w a d (count_stat f (set_terminal i o1 c)))) \<and>
    i \<in> terminal_ids (coord_maybeDone (coord_record now j t w a d (count_stat f (set_terminal i o1 c))))"
proof -
  have "coord_books c" using assms(1) by (simp add: coord_inv_def)
  from coord_books_terminal [OF this assms(2-4)]
  have "coord_inv (coord_maybeDone (coord_record now j t w a d (count_stat f (set_terminal i o1 c))))"
    by (intro coord_inv_maybeDone) simp
  then show ?thesis using assms(2) by (auto simp: coord_next_def terminal_ids_put)
qed

lemma Report_begin_inv:
  assumes inv: "coord_inv c" and op: "sqs_Report_begin now args c = (r, c')"
    and known: "j_ID (sr_Job args) \<in> coord_ids c"
  shows "coord_next c c' \<and> (r \<noteq> None \<longrightarrow> j_ID (sr_Job args) \<in> terminal_ids c') \<and>
    (\<forall>reply. r = Some reply \<longrightarrow> rr_Duplicate reply \<or> sr_Success args)"
proof (cases "map_of (co_terminal c) (j_ID (sr_Job args))")
  case (Some o1)
  then show ?thesis using op duplicate_inv [OF inv]
    by (auto simp: sqs_Report_begin_def Let_def terminal_ids_lookup)
next
  case None
  show ?thesis
  proof (cases "sr_Success args")
    case True
    then show ?thesis using op None coord_next_terminal [OF inv None known]
      by (auto simp: sqs_Report_begin_def Let_def terminal_ids_put)
  next
    case False
    have "coord_next c c'"
      by (rule coord_next_same [OF inv]) (use op None False in \<open>auto simp: sqs_Report_begin_def Let_def\<close>)
    then show ?thesis using op None False by (auto simp: sqs_Report_begin_def Let_def)
  qed
qed

text \<open>The reply of the second section: an escalation has made the job terminal.\<close>

lemma coord_next_trans: "coord_next c c1 \<Longrightarrow> coord_next c1 c2 \<Longrightarrow> coord_next c c2"
  by (auto simp: coord_next_def)

lemma coord_next_maybeDone: "coord_next c c' \<Longrightarrow> coord_next c (coord_maybeDone c')"
proof -
  assume n: "coord_next c c'"
  then have "coord_inv (coord_maybeDone c')" by (intro coord_inv_maybeDone) (simp add: coord_next_def coord_inv_def)
  with n show "coord_next c (coord_maybeDone c')" by (simp add: coord_next_def)
qed

lemma Report_finish_inv:
  assumes inv: "coord_inv c" and op: "sqs_Report_finish now args d c = (reply, c')"
    and known: "j_ID (sr_Job args) \<in> coord_ids c" and valid: "valid_decision d"
  shows "coord_next c c' \<and> (rr_Duplicate reply \<longrightarrow> j_ID (sr_Job args) \<in> terminal_ids c') \<and>
    (\<not> rr_Duplicate reply \<longrightarrow> rr_Decision reply = Some d) \<and>
    (\<not> rr_Duplicate reply \<and> d_Action d \<noteq> Retry \<and> d_Action d \<noteq> AutoAdjust \<longrightarrow> j_ID (sr_Job args) \<in> terminal_ids c')"
proof (cases "map_of (co_terminal c) (j_ID (sr_Job args))")
  case (Some o1)
  then show ?thesis using op duplicate_inv [OF inv]
    by (auto simp: sqs_Report_finish_def Let_def terminal_ids_lookup)
next
  case None
  let ?c = "coord_recordTriage now (sr_Job args) args d c"
  have c': "c' = coord_maybeDone (sqs_apply now args d ?c)"
    and r: "reply = \<lparr>rr_Duplicate = False, rr_Decision = Some d\<rparr>"
    using op None by (auto simp: sqs_Report_finish_def Let_def)
  have n0: "coord_next c ?c" by (rule coord_next_same [OF inv]) simp_all
  then have inv1: "coord_inv ?c" by (simp add: coord_next_def)
  have acts: "d_Action d = Retry \<or> d_Action d = AutoAdjust \<or> d_Action d = Escalate"
    using valid by (auto simp: valid_decision_def)
  show ?thesis
  proof (cases "d_Action d = Escalate")
    case True
    then have "c' = coord_maybeDone (coord_record now (sr_Job args) ''escalated'' (sr_WorkerID args) (sr_Attempt args)
        (Text (d_Reason d)) (count_stat (\<lambda>s. s\<lparr>ss_Escalated := Suc (ss_Escalated s)\<rparr>)
          (set_terminal (j_ID (sr_Job args)) ''escalated'' ?c)))"
      by (simp add: c' sqs_apply_def Let_def Retry_def AutoAdjust_def Escalate_def)
    then have "coord_next ?c c' \<and> j_ID (sr_Job args) \<in> terminal_ids c'"
      using coord_next_terminal [OF inv1, of "j_ID (sr_Job args)"] None known by (simp add: terminal_ids_put)
    then show ?thesis using coord_next_trans [OF n0] r by auto
  next
    case False
    have "coord_next ?c (sqs_apply now args d ?c)"
      by (rule coord_next_same [OF inv1]) (use acts False in \<open>auto simp: sqs_apply_def Let_def\<close>)
    from coord_next_trans [OF n0 coord_next_maybeDone [OF this]] show ?thesis
      using acts False r by (auto simp: c')
  qed
qed

lemma bury_inv:
  assumes "coord_books c" and "j_ID (dd_Job d) \<in> coord_ids c"
  shows "coord_books (bury_one now d c) \<and> coord_ids (bury_one now d c) = coord_ids c \<and>
    terminal_ids c \<subseteq> terminal_ids (bury_one now d c) \<and> co_agent (bury_one now d c) = co_agent c \<and>
    co_done (bury_one now d c) = co_done c \<and>
    (\<forall>i o1. map_of (co_terminal c) i = Some o1 \<longrightarrow> map_of (co_terminal (bury_one now d c)) i = Some o1)"
proof (cases "map_of (co_terminal c) (j_ID (dd_Job d))")
  case (Some o1)
  then show ?thesis using assms by (simp add: bury_one_def Let_def)
next
  case None
  then show ?thesis using assms coord_books_terminal [OF assms(1) None assms(2)]
    by (auto simp: bury_one_def Let_def terminal_ids_put)
qed

lemma fold_bury_inv:
  "coord_books c \<Longrightarrow> \<forall>d \<in> set dead. j_ID (dd_Job d) \<in> coord_ids c \<Longrightarrow>
   coord_books (fold (bury_one now) dead c) \<and> coord_ids (fold (bury_one now) dead c) = coord_ids c \<and>
   terminal_ids c \<subseteq> terminal_ids (fold (bury_one now) dead c) \<and> co_agent (fold (bury_one now) dead c) = co_agent c \<and>
   co_done (fold (bury_one now) dead c) = co_done c \<and>
   (\<forall>i o1. map_of (co_terminal c) i = Some o1 \<longrightarrow> map_of (co_terminal (fold (bury_one now) dead c)) i = Some o1)"
proof (induction dead arbitrary: c)
  case (Cons d dead)
  then have "j_ID (dd_Job d) \<in> coord_ids c" by simp
  note b = bury_inv [OF Cons.prems(1) this, of now]
  then show ?case using Cons.IH [of "bury_one now d c"] Cons.prems(2) by auto
qed simp

lemma watch_inv:
  assumes "coord_inv c" and "\<forall>d \<in> set dead. j_ID (dd_Job d) \<in> coord_ids c"
  shows "coord_next c (watch_round now (Inr dead) c)"
proof -
  have "coord_books c" using assms(1) by (simp add: coord_inv_def)
  from fold_bury_inv [OF this assms(2), of now] show ?thesis
    by (simp add: watch_round_def coord_next_def coord_inv_maybeDone)
qed

end
