(* ===== verification/SqsSystem.thy ===== *)
theory SqsSystem
  imports SqsInv
begin

text \<open>
  The invariant of the whole back end and its preservation. \<open>ids\<close> are the identifiers of the
  submitted jobs, \<open>fin\<close> of the terminal ones; a message of a job is \<open>covered\<close> when deleting it
  cannot lose the job: the job is terminal, or a newer message for it was sent.
\<close>

section \<open>The invariant\<close>

definition covered :: "string set \<Rightarrow> (nat \<times> job) list \<Rightarrow> nat \<Rightarrow> string \<Rightarrow> bool" where
  "covered fin pool m i \<longleftrightarrow> i \<in> fin \<or> (\<exists>(m', j) \<in> set pool. m < m' \<and> j_ID j = i)"

fun pc_delivery :: "worker_pc \<Rightarrow> delivery option" where
  "pc_delivery WLoop = None"
| "pc_delivery WPoll = None"
| "pc_delivery (WGot d) = Some d"
| "pc_delivery (WRun d) = Some d"
| "pc_delivery (WStall d) = Some d"
| "pc_delivery (WReport d args) = Some d"
| "pc_delivery (WTriage d args) = Some d"
| "pc_delivery (WAck d) = Some d"
| "pc_delivery (WRelease d) = Some d"
| "pc_delivery (WResend d job) = Some d"
| "pc_delivery (WExit e) = None"

definition held_ok :: "string set \<Rightarrow> (nat \<times> job) list \<Rightarrow> nat \<Rightarrow> nat \<Rightarrow> delivery \<Rightarrow> bool" where
  "held_ok ids pool nxt m d \<longleftrightarrow> m < nxt \<and> j_ID (dl_Job d) \<in> ids \<and>
     (\<forall>j. (m, j) \<in> set pool \<longrightarrow> j_ID j = j_ID (dl_Job d))"

definition pc_ok :: "string set \<Rightarrow> (nat \<times> job) list \<Rightarrow> nat \<Rightarrow> worker_pc \<Rightarrow> bool" where
  "pc_ok fin pool m pc \<longleftrightarrow> (case pc of
       WReport d args \<Rightarrow> sr_Job args = dl_Job d
     | WTriage d args \<Rightarrow> sr_Job args = dl_Job d
     | WResend d job \<Rightarrow> j_ID job = j_ID (dl_Job d)
     | WAck d \<Rightarrow> covered fin pool m (j_ID (dl_Job d))
     | _ \<Rightarrow> True)"

definition worker_ok :: "string set \<Rightarrow> string set \<Rightarrow> (nat \<times> job) list \<Rightarrow> nat \<Rightarrow> sqs_worker \<Rightarrow> bool" where
  "worker_ok ids fin pool nxt w \<longleftrightarrow>
     (case pc_delivery (wk_pc w) of None \<Rightarrow> True | Some d \<Rightarrow> held_ok ids pool nxt (wk_mid w) d) \<and>
     pc_ok fin pool (wk_mid w) (wk_pc w)"

definition pool_ok :: "string set \<Rightarrow> string set \<Rightarrow> (nat \<times> job) list \<Rightarrow> nat \<Rightarrow> string list \<Rightarrow> bool" where
  "pool_ok ids fin pool nxt acc \<longleftrightarrow> distinct_keys pool \<and> (\<forall>(m, j) \<in> set pool. m < nxt \<and> j_ID j \<in> ids) \<and>
     (\<forall>i \<in> set acc. i \<in> fin \<or> (\<exists>(m, j) \<in> set pool. j_ID j = i))"

definition sqs_inv :: "sqs_sys \<Rightarrow> bool" where
  "sqs_inv s \<longleftrightarrow> coord_inv (sy_coord s) \<and>
     pool_ok (coord_ids (sy_coord s)) (terminal_ids (sy_coord s)) (sy_pool s) (sy_next s) (sy_accepted s) \<and>
     (\<forall>w \<in> set (sy_workers s).
        worker_ok (coord_ids (sy_coord s)) (terminal_ids (sy_coord s)) (sy_pool s) (sy_next s) w)"

section \<open>What grows\<close>

lemma covered_mono: "covered fin pool m i \<Longrightarrow> fin \<subseteq> fin' \<Longrightarrow> set pool \<subseteq> set pool' \<Longrightarrow> covered fin' pool' m i"
  by (fastforce simp: covered_def)

lemma pc_ok_mono: "pc_ok fin pool m pc \<Longrightarrow> fin \<subseteq> fin' \<Longrightarrow> set pool \<subseteq> set pool' \<Longrightarrow> pc_ok fin' pool' m pc"
  by (cases pc) (auto simp: pc_ok_def intro: covered_mono)

lemma worker_ok_ids:
  "worker_ok ids fin pool nxt w \<Longrightarrow> ids \<subseteq> ids' \<Longrightarrow> fin \<subseteq> fin' \<Longrightarrow> worker_ok ids' fin' pool nxt w"
  by (auto simp: worker_ok_def held_ok_def intro: pc_ok_mono split: option.splits)

lemma pool_ok_ids:
  "pool_ok ids fin pool nxt acc \<Longrightarrow> ids \<subseteq> ids' \<Longrightarrow> fin \<subseteq> fin' \<Longrightarrow> pool_ok ids' fin' pool nxt acc"
  by (fastforce simp: pool_ok_def)

lemma worker_ok_send:
  assumes "worker_ok ids fin pool nxt w"
  shows "worker_ok ids fin (pool @ [(nxt, job)]) (Suc nxt) w"
proof -
  have "pc_ok fin (pool @ [(nxt, job)]) (wk_mid w) (wk_pc w)"
    using assms pc_ok_mono [of fin pool _ _ fin "pool @ [(nxt, job)]"] by (auto simp: worker_ok_def)
  then show ?thesis using assms by (auto simp: worker_ok_def held_ok_def split: option.splits)
qed

lemma pool_ok_send:
  "pool_ok ids fin pool nxt acc \<Longrightarrow> j_ID job \<in> ids \<Longrightarrow> pool_ok ids fin (pool @ [(nxt, job)]) (Suc nxt) acc"
  by (fastforce simp: pool_ok_def)

text \<open>Deleting a covered message keeps every other message covered.\<close>

lemma set_map_del_iff: "(m', j) \<in> set (map_del m pool) \<longleftrightarrow> (m', j) \<in> set pool \<and> m' \<noteq> m"
  by (auto simp: AList.delete_eq)

lemma covered_del:
  assumes cov: "covered fin pool k i" and own: "covered fin pool m (j_ID (dl_Job d))"
    and held: "\<forall>j. (m, j) \<in> set pool \<longrightarrow> j_ID j = j_ID (dl_Job d)"
  shows "covered fin (map_del m pool) k i"
proof (cases "i \<in> fin")
  case True
  then show ?thesis by (simp add: covered_def)
next
  case False
  then obtain m1 j1 where 1: "(m1, j1) \<in> set pool" "k < m1" "j_ID j1 = i" using cov by (auto simp: covered_def)
  show ?thesis
  proof (cases "m1 = m")
    case neq: False
    then show ?thesis using 1 by (auto simp: covered_def set_map_del_iff)
  next
    case True
    then have "i = j_ID (dl_Job d)" using held 1 by auto
    then obtain m2 j2 where "(m2, j2) \<in> set pool" "m < m2" "j_ID j2 = i" using own False by (auto simp: covered_def)
    then show ?thesis using True 1(2) unfolding covered_def
      by (intro disjI2 bexI [of _ "(m2, j2)"]) (auto simp: set_map_del_iff)
  qed
qed

lemma worker_ok_del:
  assumes "worker_ok ids fin pool nxt w" and own: "covered fin pool m (j_ID (dl_Job d))"
    and held: "\<forall>j. (m, j) \<in> set pool \<longrightarrow> j_ID j = j_ID (dl_Job d)"
  shows "worker_ok ids fin (map_del m pool) nxt w"
proof -
  have "pc_ok fin (map_del m pool) (wk_mid w) (wk_pc w)"
    using assms(1) covered_del [OF _ own held] by (cases "wk_pc w") (auto simp: worker_ok_def pc_ok_def)
  then show ?thesis using assms(1) by (auto simp: worker_ok_def held_ok_def set_map_del_iff split: option.splits)
qed

lemma pool_ok_del:
  assumes "pool_ok ids fin pool nxt acc" and own: "covered fin pool m (j_ID (dl_Job d))"
    and held: "\<forall>j. (m, j) \<in> set pool \<longrightarrow> j_ID j = j_ID (dl_Job d)"
  shows "pool_ok ids fin (map_del m pool) nxt acc"
proof -
  have "i \<in> fin \<or> (\<exists>(k, j) \<in> set (map_del m pool). j_ID j = i)" if i: "i \<in> set acc" for i
  proof (rule ccontr)
    assume no: "\<not> (i \<in> fin \<or> (\<exists>(k, j) \<in> set (map_del m pool). j_ID j = i))"
    then obtain k j where kj: "(k, j) \<in> set pool" "j_ID j = i" using assms(1) i by (fastforce simp: pool_ok_def)
    then have "k = m" using no by (auto simp: set_map_del_iff)
    then have "i = j_ID (dl_Job d)" using held kj by auto
    then obtain m2 j2 where "(m2, j2) \<in> set pool" "m < m2" "j_ID j2 = i" using own no by (auto simp: covered_def)
    then have "(m2, j2) \<in> set (map_del m pool)" by (simp add: set_map_del_iff)
    then show False using no \<open>j_ID j2 = i\<close> by blast
  qed
  moreover have "distinct_keys (map_del m pool)" using assms(1) by (intro distinct_keys_del) (simp add: pool_ok_def)
  ultimately show ?thesis using assms(1) by (auto simp: pool_ok_def set_map_del_iff)
qed

section \<open>Steps\<close>

lemma worker_ok_pc:
  "wk_pc w = pc \<Longrightarrow> worker_ok ids fin pool nxt w \<Longrightarrow> pc_delivery pc = Some d \<Longrightarrow>
   held_ok ids pool nxt (wk_mid w) d \<and> pc_ok fin pool (wk_mid w) pc"
  by (simp add: worker_ok_def)

lemma at_pc_simps [simp]:
  "wk_pc (at_pc w pc) = pc" "wk_mid (at_pc w pc) = wk_mid w" "wk_ID (at_pc w pc) = wk_ID w"
  by (simp_all add: at_pc_def)

text \<open>A step of the coordinator, a message sent, and a step of one worker with the coordinator.\<close>

lemma sqs_inv_coord:
  assumes "sqs_inv s" and "coord_inv c" and "coord_ids (sy_coord s) \<subseteq> coord_ids c"
    and "terminal_ids (sy_coord s) \<subseteq> terminal_ids c"
  shows "sqs_inv (s\<lparr>sy_coord := c\<rparr>)"
  using assms(1,2) worker_ok_ids [OF _ assms(3,4)] pool_ok_ids [OF _ assms(3,4)] by (simp add: sqs_inv_def)

lemma sqs_inv_send:
  assumes "sqs_inv s" and "j_ID job \<in> coord_ids (sy_coord s)"
  shows "sqs_inv (send_to_pool job s)"
  using assms pool_ok_send [OF _ assms(2)] worker_ok_send by (simp add: sqs_inv_def send_to_pool_def)

lemma sqs_inv_accept:
  assumes "sqs_inv s" and "(m, job) \<in> set (sy_pool s)" and "j_ID job = i"
  shows "sqs_inv (s\<lparr>sy_accepted := sy_accepted s @ [i]\<rparr>)"
  using assms by (auto simp: sqs_inv_def pool_ok_def)

lemma sqs_inv_worker:
  assumes inv: "sqs_inv s" and ws: "sy_workers s = xs @ w # ys" and nx: "coord_next (sy_coord s) c"
    and w': "worker_ok (coord_ids c) (terminal_ids c) (sy_pool s) (sy_next s) w'"
  shows "sqs_inv (s\<lparr>sy_coord := c, sy_workers := xs @ w' # ys\<rparr>)"
proof -
  have "sqs_inv (s\<lparr>sy_coord := c\<rparr>)"
    by (rule sqs_inv_coord [OF inv]) (use nx in \<open>simp_all add: coord_next_def\<close>)
  then show ?thesis using w' by (simp add: sqs_inv_def ws)
qed

lemma coord_next_refl: "coord_inv c \<Longrightarrow> coord_next c c"
  by (simp add: coord_next_def)

lemma sqs_inv_local:
  assumes inv: "sqs_inv s" and ws: "sy_workers s = xs @ w # ys"
    and w': "worker_ok (coord_ids (sy_coord s)) (terminal_ids (sy_coord s)) (sy_pool s) (sy_next s) w'"
  shows "sqs_inv (s\<lparr>sy_workers := xs @ w' # ys\<rparr>)"
proof -
  have "coord_inv (sy_coord s)" using inv by (simp add: sqs_inv_def)
  from sqs_inv_worker [OF inv ws coord_next_refl [OF this] w'] show ?thesis by simp
qed

lemma sqs_inv_held:
  assumes "sqs_inv s" and "sy_workers s = xs @ w # ys" and "wk_pc w = pc" and "pc_delivery pc = Some d"
  shows "held_ok (coord_ids (sy_coord s)) (sy_pool s) (sy_next s) (wk_mid w) d"
    and "pc_ok (terminal_ids (sy_coord s)) (sy_pool s) (wk_mid w) pc"
  using worker_ok_pc [OF assms(3) _ assms(4)] assms(1,2) by (auto simp: sqs_inv_def)

lemma held_ok_ids: "held_ok ids pool nxt m d \<Longrightarrow> coord_next c c' \<Longrightarrow> ids = coord_ids c \<Longrightarrow> held_ok (coord_ids c') pool nxt m d"
  by (simp add: held_ok_def coord_next_def)

lemma replied_ok:
  assumes "held_ok ids pool nxt (wk_mid w) d" and "success \<or> rr_Duplicate reply \<longrightarrow> j_ID (dl_Job d) \<in> fin"
    and "\<not> success \<and> \<not> rr_Duplicate reply \<longrightarrow> (\<exists>dec. rr_Decision reply = Some dec \<and>
      (d_Action dec \<noteq> Retry \<and> d_Action dec \<noteq> AutoAdjust \<longrightarrow> j_ID (dl_Job d) \<in> fin))"
  shows "worker_ok ids fin pool nxt (at_pc w (worker_replied d success reply))"
  using assms
  by (auto simp: worker_ok_def worker_replied_def pc_ok_def covered_def adjusted_job_def split: option.splits)

lemma sqs_step_inv:
  assumes "sqs_step s l s'" and inv: "sqs_inv s"
  shows "sqs_inv s'"
  using assms(1)
proof cases
  case (submit now job job' c)
  have ci: "coord_inv (sy_coord s)" using inv by (simp add: sqs_inv_def)
  note S = Submit_inv [OF ci submit(3,4)]
  then have k: "j_ID job' = j_ID job" "j_ID job \<in> coord_ids c" by simp_all
  have "sqs_inv (s\<lparr>sy_coord := c\<rparr>)" by (rule sqs_inv_coord [OF inv]) (use S in simp_all)
  then have "sqs_inv (send_to_pool job' (s\<lparr>sy_coord := c\<rparr>))" by (rule sqs_inv_send) (use k in simp)
  from sqs_inv_accept [OF this, of "sy_next s" job' "j_ID job"] show ?thesis
    using k unfolding submit(2) by (cases s) (simp add: send_to_pool_def)
next
  case (submit_failed now job ans e sent c)
  have ci: "coord_inv (sy_coord s)" using inv by (simp add: sqs_inv_def)
  note S = Submit_inv [OF ci submit_failed(3,4)]
  show ?thesis unfolding submit_failed(2) by (rule sqs_inv_coord [OF inv]) (use S in simp_all)
next
  case close
  have ci: "coord_inv (sy_coord s)" using inv by (simp add: sqs_inv_def)
  note n = Close_inv [OF ci]
  show ?thesis unfolding close by (rule sqs_inv_coord [OF inv]) (use n in \<open>simp_all add: coord_next_def\<close>)
next
  case (spawn i)
  then show ?thesis using inv by (auto simp: sqs_inv_def worker_ok_def pc_ok_def)
next
  case (crash xs w ys)
  then show ?thesis using inv by (auto simp: sqs_inv_def)
next
  case (receive xs w ys mid job d)
  have m: "mid < sy_next s" "j_ID job \<in> coord_ids (sy_coord s)" "distinct_keys (sy_pool s)"
    using inv receive(5) by (auto simp: sqs_inv_def pool_ok_def)
  have "\<forall>j. (mid, j) \<in> set (sy_pool s) \<longrightarrow> j = job" using eq_key_imp_eq_value [OF m(3) _ receive(5)] by blast
  then show ?thesis unfolding receive(2)
    by (intro sqs_inv_local [OF inv receive(3)])
      (use m receive(6) in \<open>auto simp: worker_ok_def worker_received_def held_ok_def pc_ok_def\<close>)
next
  case (empty xs w ys)
  then show ?thesis using sqs_inv_local [OF inv empty(3)]
    by (simp add: worker_received_def worker_ok_def pc_ok_def)
next
  case (polled xs w ys)
  then show ?thesis using sqs_inv_local [OF inv polled(3)]
    by (simp add: worker_polled_def worker_ok_def pc_ok_def)
next
  case (started xs w ys d now dup c)
  have ci: "coord_inv (sy_coord s)" using inv by (simp add: sqs_inv_def)
  note n = Started_inv [OF ci started(5)] and h = sqs_inv_held(1) [OF inv started(3,4)]
  show ?thesis unfolding started(2)
    by (rule sqs_inv_worker [OF inv started(3)])
      (use n h held_ok_ids in \<open>auto simp: worker_started_def worker_ok_def pc_ok_def covered_def started_args_of_def\<close>)
next
  case (run xs w ys d r0 outcome)
  note h = sqs_inv_held(1) [OF inv run(3,4)]
  show ?thesis unfolding run(2)
    by (rule sqs_inv_local [OF inv run(3)]) (use h in \<open>simp add: worker_ok_def pc_ok_def report_of_def\<close>)
next
  case (report_ends xs w ys d args now reply c)
  have ci: "coord_inv (sy_coord s)" using inv by (simp add: sqs_inv_def)
  note h = sqs_inv_held [OF inv report_ends(3,4)]
  then have args: "sr_Job args = dl_Job d" and known: "j_ID (sr_Job args) \<in> coord_ids (sy_coord s)"
    by (simp_all add: pc_ok_def held_ok_def)
  note R = Report_begin_inv [OF ci report_ends(5) known]
  show ?thesis unfolding report_ends(2)
    by (rule sqs_inv_worker [OF inv report_ends(3)], use R in blast, rule replied_ok)
      (use R h(1) held_ok_ids args in auto)
next
  case (report_triage xs w ys d args now c)
  have ci: "coord_inv (sy_coord s)" using inv by (simp add: sqs_inv_def)
  note h = sqs_inv_held [OF inv report_triage(3,4)]
  then have args: "sr_Job args = dl_Job d" and known: "j_ID (sr_Job args) \<in> coord_ids (sy_coord s)"
    by (simp_all add: pc_ok_def held_ok_def)
  note R = Report_begin_inv [OF ci report_triage(5) known]
  show ?thesis unfolding report_triage(2)
    by (rule sqs_inv_worker [OF inv report_triage(3)], use R in blast)
      (use R h(1) held_ok_ids args in \<open>auto simp: worker_ok_def pc_ok_def\<close>)
next
  case (report_decides xs w ys d args now reply c)
  have ci: "coord_inv (sy_coord s)" using inv by (simp add: sqs_inv_def)
  note h = sqs_inv_held [OF inv report_decides(3,4)]
  then have args: "sr_Job args = dl_Job d" and known: "j_ID (sr_Job args) \<in> coord_ids (sy_coord s)"
    by (simp_all add: pc_ok_def held_ok_def)
  have "valid_decision (sqs_decision (co_agent (sy_coord s)) args)"
    unfolding sqs_decision_def by (rule coordinator_decision_valid)
  note R = Report_finish_inv [OF ci report_decides(5) known this]
  show ?thesis unfolding report_decides(2)
    by (rule sqs_inv_worker [OF inv report_decides(3)], use R in blast, rule replied_ok)
      (use R h(1) held_ok_ids args in auto)
next
  case (ack xs w ys d)
  note h = sqs_inv_held [OF inv ack(3,4)]
  then have cov: "covered (terminal_ids (sy_coord s)) (sy_pool s) (wk_mid w) (j_ID (dl_Job d))"
    and held: "\<forall>j. (wk_mid w, j) \<in> set (sy_pool s) \<longrightarrow> j_ID j = j_ID (dl_Job d)"
    by (simp_all add: pc_ok_def held_ok_def)
  show ?thesis using inv worker_ok_del [OF _ cov held] pool_ok_del [OF _ cov held]
    by (auto simp: ack(2,3) sqs_inv_def worker_acked_def worker_ok_def [of _ _ _ _ "at_pc _ _"] pc_ok_def)
next
  case (release xs w ys d)
  then show ?thesis using sqs_inv_local [OF inv release(3)]
    by (simp add: worker_acked_def worker_ok_def pc_ok_def)
next
  case (resend xs w ys d job)
  note h = sqs_inv_held [OF inv resend(3,4)]
  then have j: "j_ID job = j_ID (dl_Job d)" "j_ID job \<in> coord_ids (sy_coord s)"
    by (simp_all add: pc_ok_def held_ok_def)
  let ?p = "sy_pool s @ [(sy_next s, job)]"
  have w: "worker_ok (coord_ids (sy_coord s)) (terminal_ids (sy_coord s)) ?p (Suc (sy_next s)) (at_pc w (WAck d))"
    using h j by (auto simp: worker_ok_def held_ok_def pc_ok_def covered_def)
  have "pool_ok (coord_ids (sy_coord s)) (terminal_ids (sy_coord s)) ?p (Suc (sy_next s)) (sy_accepted s)"
    using inv j by (intro pool_ok_send) (simp_all add: sqs_inv_def)
  moreover have "worker_ok (coord_ids (sy_coord s)) (terminal_ids (sy_coord s)) ?p (Suc (sy_next s)) v"
    if "v \<in> set (sy_workers s)" for v
    by (rule worker_ok_send) (use inv that in \<open>simp add: sqs_inv_def\<close>)
  ultimately show ?thesis using inv w
    by (simp add: resend(2,3) send_to_pool_def sqs_inv_def worker_resent_def)
next
  case (receive_fails xs w ys e)
  then show ?thesis using sqs_inv_local [OF inv receive_fails(3)]
    by (simp add: worker_received_def worker_ok_def pc_ok_def)
next
  case (ack_fails xs w ys d e)
  then show ?thesis using sqs_inv_local [OF inv ack_fails(3)]
    by (simp add: worker_acked_def worker_ok_def pc_ok_def)
next
  case (resend_fails xs w ys d job e)
  then show ?thesis using sqs_inv_local [OF inv resend_fails(3)]
    by (simp add: worker_resent_def worker_ok_def pc_ok_def)
next
  case (stall_ends xs w ys d)
  then show ?thesis using sqs_inv_local [OF inv stall_ends(3)]
    by (simp add: worker_ok_def pc_ok_def)
next
  case (watch dead now)
  have ci: "coord_inv (sy_coord s)" using inv by (simp add: sqs_inv_def)
  have "\<forall>d \<in> set dead. j_ID (dd_Job d) \<in> coord_ids (sy_coord s)"
    using watch(3) inv by (fastforce simp: sqs_inv_def pool_ok_def)
  note n = watch_inv [OF ci this, of now]
  show ?thesis unfolding watch(2)
    by (rule sqs_inv_coord [OF inv]) (use n in \<open>simp_all add: coord_next_def\<close>)
qed

text \<open>What a step never undoes: a terminal outcome, and \<open>Done\<close>.\<close>

definition keeps :: "sqs_coord \<Rightarrow> sqs_coord \<Rightarrow> bool" where
  "keeps c c' \<longleftrightarrow> (\<forall>i o1. map_of (co_terminal c) i = Some o1 \<longrightarrow> map_of (co_terminal c') i = Some o1) \<and>
     (co_done c \<longrightarrow> co_done c')"

lemma keeps_refl [simp]: "keeps c c"
  by (simp add: keeps_def)

lemma keeps_trans: "keeps c c1 \<Longrightarrow> keeps c1 c2 \<Longrightarrow> keeps c c2"
  by (simp add: keeps_def)

lemma coord_next_keeps: "coord_next c c' \<Longrightarrow> keeps c c'"
  by (simp add: coord_next_def keeps_def)

lemma sqs_step_keeps:
  assumes "sqs_step s l s'" and inv: "sqs_inv s"
  shows "keeps (sy_coord s) (sy_coord s')"
proof -
  have ci: "coord_inv (sy_coord s)" using inv by (simp add: sqs_inv_def)
  show ?thesis using assms(1)
  proof cases
    case (submit now job job' c)
    note S = Submit_inv [OF ci submit(3,4)]
    then have "keeps (sy_coord s) c" unfolding keeps_def by metis
    then show ?thesis by (simp add: submit(2) send_to_pool_def)
  next
    case (submit_failed now job ans e sent c)
    note S = Submit_inv [OF ci submit_failed(3,4)]
    then have "keeps (sy_coord s) c" unfolding keeps_def by metis
    then show ?thesis by (simp add: submit_failed(2))
  next
    case close
    then show ?thesis using coord_next_keeps [OF Close_inv [OF ci]] by simp
  next
    case (started xs w ys d now dup c)
    then show ?thesis using Started_inv [OF ci started(5)] coord_next_keeps by simp
  next
    case (report_ends xs w ys d args now reply c)
    have "j_ID (sr_Job args) \<in> coord_ids (sy_coord s)"
      using sqs_inv_held [OF inv report_ends(3,4)] by (simp add: pc_ok_def held_ok_def)
    then show ?thesis using Report_begin_inv [OF ci report_ends(5)] coord_next_keeps by (simp add: report_ends(2))
  next
    case (report_triage xs w ys d args now c)
    have "j_ID (sr_Job args) \<in> coord_ids (sy_coord s)"
      using sqs_inv_held [OF inv report_triage(3,4)] by (simp add: pc_ok_def held_ok_def)
    then show ?thesis using Report_begin_inv [OF ci report_triage(5)] coord_next_keeps by (simp add: report_triage(2))
  next
    case (report_decides xs w ys d args now reply c)
    have "j_ID (sr_Job args) \<in> coord_ids (sy_coord s)"
      using sqs_inv_held [OF inv report_decides(3,4)] by (simp add: pc_ok_def held_ok_def)
    moreover have "valid_decision (sqs_decision (co_agent (sy_coord s)) args)"
      unfolding sqs_decision_def by (rule coordinator_decision_valid)
    ultimately show ?thesis using Report_finish_inv [OF ci report_decides(5)] coord_next_keeps
      by (simp add: report_decides(2))
  next
    case (watch dead now)
    have "\<forall>d \<in> set dead. j_ID (dd_Job d) \<in> coord_ids (sy_coord s)"
      using watch(3) inv by (fastforce simp: sqs_inv_def pool_ok_def)
    then show ?thesis using coord_next_keeps [OF watch_inv [OF ci]] by (simp add: watch(2))
  qed (simp_all add: send_to_pool_def)
qed

text \<open>A worker leaves its loop as finished only once \<open>Done\<close> is closed.\<close>

definition leaves_done :: "sqs_sys \<Rightarrow> bool" where
  "leaves_done s \<longleftrightarrow> (\<forall>w \<in> set (sy_workers s). wk_pc w = WExit AllDone \<longrightarrow> co_done (sy_coord s))"

lemma leaves_done_worker:
  assumes "leaves_done s" and "sy_workers s = xs @ w # ys" and "keeps (sy_coord s) (sy_coord s')"
    and "sy_workers s' = xs @ w' # ys" and "wk_pc w' = WExit AllDone \<Longrightarrow> co_done (sy_coord s')"
  shows "leaves_done s'"
  using assms by (auto simp: leaves_done_def keeps_def)

lemma pc_not_done [simp]:
  "worker_started d dup \<noteq> WExit AllDone" "worker_replied d ok reply \<noteq> WExit AllDone"
  "worker_acked err \<noteq> WExit AllDone" "worker_resent d err \<noteq> WExit AllDone" "worker_received r \<noteq> WExit AllDone"
  by (auto simp: worker_started_def worker_replied_def worker_acked_def worker_resent_def worker_received_def
      split: option.splits sum.splits)

lemma sqs_step_leaves:
  assumes "sqs_step s l s'" and inv: "sqs_inv s" and l: "leaves_done s"
  shows "leaves_done s'"
proof -
  note k = sqs_step_keeps [OF assms(1) inv]
  show ?thesis using assms(1)
  proof cases
    case (polled xs w ys)
    show ?thesis
      by (rule leaves_done_worker [OF l polled(3) k]) (auto simp: polled(2) worker_polled_def sqs_Status_def split: if_splits)
  qed (use l k in \<open>auto simp: leaves_done_def keeps_def send_to_pool_def\<close>)
qed

lemma sqs_init_inv: "sqs_inv (init_sqs agent rec qs)"
  by (simp add: sqs_inv_def init_sqs_def NewSQSCoordinator_def zero_stats_def coord_inv_def coord_books_def
      terminal_ids_def coord_ids_def pool_ok_def)

lemma sqs_reachable_inv: "sqs_reachable (init_sqs agent rec qs) s \<Longrightarrow> sqs_inv s"
  by (induction rule: sqs_reachable.induct) (use sqs_init_inv sqs_step_inv in auto)

lemma sqs_reachable_leaves: "sqs_reachable (init_sqs agent rec qs) s \<Longrightarrow> leaves_done s"
proof (induction rule: sqs_reachable.induct)
  case (step s s')
  then show ?case using sqs_step_leaves [OF _ sqs_reachable_inv] by blast
qed (simp add: leaves_done_def init_sqs_def)

lemma sqs_later_keeps: "sqs_reachable s s' \<Longrightarrow> sqs_inv s \<Longrightarrow> keeps (sy_coord s) (sy_coord s') \<and> sqs_inv s'"
proof (induction rule: sqs_reachable.induct)
  case (step s1 s2)
  then show ?case using sqs_step_keeps [of s1 s2] sqs_step_inv [of s1 s2] keeps_trans by blast
qed simp

end
