(* ===== verification/SqsRunInv.thy ===== *)
theory SqsRunInv
  imports SqsRun SqsSystem
begin

text \<open>
  The invariant of a run of the SQS coordinator: the supervisor's map and the worker processes
  that exist agree, every exit in the channel has its entry in the map, and the main goroutine has
  submitted and closed what its point in the code says.
\<close>

section \<open>The supervisor\<close>

definition su_inv :: "supervisor \<Rightarrow> bool" where
  "su_inv s \<longleftrightarrow> distinct_keys (su_procs s) \<and> su_spawned s = length (su_procs s) \<and>
     fst ` set (su_procs s) \<subseteq> (\<lambda>k. ''worker-'' @ pad2 k) ` {1..su_nextID s}"

lemma su_inv_init: "su_inv init_supervisor"
  by (simp add: su_inv_def init_supervisor_def)

lemma su_spawn_fresh: "su_inv s \<Longrightarrow> map_of (su_procs s) (next_worker s) = None"
  by (auto simp: su_inv_def next_worker_def map_of_eq_None_iff image_iff pad2_inj)

lemma next_worker_procs [simp]: "next_worker (s\<lparr>su_procs := m\<rparr>) = next_worker s"
  by (simp add: next_worker_def)

lemma length_put_present: "map_of m k = Some v \<Longrightarrow> length (map_put k w m) = length m \<and> fst ` set (map_put k w m) = fst ` set m"
  by (induction m) (auto split: if_splits)

lemma su_spawn_None: "su_inv s \<Longrightarrow> su_spawn None s = (None, s\<lparr>su_nextID := Suc (su_nextID s),
    su_procs := su_procs s @ [(next_worker s, \<lparr>wp_killed = False, wp_exited = False\<rparr>)], su_spawned := Suc (su_spawned s)\<rparr>)"
  using map_put_fresh [OF su_spawn_fresh] by (simp add: su_spawn_def Let_def)

lemma su_inv_spawn:
  assumes "su_inv s"
  shows "su_inv (snd (su_spawn started s))"
proof -
  have sub: "fst ` set (su_procs s) \<subseteq> (\<lambda>k. ''worker-'' @ pad2 k) ` {1..Suc (su_nextID s)}"
    using assms image_mono [of "{1..su_nextID s}" "{1..Suc (su_nextID s)}"] unfolding su_inv_def
    by (meson atLeastatMost_subset_iff le_SucI order.trans order_refl)
  show ?thesis
  proof (cases started)
    case (Some e)
    then show ?thesis using assms sub by (simp add: su_inv_def su_spawn_def Let_def)
  next
    case None
    have "next_worker s \<notin> fst ` set (su_procs s)" using su_spawn_fresh [OF assms] by (simp add: map_of_eq_None_iff)
    moreover have "next_worker s \<in> (\<lambda>k. ''worker-'' @ pad2 k) ` {1..Suc (su_nextID s)}"
      unfolding next_worker_def by (rule imageI) simp
    ultimately show ?thesis using assms sub unfolding None su_spawn_None [OF assms] by (simp add: su_inv_def)
  qed
qed

lemma su_inv_exit: "su_inv s \<Longrightarrow> su_inv (su_exited i s)"
  using length_put_present [of "su_procs s" i]
  by (auto simp: su_inv_def su_exited_def distinct_keys_put split: option.splits)

lemma su_inv_mark: "su_inv s \<Longrightarrow> su_inv (chaos_mark i s)"
  using length_put_present [of "su_procs s" i]
  by (auto simp: su_inv_def chaos_mark_def distinct_keys_put split: option.splits)

lemma su_keys [simp]:
  "fst ` set (su_procs (su_exited i s)) = fst ` set (su_procs s)"
  "fst ` set (su_procs (chaos_mark i s)) = fst ` set (su_procs s)"
  using length_put_present [of "su_procs s" i] by (auto simp: su_exited_def chaos_mark_def split: option.splits)

text \<open>The workers that have not exited.\<close>

definition alive :: "supervisor \<Rightarrow> string set" where
  "alive s = {i. \<exists>p. map_of (su_procs s) i = Some p \<and> \<not> wp_exited p}"

lemma alive_ops [simp]:
  "alive init_supervisor = {}" "alive (snd (su_spawn (Some e) s)) = alive s"
  "alive (snd (su_spawn None s)) = insert (next_worker s) (alive s)"
  "alive (su_exited i s) = alive s - {i}" "alive (chaos_mark i s) = alive s"
  by (auto simp: alive_def init_supervisor_def su_spawn_def Let_def su_exited_def chaos_mark_def split: option.splits)

lemma set_stragglers:
  assumes "su_inv s"
  shows "set (stragglers s) = alive s" and "length (stragglers s) = su_alive s"
proof -
  have "distinct_keys (su_procs s)" using assms by (simp add: su_inv_def)
  then show "set (stragglers s) = alive s" by (force simp: stragglers_def alive_def)
qed (simp add: stragglers_def su_alive_def)

lemma distinct_stragglers: "su_inv s \<Longrightarrow> distinct (stragglers s)"
  by (auto simp: su_inv_def stragglers_def distinct_map intro: inj_on_subset)

lemma su_alive_zero: "su_inv s \<Longrightarrow> su_alive s = 0 \<longleftrightarrow> alive s = {}"
  using set_stragglers [of s] by (metis length_0_conv set_empty)

section \<open>Worker processes\<close>

definition worker_ids :: "sqs_sys \<Rightarrow> string list" where
  "worker_ids s = map wk_ID (sy_workers s)"

lemma sqs_step_workers:
  assumes "sqs_step s l s'"
  shows "(case l of Spawns i \<Rightarrow> worker_ids s' = worker_ids s @ [i]
    | Gone i \<Rightarrow> i \<in> set (worker_ids s) \<and> mset (worker_ids s') = mset (worker_ids s) - {#i#}
    | _ \<Rightarrow> worker_ids s' = worker_ids s)"
  using assms by cases (auto simp: worker_ids_def send_to_pool_def at_pc_def)

text \<open>Only \<open>Submit\<close> and \<open>CloseSubmissions\<close> touch the set of jobs and the closing flag.\<close>

lemma maybeDone_frame [simp]: "co_jobs (coord_maybeDone c) = co_jobs c" "co_closed (coord_maybeDone c) = co_closed c"
  by (simp_all add: coord_maybeDone_def)

lemma coord_frame:
  "sqs_Started now a c = (dup, c') \<Longrightarrow> co_jobs c' = co_jobs c \<and> co_closed c' = co_closed c"
  "sqs_Report_begin now args c = (r, c') \<Longrightarrow> co_jobs c' = co_jobs c \<and> co_closed c' = co_closed c"
  "sqs_Report_finish now args dec c = (reply, c') \<Longrightarrow> co_jobs c' = co_jobs c \<and> co_closed c' = co_closed c"
  by (auto simp: sqs_Started_def sqs_Report_begin_def sqs_Report_finish_def sqs_apply_def Let_def
      split: option.splits if_splits)

lemma watch_frame: "co_jobs (watch_round now r c) = co_jobs c \<and> co_closed (watch_round now r c) = co_closed c"
proof -
  have "co_jobs (fold (bury_one now) ds c) = co_jobs c \<and> co_closed (fold (bury_one now) ds c) = co_closed c" for ds
    by (induction ds arbitrary: c) (auto simp: bury_one_def Let_def split: option.splits)
  then show ?thesis by (simp add: watch_round_def split: sum.splits)
qed

lemma sqs_step_submissions:
  assumes "sqs_step s l s'" and "\<nexists>job e. l = Submits job e"
  shows "sy_accepted s' = sy_accepted s \<and> co_jobs (sy_coord s') = co_jobs (sy_coord s) \<and>
    (co_closed (sy_coord s') \<longleftrightarrow> co_closed (sy_coord s) \<or> l = Closes)"
  using assms
  by cases (auto simp: send_to_pool_def sqs_CloseSubmissions_def watch_frame dest: coord_frame)

lemma Submit_frame:
  assumes "sqs_Submit now job ans c = (err, sent, c')"
  shows "co_closed c' = co_closed c" and "err = None \<Longrightarrow> co_jobs c' = map_put (j_ID job) (prepare_job now job) (co_jobs c)"
  using assms by (auto simp: sqs_Submit_def Let_def split: option.splits if_splits)

lemma submit_accepted:
  assumes "sqs_step s (Submits job None) s'"
  shows "sy_accepted s' = sy_accepted s @ [j_ID job] \<and> co_closed (sy_coord s') = co_closed (sy_coord s) \<and>
    coord_ids (sy_coord s') = insert (j_ID job) (coord_ids (sy_coord s))"
  using assms
proof cases
  case (submit now job' c)
  then show ?thesis using Submit_frame [OF submit(2)] map_put_fresh [OF submit(3)] by (simp add: send_to_pool_def coord_ids_def)
qed

lemma run_reachable_trans: "run_reachable n b c \<Longrightarrow> run_reachable n a b \<Longrightarrow> run_reachable n a c"
  by (induction rule: run_reachable.induct) (blast intro: run_reachable.step)+

section \<open>The invariant of a run\<close>

definition procs_ok :: "sqs_sys \<Rightarrow> supervisor \<Rightarrow> string list \<Rightarrow> bool" where
  "procs_ok sys su exits \<longleftrightarrow> su_inv su \<and> distinct (worker_ids sys) \<and> set (worker_ids sys) = alive su \<and>
     set exits \<subseteq> fst ` set (su_procs su)"

lemma alive_count: "procs_ok sys su exits \<Longrightarrow> su_alive su = length (sy_workers sys)"
  using set_stragglers [of su] distinct_card [OF distinct_stragglers [of su]] distinct_card [of "worker_ids sys"]
  by (simp add: procs_ok_def worker_ids_def)

text \<open>All of the jobs \<open>ids\<close> are submitted and accepted, and submissions are closed.\<close>

definition all_in :: "string list \<Rightarrow> sqs_sys \<Rightarrow> bool" where
  "all_in ids sys \<longleftrightarrow> co_closed (sy_coord sys) \<and> sy_accepted sys = ids \<and> coord_ids (sy_coord sys) = set ids"

fun main_ok :: "string list \<Rightarrow> coord_pc \<Rightarrow> sqs_sys \<Rightarrow> supervisor \<Rightarrow> bool" where
  "main_ok ids (CSubmit js) sys su \<longleftrightarrow> \<not> co_closed (sy_coord sys) \<and> sy_accepted sys @ map j_ID js = ids \<and>
     coord_ids (sy_coord sys) = set (sy_accepted sys)"
| "main_ok ids (CDrain None) sys su \<longleftrightarrow> all_in ids sys \<and> co_done (sy_coord sys)"
| "main_ok ids (CReturn None) sys su \<longleftrightarrow> all_in ids sys \<and> co_done (sy_coord sys) \<and> alive su = {}"
| "main_ok ids (CReturn (Some (SubmitError e))) sys su \<longleftrightarrow> True"
| "main_ok ids (CReturn (Some (NoWorkers i))) sys su \<longleftrightarrow> all_in ids sys \<and> alive su = {}"
| "main_ok ids (CDrain (Some e)) sys su \<longleftrightarrow> all_in ids sys \<and> (\<exists>i. e = NoWorkers i)"
| "main_ok ids CPanic sys su \<longleftrightarrow> False"
| "main_ok ids pc sys su \<longleftrightarrow> all_in ids sys"

definition run_inv :: "string list \<Rightarrow> coord_run \<Rightarrow> bool" where
  "run_inv ids s \<longleftrightarrow> sqs_inv (rn_sys s) \<and> procs_ok (rn_sys s) (rn_su s) (rn_exits s) \<and>
     main_ok ids (rn_main s) (rn_sys s) (rn_su s)"

lemma coord_ids_jobs: "co_jobs c = co_jobs c' \<Longrightarrow> coord_ids c = coord_ids c'"
  by (simp add: coord_ids_def)

text \<open>What the workers, the hook and the watcher do leaves the main goroutine's knowledge valid.\<close>

lemma main_ok_step:
  assumes "main_ok ids pc sys su" and "\<not> returned pc" and "sqs_step sys l sys'" and "sqs_inv sys"
    and "\<nexists>job e. l = Submits job e" and "l \<noteq> Closes"
  shows "main_ok ids pc sys' su'"
proof -
  note f = sqs_step_submissions [OF assms(3,5)] sqs_step_keeps [OF assms(3,4)]
  then have "coord_ids (sy_coord sys') = coord_ids (sy_coord sys)" by (intro coord_ids_jobs) simp
  then show ?thesis using assms(1,2,6) f
    by (cases "(ids, pc, sys, su)" rule: main_ok.cases) (auto simp: all_in_def keeps_def)
qed

lemma main_ok_su: "main_ok ids pc sys su \<Longrightarrow> \<not> returned pc \<Longrightarrow> main_ok ids pc sys su'"
  by (cases "(ids, pc, sys, su)" rule: main_ok.cases) auto

lemma procs_ok_same: "procs_ok sys su exits \<Longrightarrow> worker_ids sys' = worker_ids sys \<Longrightarrow> procs_ok sys' su exits"
  by (simp add: procs_ok_def)

lemma procs_ok_mark: "procs_ok sys su exits \<Longrightarrow> procs_ok sys (chaos_mark i su) exits"
  by (simp add: procs_ok_def su_inv_mark)

lemma procs_ok_failed: "procs_ok sys su exits \<Longrightarrow> procs_ok sys (snd (su_spawn (Some e) su)) exits"
  using su_inv_spawn [of su "Some e"] by (simp add: procs_ok_def) (simp add: su_spawn_def Let_def)

lemma procs_ok_spawn:
  assumes "procs_ok sys su exits" and "sqs_step sys (Spawns (next_worker su)) sys'"
  shows "procs_ok sys' (snd (su_spawn None su)) exits"
proof -
  have i: "su_inv su" using assms(1) by (simp add: procs_ok_def)
  have "next_worker su \<notin> alive su" using su_spawn_fresh [OF i] by (simp add: alive_def)
  then show ?thesis using assms(1) sqs_step_workers [OF assms(2)] su_inv_spawn [OF i, of None]
    by (auto simp: procs_ok_def) (auto simp: su_spawn_None [OF i])
qed

lemma procs_ok_exit:
  assumes "procs_ok sys su exits" and "sqs_step sys (Gone i) sys'"
  shows "procs_ok sys' (su_exited i su) (exits @ [i])"
proof -
  have w: "i \<in> alive su" "mset (worker_ids sys') = mset (worker_ids sys) - {#i#}"
    using sqs_step_workers [OF assms(2)] assms(1) by (auto simp: procs_ok_def)
  have d: "distinct (worker_ids sys)" using assms(1) by (simp add: procs_ok_def)
  then have "distinct (worker_ids sys') \<and> set (worker_ids sys') = set (worker_ids sys) - {i}"
    using w(2) by (metis mset_eq_imp_distinct_iff mset_eq_setD mset_remove1 distinct_remove1 set_remove1_eq)
  moreover have "i \<in> fst ` set (su_procs su)" using w(1) by (auto simp: alive_def dest: map_of_SomeD intro: rev_image_eqI)
  ultimately show ?thesis using assms(1) by (auto simp: procs_ok_def su_inv_exit)
qed

lemma run_step_inv:
  assumes "run_step n s s'" and inv: "run_inv ids s" and dist: "distinct ids"
  shows "run_inv ids s'"
proof -
  have i: "sqs_inv (rn_sys s)" "procs_ok (rn_sys s) (rn_su s) (rn_exits s)" "main_ok ids (rn_main s) (rn_sys s) (rn_su s)"
    using inv by (simp_all add: run_inv_def)
  show ?thesis using assms(1)
  proof cases
    case (submits job jobs sys)
    have "main_ok ids (CSubmit jobs) sys (rn_su s)" using submit_accepted [OF submits(3)] i(3) submits(2) by auto
    then show ?thesis using i sqs_step_inv [OF submits(3)] sqs_step_workers [OF submits(3)]
      by (simp add: submits(1) run_inv_def procs_ok_same)
  next
    case (submit_fails job jobs e sys)
    then show ?thesis using i sqs_step_inv [OF submit_fails(3)] sqs_step_workers [OF submit_fails(3)]
      by (simp add: run_inv_def procs_ok_same)
  next
    case (closes sys)
    have f: "sy_accepted sys = sy_accepted (rn_sys s)" "co_jobs (sy_coord sys) = co_jobs (sy_coord (rn_sys s))"
      "co_closed (sy_coord sys)" using sqs_step_submissions [OF closes(3)] by simp_all
    have "all_in ids sys" using f i(3) closes(2) coord_ids_jobs [OF f(2)] by (simp add: all_in_def)
    then show ?thesis using i sqs_step_inv [OF closes(3)] sqs_step_workers [OF closes(3)]
      by (simp add: closes(1) run_inv_def procs_ok_same)
  next
    case (starts_worker n' su sys)
    then show ?thesis using i sqs_step_inv [OF starts_worker(4)] procs_ok_spawn [OF i(2) starts_worker(4)]
        main_ok_step [OF i(3) _ starts_worker(4) i(1), of su] by (simp add: run_inv_def)
  next
    case (start_fails n' e err su)
    then show ?thesis using i procs_ok_failed [OF i(2), of e] by (simp add: run_inv_def)
  next
    case all_started
    then show ?thesis using i by (simp add: run_inv_def)
  next
    case (works sys)
    then show ?thesis using i sqs_step_inv [OF works(3)] sqs_step_workers [OF works(3)] main_ok_step [OF i(3) _ works(3)]
      by (simp add: run_inv_def procs_ok_same)
  next
    case (calls_started args dup sys)
    then show ?thesis using i sqs_step_inv [OF calls_started(3)] sqs_step_workers [OF calls_started(3)]
        main_ok_step [OF i(3) _ calls_started(3)] by (simp add: run_inv_def procs_ok_same)
  next
    case (watches sys)
    then show ?thesis using i sqs_step_inv [OF watches(4)] sqs_step_workers [OF watches(4)] main_ok_step [OF i(3) _ watches(4)]
      by (simp add: run_inv_def procs_ok_same)
  next
    case (hook_kills us i' vs)
    then show ?thesis using i procs_ok_mark main_ok_su by (simp add: run_inv_def)
  next
    case (hook_respawns us vs su sys)
    then show ?thesis using i sqs_step_inv [OF hook_respawns(5)] procs_ok_spawn [OF i(2) hook_respawns(5)]
        main_ok_step [OF i(3) _ hook_respawns(5) i(1)] by (simp add: run_inv_def)
  next
    case (hook_fails us vs e err su)
    then show ?thesis using i procs_ok_failed [OF i(2), of e] main_ok_su [OF i(3)] by (simp add: run_inv_def)
  next
    case (worker_exits i' sys)
    then show ?thesis using i sqs_step_inv [OF worker_exits(3)] procs_ok_exit [OF i(2) worker_exits(3)]
        main_ok_step [OF i(3) _ worker_exits(3) i(1)] by (simp add: run_inv_def)
  next
    case sees_done
    then show ?thesis using i by (simp add: run_inv_def)
  next
    case (sees_exit i' exits)
    have "map_of (su_procs (rn_su s)) i' \<noteq> None" using i(2) sees_exit(3) by (simp add: procs_ok_def map_of_eq_None_iff)
    then show ?thesis using i sees_exit by (auto simp: run_inv_def procs_ok_def exit_received_def)
  next
    case (grace_ends i')
    then show ?thesis using i by (simp add: run_inv_def after_grace_def)
  next
    case (drains err i' exits)
    then show ?thesis using i by (simp add: run_inv_def procs_ok_def)
  next
    case (returns err)
    then have "alive (rn_su s) = {}" using su_alive_zero i(2) by (simp add: procs_ok_def)
    then show ?thesis using i returns by (cases err) (auto simp: run_inv_def)
  qed
qed

lemma run_inv_start:
  "run_inv (map j_ID (chaos_jobs p h jobs)) (start_sqs agent rec qs p h jobs)"
  by (simp add: run_inv_def start_sqs_def sqs_init_inv procs_ok_def su_inv_init worker_ids_def)
    (simp add: init_sqs_def NewSQSCoordinator_def coord_ids_def)

lemma chaos_jobs_ids: "map j_ID (chaos_jobs p h jobs) = map j_ID jobs"
proof -
  have "j_ID (chaos_job p h i j) = j_ID j" for i j by (simp add: chaos_job_def)
  then have "map j_ID (chaos_jobs p h jobs) = map (j_ID \<circ> snd) (enumerate 0 jobs)"
    unfolding chaos_jobs_def by (auto simp: comp_def split_beta)
  also have "\<dots> = map j_ID jobs" by (metis map_map map_snd_enumerate)
  finally show ?thesis .
qed

lemma run_reachable_inv:
  "run_reachable n (start_sqs agent rec qs p h jobs) s \<Longrightarrow> distinct (map j_ID jobs) \<Longrightarrow> run_inv (map j_ID jobs) s"
proof (induction rule: run_reachable.induct)
  case start
  then show ?case using run_inv_start [of p h jobs agent rec qs] by (simp add: chaos_jobs_ids)
next
  case (step s s')
  then show ?case using run_step_inv by blast
qed

end
