(* ===== verification/BrokerLedger.thy ===== *)
theory BrokerLedger
  imports BrokerSystem
begin

text \<open>
  The abstract specification of the broker, and that the broker implements it. The ledger
  knows nothing of heaps, maps or locks: it keeps the accepted jobs in three multisets and
  counts the terminal ones. The broker's steps are the ledger's, seen through \<open>ledger_of\<close>.
\<close>

section \<open>The ledger\<close>

record ledger =
  lg_waiting :: "job multiset"
  lg_assigned :: "job multiset"
  lg_triage :: "job multiset"
  lg_accepted :: nat
  lg_settled :: nat
  lg_closed :: bool

definition ledger_finished :: "ledger \<Rightarrow> bool" where
  "ledger_finished L \<longleftrightarrow> lg_closed L \<and> lg_waiting L = {#} \<and> lg_assigned L = {#} \<and> lg_triage L = {#}"

text \<open>
  \<open>accept\<close>: a job enters, while submissions are open. \<open>assign\<close>: a most urgent waiting job goes
  to a worker and uses up an attempt. \<open>settle\<close>: an assigned job succeeds. \<open>fail\<close>: it goes to
  triage. \<open>requeue\<close>: a job in triage that has attempts left waits again, its batch possibly
  adjusted. \<open>give_up\<close>: it is escalated.
\<close>

inductive ledger_step :: "ledger \<Rightarrow> ledger \<Rightarrow> bool" where
  accept: "\<not> lg_closed L \<Longrightarrow> queued_ok job \<Longrightarrow> j_Attempt job = 0 \<Longrightarrow> valid_batch (j_Inference job) \<Longrightarrow>
     ledger_step L (L\<lparr>lg_waiting := add_mset job (lg_waiting L), lg_accepted := Suc (lg_accepted L)\<rparr>)"
| shut: "ledger_step L (L\<lparr>lg_closed := True\<rparr>)"
| assign: "lg_waiting L = add_mset job W \<Longrightarrow> \<forall>k \<in># lg_waiting L. urgency_of job \<le> urgency_of k \<Longrightarrow>
     ledger_step L (L\<lparr>lg_waiting := W, lg_assigned := add_mset (start_job now w job) (lg_assigned L)\<rparr>)"
| settle: "lg_assigned L = add_mset job A \<Longrightarrow>
     ledger_step L (L\<lparr>lg_assigned := A, lg_settled := Suc (lg_settled L)\<rparr>)"
| fail: "lg_assigned L = add_mset job A \<Longrightarrow>
     ledger_step L (L\<lparr>lg_assigned := A, lg_triage := add_mset job (lg_triage L)\<rparr>)"
| requeue: "lg_triage L = add_mset job T \<Longrightarrow> j_Attempt job < j_MaxAttempts job \<Longrightarrow> valid_decision d \<Longrightarrow>
     ledger_step L (L\<lparr>lg_triage := T,
       lg_waiting := add_mset (unindexed (requeued_job d job)) (lg_waiting L)\<rparr>)"
| give_up: "lg_triage L = add_mset job T \<Longrightarrow>
     ledger_step L (L\<lparr>lg_triage := T, lg_settled := Suc (lg_settled L)\<rparr>)"

definition ledger_of :: "broker_sys \<Rightarrow> ledger" where
  "ledger_of s =
     \<lparr>lg_waiting = queue_bag (br_queue (bs_broker s)), lg_assigned = map_vals (br_running (bs_broker s)),
      lg_triage = triaging_jobs s, lg_accepted = st_Submitted (br_stats (bs_broker s)),
      lg_settled = settled (br_stats (bs_broker s)), lg_closed = br_closed (bs_broker s)\<rparr>"

section \<open>Simulation\<close>

lemma ledger_of_maybeDone [simp]:
  "ledger_of (s\<lparr>bs_broker := broker_maybeDone b\<rparr>) = ledger_of (s\<lparr>bs_broker := b\<rparr>)"
  by (simp add: ledger_of_def)

lemma ledger_of_same [simp]: "ledger_of (s\<lparr>bs_broker := bs_broker s\<rparr>) = ledger_of s"
  by (simp add: ledger_of_def)

lemma ledger_submit:
  assumes inv: "broker_inv s" and sub: "broker_Submit now job (bs_broker s) = (None, b)" and "j_Attempt job = 0"
  shows "ledger_step (ledger_of s) (ledger_of (s\<lparr>bs_broker := b\<rparr>))"
proof -
  let ?j = "unindexed (prepare_job now job)"
  have q: "queue_inv (br_queue (bs_broker s))" using inv by (simp add: broker_inv_def jobs_inv_def)
  have "ledger_of (s\<lparr>bs_broker := b\<rparr>) = (ledger_of s)
      \<lparr>lg_waiting := add_mset ?j (lg_waiting (ledger_of s)), lg_accepted := Suc (lg_accepted (ledger_of s))\<rparr>"
    and "\<not> lg_closed (ledger_of s)" "valid_batch (j_Inference ?j)"
    by (rule broker_SubmitE [OF sub]; simp add: ledger_of_def queue_bag_Push [OF q] settled_def)+
  moreover have "queued_ok ?j" "j_Attempt ?j = 0" using assms(3) by (simp_all add: queued_ok_def)
  ultimately show ?thesis using ledger_step.accept by metis
qed

lemma ledger_grant:
  assumes inv: "broker_inv s" and cl: "broker_Claim now w (bs_broker s) = (reply, b)" "cl_Job reply = Some job"
  shows "ledger_step (ledger_of s) (ledger_of (s\<lparr>bs_broker := b\<rparr>))"
proof -
  have J: "jobs_inv s" using inv by (simp add: broker_inv_def)
  obtain popped q where pop: "queue_Pop (br_queue (bs_broker s)) = (Some popped, q)"
    and job: "job = start_job now w popped" and b: "br_queue b = q"
      "br_running b = map_put (j_ID popped) job (br_running (bs_broker s))"
      "br_stats b = br_stats (bs_broker s)" "br_closed b = br_closed (bs_broker s)"
    using broker_Claim_grantE [OF cl] by metis
  note p = queue_Pop_Some [OF jobs_invD(1) [OF J] pop]
  have vals: "map_vals (br_running b) = add_mset job (map_vals (br_running (bs_broker s)))"
    using grant_running(2) [OF J pop job] by (simp add: b(2))
  have "ledger_of (s\<lparr>bs_broker := b\<rparr>) = (ledger_of s)
      \<lparr>lg_waiting := queue_bag q, lg_assigned := add_mset (start_job now w popped) (lg_assigned (ledger_of s))\<rparr>"
    by (simp add: ledger_of_def b(1,3,4) vals job)
  moreover have "lg_waiting (ledger_of s) = add_mset popped (queue_bag q)"
    and "\<forall>k \<in># lg_waiting (ledger_of s). urgency_of popped \<le> urgency_of k"
    using p(2,3) by (simp_all add: ledger_of_def)
  ultimately show ?thesis using ledger_step.assign by metis
qed

lemma ledger_success:
  assumes inv: "broker_inv s" and rep: "broker_Report_begin now args (bs_broker s) = (Inr None, b)"
  shows "ledger_step (ledger_of s) (ledger_of (s\<lparr>bs_broker := b\<rparr>))"
proof -
  have J: "jobs_inv s" using inv by (simp add: broker_inv_def)
  let ?A = "map_vals (map_del (ra_JobID args) (br_running (bs_broker s)))"
  obtain job where k: "map_of (br_running (bs_broker s)) (ra_JobID args) = Some job"
    and l: "ledger_of (s\<lparr>bs_broker := b\<rparr>) = (ledger_of s)
        \<lparr>lg_assigned := ?A, lg_settled := Suc (lg_settled (ledger_of s))\<rparr>"
    by (rule broker_Report_successE [OF rep]) (simp add: ledger_of_def settled_def)
  moreover have "lg_assigned (ledger_of s) = add_mset job ?A"
    using report_takes(1) [OF J k] by (simp add: ledger_of_def)
  ultimately show ?thesis using ledger_step.settle by metis
qed

lemma ledger_failure:
  assumes inv: "broker_inv s" and rep: "broker_Report_begin now args (bs_broker s) = (Inr (Some job), b)"
  shows "ledger_step (ledger_of s) (ledger_of (s\<lparr>bs_broker := b, bs_triaging := bs_triaging s @ [(args, job)]\<rparr>))"
proof -
  have J: "jobs_inv s" using inv by (simp add: broker_inv_def)
  let ?A = "map_vals (map_del (ra_JobID args) (br_running (bs_broker s)))"
  have k: "map_of (br_running (bs_broker s)) (ra_JobID args) = Some job"
    and l: "ledger_of (s\<lparr>bs_broker := b, bs_triaging := bs_triaging s @ [(args, job)]\<rparr>) = (ledger_of s)
        \<lparr>lg_assigned := ?A, lg_triage := add_mset job (lg_triage (ledger_of s))\<rparr>"
    by (rule broker_Report_failureE [OF rep]; simp add: ledger_of_def triaging_jobs_def)+
  moreover have "lg_assigned (ledger_of s) = add_mset job ?A"
    using report_takes(1) [OF J k] by (simp add: ledger_of_def)
  ultimately show ?thesis using ledger_step.fail by metis
qed

lemma ledger_decide:
  assumes inv: "broker_inv s" and ts: "bs_triaging s = xs @ (args, job) # ys"
    and d: "d = coordinator_decision (br_agent (bs_broker s)) (failure_of args job)"
  shows "ledger_step (ledger_of s)
    (ledger_of (s\<lparr>bs_broker := broker_Report_finish now args job d (bs_broker s), bs_triaging := xs @ ys\<rparr>))"
    (is "ledger_step _ (ledger_of ?s)")
proof -
  have J: "jobs_inv s" using inv by (simp add: broker_inv_def)
  have t: "lg_triage (ledger_of s) = add_mset job (triaging_jobs ?s)" by (simp add: triaging_jobs_def ledger_of_def ts)
  then have st: "started_ok job" using jobs_invD(5) [OF J] by (simp add: ledger_of_def)
  have v: "valid_decision d" by (simp add: d coordinator_decision_valid)
  show ?thesis
  proof (cases "d_Action d = Escalate")
    case True
    note f = broker_Report_finish_escalate [OF True, of now args job "bs_broker s"]
    have "ledger_of ?s = (ledger_of s)\<lparr>lg_triage := triaging_jobs ?s, lg_settled := Suc (lg_settled (ledger_of s))\<rparr>"
      by (simp add: ledger_of_def f)
    with t show ?thesis using ledger_step.give_up by metis
  next
    case False
    note f = broker_Report_finish_requeue [OF v False, of now args job "bs_broker s"]
    have "ledger_of ?s = (ledger_of s)\<lparr>lg_triage := triaging_jobs ?s,
        lg_waiting := add_mset (unindexed (requeued_job d job)) (lg_waiting (ledger_of s))\<rparr>"
      using jobs_invD(1) [OF J] by (simp add: ledger_of_def f queue_bag_Push)
    moreover have "j_Attempt job < j_MaxAttempts job"
      using requeued_ok [OF st d False] by (simp add: queued_ok_def)
    ultimately show ?thesis using ledger_step.requeue [OF t _ v] by metis
  qed
qed

lemma broker_step_ledger:
  "broker_step s l t \<Longrightarrow> broker_inv s \<Longrightarrow> ledger_step (ledger_of s) (ledger_of t) \<or> ledger_of t = ledger_of s"
proof (induction rule: broker_step.induct)
  case (submit_rejected now job s e b)
  then show ?case using broker_Submit_rejected by fastforce
next
  case (unknown now args s e b)
  then show ?case using broker_Report_unknown by fastforce
next
  case (idle now worker s reply b)
  then show ?case using broker_Claim_idle(1) [OF idle.hyps] by auto
next
  case (close s)
  have "ledger_of (s\<lparr>bs_broker := broker_CloseSubmissions (bs_broker s)\<rparr>) = (ledger_of s)\<lparr>lg_closed := True\<rparr>"
    by (simp add: broker_CloseSubmissions_def) (simp add: ledger_of_def)
  then show ?case using ledger_step.shut by metis
qed (blast intro: ledger_submit ledger_grant ledger_success ledger_failure ledger_decide)+

lemma broker_done_ledger: "broker_inv s \<Longrightarrow> br_done (bs_broker s) \<longleftrightarrow> ledger_finished (ledger_of s)"
  by (auto simp: broker_inv_def done_inv_def ledger_finished_def ledger_of_def live_jobs_def)

end
