(* ===== verification/BrokerLog.thy ===== *)
theory BrokerLog
  imports BrokerProgress
begin

text \<open>
  Two invariants beside the accounting: the events of each type in the log are as many as the
  counter says (\<open>log_inv\<close>), and with the offline policy every live batch stays one that
  \<open>Validate\<close> accepts (\<open>valid_reachable\<close>).
\<close>

section \<open>The log\<close>

definition broker_log :: "broker \<Rightarrow> event list" where
  "broker_log b = (case br_recorder b of None \<Rightarrow> [] | Some r \<Rightarrow> r_file r)"

definition logging :: "broker \<Rightarrow> bool" where
  "logging b \<longleftrightarrow> (case br_recorder b of None \<Rightarrow> False | Some r \<Rightarrow> sink_ok r)"

definition events_of :: "string \<Rightarrow> event list \<Rightarrow> nat" where
  "events_of typ es = length (filter (\<lambda>e. ev_EventType e = typ) es)"

lemma events_of_snoc [simp]:
  "events_of typ (es @ [e]) = (if ev_EventType e = typ then Suc (events_of typ es) else events_of typ es)"
  "events_of typ [] = 0"
  by (simp_all add: events_of_def)

definition log_inv :: "broker \<Rightarrow> bool" where
  "log_inv b \<longleftrightarrow> logging b \<and>
     events_of ''submitted'' (broker_log b) = st_Submitted (br_stats b) \<and>
     events_of ''completed'' (broker_log b) = st_Succeeded (br_stats b) \<and>
     events_of ''escalated'' (broker_log b) = st_Escalated (br_stats b) \<and>
     events_of ''retried'' (broker_log b) = st_Retried (br_stats b) \<and>
     events_of ''adjusted'' (broker_log b) = st_Adjusted (br_stats b)"

lemma broker_log_record [simp]:
  "logging (broker_record e b) = logging b"
  "logging b \<Longrightarrow> broker_log (broker_record e b) = broker_log b @ [e]"
  by (auto simp: logging_def broker_log_def broker_record_def record_event_def recorder_Record_file_ok
      split: option.splits)

lemma broker_log_frame [simp]:
  "logging (b\<lparr>br_queue := q\<rparr>) = logging b" "broker_log (b\<lparr>br_queue := q\<rparr>) = broker_log b"
  "logging (b\<lparr>br_running := r\<rparr>) = logging b" "broker_log (b\<lparr>br_running := r\<rparr>) = broker_log b"
  "logging (b\<lparr>br_stats := st\<rparr>) = logging b" "broker_log (b\<lparr>br_stats := st\<rparr>) = broker_log b"
  "logging (b\<lparr>br_closed := c\<rparr>) = logging b" "broker_log (b\<lparr>br_closed := c\<rparr>) = broker_log b"
  "logging (broker_maybeDone b) = logging b" "broker_log (broker_maybeDone b) = broker_log b"
  by (simp_all add: logging_def broker_log_def)

lemma job_event_type [simp]: "ev_EventType (job_event now job typ w d) = typ"
  by (simp add: job_event_def)

lemma log_inv_maybeDone [simp]: "log_inv (broker_maybeDone b) = log_inv b"
  by (simp add: log_inv_def)

lemma log_inv_frame [simp]:
  "log_inv (b\<lparr>br_queue := q\<rparr>) = log_inv b" "log_inv (b\<lparr>br_running := r\<rparr>) = log_inv b"
  "log_inv (b\<lparr>br_closed := c\<rparr>) = log_inv b"
  by (simp_all add: log_inv_def)

text \<open>An event of a type that is not counted may be recorded at any time.\<close>

lemma log_inv_record:
  "log_inv b \<Longrightarrow> ev_EventType e \<notin> {''submitted'', ''completed'', ''escalated'', ''retried'', ''adjusted''} \<Longrightarrow>
   log_inv (broker_record e b)"
  by (simp add: log_inv_def)

lemma log_inv_Submit: "log_inv b \<Longrightarrow> broker_Submit now job b = (r, b') \<Longrightarrow> log_inv b'"
  by (auto simp: broker_Submit_def Let_def log_inv_def split: option.splits if_splits)

lemma log_inv_Claim: "log_inv b \<Longrightarrow> broker_Claim now w b = (r, b') \<Longrightarrow> log_inv b'"
  by (auto simp: broker_Claim_def Let_def split: option.splits if_splits prod.splits intro!: log_inv_record)

lemma log_inv_Report_begin: "log_inv b \<Longrightarrow> broker_Report_begin now args b = (r, b') \<Longrightarrow> log_inv b'"
  by (auto simp: broker_Report_begin_def Let_def log_inv_def split: option.splits if_splits)

lemma log_inv_apply_decision: "log_inv b \<Longrightarrow> log_inv (broker_apply_decision now job d b)"
  by (simp add: broker_apply_decision_def broker_recordLifecycle_def Let_def log_inv_def
      stat_retried_def stat_adjusted_def stat_escalated_def)

lemma log_inv_Report_finish: "log_inv b \<Longrightarrow> log_inv (broker_Report_finish now args job d b)"
  by (simp add: broker_Report_finish_def Let_def log_inv_apply_decision log_inv_record)

lemma log_inv_step: "broker_step s l t \<Longrightarrow> log_inv (bs_broker s) \<Longrightarrow> log_inv (bs_broker t)"
  by (induction rule: broker_step.induct)
     (auto simp: broker_CloseSubmissions_def log_inv_Report_finish
       dest: log_inv_Submit log_inv_Claim log_inv_Report_begin)

lemma log_inv_reachable:
  "broker_reachable agent rec s \<Longrightarrow> rec = Some r \<Longrightarrow> sink_ok r \<Longrightarrow> r_file r = [] \<Longrightarrow> log_inv (bs_broker s)"
proof (induction rule: broker_reachable.induct)
  case init
  then show ?case by (simp add: log_inv_def logging_def broker_log_def init_sys_def NewBroker_def)
next
  case (step s l t)
  then show ?case by (blast intro: log_inv_step)
qed

section \<open>The agent and the batches\<close>

lemma broker_step_agent: "broker_step s l t \<Longrightarrow> br_agent (bs_broker t) = br_agent (bs_broker s)"
proof (induction rule: broker_step.induct)
  case (submit_rejected now job s e b)
  then show ?case using broker_Submit_rejected by fastforce
next
  case (idle now worker s reply b)
  then show ?case using broker_Claim_idle(1) [OF idle.hyps] by auto
next
  case (unknown now args s e b)
  then show ?case using broker_Report_unknown by fastforce
qed (auto simp: broker_CloseSubmissions_def elim: broker_SubmitE broker_Claim_grantE broker_Report_successE
       broker_Report_failureE)

lemma reachable_agent: "broker_reachable agent rec s \<Longrightarrow> br_agent (bs_broker s) = agent"
  by (induction rule: broker_reachable.induct) (simp_all add: broker_step_agent init_sys_def NewBroker_def)

lemma requeued_batch:
  "d_Action d \<noteq> AutoAdjust \<Longrightarrow> j_Inference (requeued_job d job) = j_Inference job"
  "d_Action d = AutoAdjust \<Longrightarrow> j_Inference (requeued_job d job) =
     (j_Inference job)\<lparr>b_BatchSize := d_BatchSize d, b_Precision := d_Precision d\<rparr>"
  by (simp_all add: requeued_job_def)

lemma policy_requeued_valid:
  assumes "valid_batch (j_Inference job)" and "d = coordinator_decision policy_Decide (failure_of args job)"
  shows "valid_batch (j_Inference (requeued_job d job))"
proof -
  obtain d' where d': "policy_Decide (failure_of args job) = Inr d'"
    using policy.answers by blast
  then have "d = d'" using assms(2) policy.guards_do_not_fire by simp
  then show ?thesis
    using assms(1) policy_Decide_valid_batch(1) [OF _ d'] requeued_batch [of d job]
    by (cases "d_Action d = AutoAdjust") simp_all
qed

lemma valid_decide:
  assumes inv: "broker_inv s" and ag: "br_agent (bs_broker s) = policy_Decide"
    and val: "\<forall>j \<in># live_jobs s. valid_batch (j_Inference j)"
    and ts: "bs_triaging s = xs @ (args, job) # ys"
    and d: "d = coordinator_decision (br_agent (bs_broker s)) (failure_of args job)"
  shows "\<forall>j \<in># live_jobs (s\<lparr>bs_broker := broker_Report_finish now args job d (bs_broker s),
    bs_triaging := xs @ ys\<rparr>). valid_batch (j_Inference j)"
proof -
  have q: "queue_inv (br_queue (bs_broker s))" using inv by (simp add: broker_inv_def jobs_inv_def)
  have v: "valid_decision d" by (simp add: d coordinator_decision_valid)
  have "valid_batch (j_Inference job)" using val by (simp add: live_jobs_def triaging_jobs_def ts)
  then have "valid_batch (j_Inference (requeued_job d job))"
    using policy_requeued_valid d ag by simp
  then show ?thesis
    using val broker_Report_finish_requeue(1) [OF v] broker_Report_finish_escalate(1) [of d] q
    by (cases "d_Action d = Escalate")
       (auto simp: live_jobs_def triaging_jobs_def ts queue_bag_Push)
qed

lemma valid_step:
  "broker_step s l t \<Longrightarrow> broker_inv s \<Longrightarrow> br_agent (bs_broker s) = policy_Decide \<Longrightarrow>
   \<forall>j \<in># live_jobs s. valid_batch (j_Inference j) \<Longrightarrow> \<forall>j \<in># live_jobs t. valid_batch (j_Inference j)"
proof (induction rule: broker_step.induct)
  case (submit now job s b)
  have "queue_inv (br_queue (bs_broker s))" using submit.prems by (simp add: broker_inv_def jobs_inv_def)
  then show ?case using submit.hyps(1) submit.prems(3)
    by (elim broker_SubmitE) (simp add: live_jobs_def queue_bag_Push)
next
  case (submit_rejected now job s e b)
  then show ?case using broker_Submit_rejected by (fastforce simp: live_jobs_def)
next
  case (close s)
  then show ?case by (simp add: live_jobs_def broker_CloseSubmissions_def)
next
  case (grant now worker s reply b job)
  have J: "jobs_inv s" using grant.prems by (simp add: broker_inv_def)
  obtain popped q where pop: "queue_Pop (br_queue (bs_broker s)) = (Some popped, q)"
    and job: "job = start_job now worker popped" and b: "br_queue b = q"
      "br_running b = map_put (j_ID popped) job (br_running (bs_broker s))"
    using broker_Claim_grantE [OF grant.hyps] by metis
  note p = queue_Pop_Some(2) [OF jobs_invD(1) [OF J] pop] and g = grant_running(2) [OF J pop job]
  have "live_jobs (s\<lparr>bs_broker := b\<rparr>) = add_mset job (live_jobs s - {#popped#})"
    by (simp add: live_jobs_def b g p)
  moreover have "valid_batch (j_Inference job)" using grant.prems(3) by (simp add: job live_jobs_def p)
  ultimately show ?case using grant.prems(3) by (auto dest: in_diffD)
next
  case (idle now worker s reply b)
  then show ?case using broker_Claim_idle(1) [OF idle.hyps] by (elim disjE) (simp_all add: live_jobs_def)
next
  case (success now args s b)
  have J: "jobs_inv s" using success.prems by (simp add: broker_inv_def)
  from success show ?case
    by (elim broker_Report_successE) (simp add: live_jobs_def report_takes(1) [OF J])
next
  case (failure now args s job b)
  have J: "jobs_inv s" using failure.prems by (simp add: broker_inv_def)
  from failure show ?case
    by (elim broker_Report_failureE)
       (auto simp add: live_jobs_def triaging_jobs_def report_takes(1) [OF J])
next
  case (unknown now args s e b)
  then show ?case using broker_Report_unknown by (fastforce simp: live_jobs_def)
next
  case (decide s xs args job ys d now)
  then show ?case by (intro valid_decide)
qed

lemma valid_reachable:
  "broker_reachable agent rec s \<Longrightarrow> agent = policy_Decide \<Longrightarrow> \<forall>j \<in># live_jobs s. valid_batch (j_Inference j)"
proof (induction rule: broker_reachable.induct)
  case init
  then show ?case by (simp add: init_sys_def NewBroker_def live_jobs_def triaging_jobs_def queue_bag_def)
next
  case (step s l t)
  then show ?case using valid_step broker_reachable_inv reachable_agent by blast
qed

end
