(* ===== verification/BrokerProps.thy ===== *)
theory BrokerProps
  imports BrokerLog
begin

text \<open>
  The properties of the in-process coordinator, each after the text that states it, and a
  small run of the broker (one job submitted, granted and reported as failed) at which their
  hypotheses hold.
\<close>

section \<open>A concrete run\<close>

definition demo_batch :: batch where
  "demo_batch = fst (NewResNet50Batch 8 ''fp32'' 42)"

definition demo_job :: job where
  "demo_job =
     \<lparr>j_ID = ''inference-000'', j_Priority = 3,
      j_Resources = \<lparr>rq_CPUCores = 2, rq_MemoryMB = 1536, rq_GPUs = 1\<rparr>, j_Inference = demo_batch,
      j_Attempt = 0, j_MaxAttempts = 3, j_InjectFailure = ''transient'', j_State = Pending,
      j_SubmitTime = 5, j_StartTime = 0, j_Node = [], j_index = 0\<rparr>"

definition demo_recorder :: recorder where
  "demo_recorder = \<lparr>r_file = [], r_db = None, r_calls = 0, r_stderr = 0,
     r_write_ok = (\<lambda>_. True), r_exec_ok = (\<lambda>_. True)\<rparr>"

definition demo_failure :: report_args where
  "demo_failure = (success_report ''inference-000'')
     \<lparr>ra_WorkerID := ''worker-01'', ra_Success := False, ra_Error := ''transient GPU worker reset''\<rparr>"

definition demo0 :: broker_sys where
  "demo0 = init_sys policy_Decide (Some demo_recorder)"

definition demo1 :: broker_sys where
  "demo1 = demo0\<lparr>bs_broker := snd (broker_Submit 10 demo_job (bs_broker demo0))\<rparr>"

definition demo2 :: broker_sys where
  "demo2 = demo1\<lparr>bs_broker := broker_CloseSubmissions (bs_broker demo1)\<rparr>"

definition demo3 :: broker_sys where
  "demo3 = demo2\<lparr>bs_broker := snd (broker_Claim 20 ''worker-01'' (bs_broker demo2))\<rparr>"

definition demo_started :: job where
  "demo_started = the (cl_Job (fst (broker_Claim 20 ''worker-01'' (bs_broker demo2))))"

definition demo4 :: broker_sys where
  "demo4 = demo3\<lparr>bs_broker := snd (broker_Report_begin 30 demo_failure (bs_broker demo3)),
     bs_triaging := bs_triaging demo3 @ [(demo_failure, demo_started)]\<rparr>"

lemmas demo_defs = demo0_def demo1_def demo2_def demo3_def demo4_def demo_started_def

lemma demo_facts:
  "fst (broker_Submit 10 demo_job (bs_broker demo0)) = None"
  "cl_Job (fst (broker_Claim 20 ''worker-01'' (bs_broker demo2))) = Some demo_started"
  "fst (broker_Report_begin 30 demo_failure (bs_broker demo3)) = Inr (Some demo_started)"
  "br_closed (bs_broker demo2)" "\<not> br_done (bs_broker demo2)"
  by code_simp+

lemma demo_reachable0: "broker_reachable policy_Decide (Some demo_recorder) demo0"
  unfolding demo0_def by (rule broker_reachable.init)

lemma demo_step1: "broker_step demo0 LSubmit demo1"
  unfolding demo1_def
proof (rule broker_step.submit)
  show "broker_Submit 10 demo_job (bs_broker demo0) = (None, snd (broker_Submit 10 demo_job (bs_broker demo0)))"
    using demo_facts(1) by (metis prod.collapse)
  show "j_ID demo_job \<notin># live_ids demo0"
    by (simp add: live_ids_def live_jobs_def triaging_jobs_def demo0_def init_sys_def NewBroker_def queue_bag_def)
  show "j_Attempt demo_job = 0" by (simp add: demo_job_def)
qed

lemma demo_step2: "broker_step demo1 LClose demo2"
  unfolding demo2_def by (rule broker_step.close)

lemma demo_step3: "broker_step demo2 LGrant demo3"
  unfolding demo3_def using demo_facts(2) by (intro broker_step.grant) (simp_all add: prod_eq_iff)

lemma demo_step4: "broker_step demo3 LFailure demo4"
  unfolding demo4_def using demo_facts(3) by (intro broker_step.failure) (simp add: prod_eq_iff)

lemma demo_reachable:
  "broker_reachable policy_Decide (Some demo_recorder) demo1"
  "broker_reachable policy_Decide (Some demo_recorder) demo2"
  "broker_reachable policy_Decide (Some demo_recorder) demo3"
  "broker_reachable policy_Decide (Some demo_recorder) demo4"
proof -
  show 1: "broker_reachable policy_Decide (Some demo_recorder) demo1"
    using demo_reachable0 demo_step1 by (rule broker_reachable.step)
  show 2: "broker_reachable policy_Decide (Some demo_recorder) demo2"
    using 1 demo_step2 by (rule broker_reachable.step)
  show 3: "broker_reachable policy_Decide (Some demo_recorder) demo3"
    using 2 demo_step3 by (rule broker_reachable.step)
  show "broker_reachable policy_Decide (Some demo_recorder) demo4"
    using 3 demo_step4 by (rule broker_reachable.step)
qed

section \<open>Properties\<close>

lemma broker_done_iff_settled_aux:
  "broker_inv s \<Longrightarrow> br_done (bs_broker s) \<longleftrightarrow> br_closed (bs_broker s) \<and>
    st_Succeeded (br_stats (bs_broker s)) + st_Escalated (br_stats (bs_broker s)) =
      st_Submitted (br_stats (bs_broker s))"
  by (auto simp: broker_inv_def counts_inv_def done_inv_def settled_def live_jobs_empty)

text \<open>
  C1: the broker implements the ledger. Every critical section of every call is one step of the
  abstract specification (or changes nothing the ledger sees), and the channel \<open>Done()\<close> is
  closed exactly when the ledger is finished.
\<close>

theorem broker_refines_ledger:
  assumes "broker_reachable agent rec s" and "broker_step s l t"
  shows "(ledger_step (ledger_of s) (ledger_of t) \<or> ledger_of t = ledger_of s) \<and>
    (br_done (bs_broker t) \<longleftrightarrow> ledger_finished (ledger_of t))"
  using broker_step_ledger [OF assms(2) broker_reachable_inv [OF assms(1)]]
    broker_done_ledger [OF broker_step_inv [OF assms(2) broker_reachable_inv [OF assms(1)]]]
  by blast

theorem broker_refines_ledger_witness:
  "(ledger_step (ledger_of demo2) (ledger_of demo3) \<or> ledger_of demo3 = ledger_of demo2) \<and>
   (br_done (bs_broker demo3) \<longleftrightarrow> ledger_finished (ledger_of demo3))"
  by (rule broker_refines_ledger [OF demo_reachable(2) demo_step3])

text \<open>
  No job is lost or counted twice. In every reachable state the jobs accepted are the jobs
  that succeeded, the jobs escalated and the jobs in the queue, on a worker or in triage.
\<close>

theorem broker_accounting:
  assumes "broker_reachable agent rec s"
  shows "st_Submitted (br_stats (bs_broker s)) =
    st_Succeeded (br_stats (bs_broker s)) + st_Escalated (br_stats (bs_broker s)) +
    queue_Len (br_queue (bs_broker s)) + length (br_running (bs_broker s)) + length (bs_triaging s)"
  using broker_reachable_inv [OF assms] by (simp add: broker_inv_def counts_inv_def settled_def)

theorem broker_accounting_witness:
  "st_Submitted (br_stats (bs_broker demo4)) =
    st_Succeeded (br_stats (bs_broker demo4)) + st_Escalated (br_stats (bs_broker demo4)) +
    queue_Len (br_queue (bs_broker demo4)) + length (br_running (bs_broker demo4)) + length (bs_triaging demo4)"
  by (rule broker_accounting [OF demo_reachable(4)])

text \<open>
  What \<open>Done()\<close> means. The channel is closed exactly when submissions are closed and every
  submitted job has succeeded or been escalated.
\<close>

theorem broker_done_iff_settled:
  assumes "broker_reachable agent rec s"
  shows "br_done (bs_broker s) \<longleftrightarrow> br_closed (bs_broker s) \<and>
    st_Succeeded (br_stats (bs_broker s)) + st_Escalated (br_stats (bs_broker s)) =
      st_Submitted (br_stats (bs_broker s))"
  using broker_done_iff_settled_aux [OF broker_reachable_inv [OF assms]] by simp

theorem broker_done_iff_settled_witness:
  "br_done (bs_broker demo2) \<longleftrightarrow> br_closed (bs_broker demo2) \<and>
    st_Succeeded (br_stats (bs_broker demo2)) + st_Escalated (br_stats (bs_broker demo2)) =
      st_Submitted (br_stats (bs_broker demo2))"
  by (rule broker_done_iff_settled [OF demo_reachable(2)])

text \<open>
  C28: a claim is exclusive, in order and within budget. The job \<open>Claim\<close> hands out is on no
  other worker and in no pending report, it is a most urgent one of the queue, it is registered
  to the claiming worker, and it has been started at most \<open>MaxAttempts\<close> times, this time included.
\<close>

theorem broker_Claim_exclusive:
  assumes "broker_reachable agent rec s" and "broker_Claim now w (bs_broker s) = (reply, b)"
    and "cl_Job reply = Some job"
  shows "map_of (br_running (bs_broker s)) (j_ID job) = None \<and>
    j_ID job \<notin># image_mset j_ID (triaging_jobs s) \<and>
    (\<forall>k \<in># queue_bag (br_queue (bs_broker s)). urgency_of job \<le> urgency_of k) \<and>
    map_of (br_running b) (j_ID job) = Some job \<and> j_Node job = w \<and>
    1 \<le> j_Attempt job \<and> j_Attempt job \<le> j_MaxAttempts job"
proof -
  have J: "jobs_inv s" using broker_reachable_inv [OF assms(1)] by (simp add: broker_inv_def)
  obtain popped q where pop: "queue_Pop (br_queue (bs_broker s)) = (Some popped, q)"
    and job: "job = start_job now w popped" and b: "br_running b = map_put (j_ID popped) job (br_running (bs_broker s))"
    using broker_Claim_grantE [OF assms(2,3)] by metis
  note g = grant_running [OF J pop job] and p = queue_Pop_Some(3) [OF jobs_invD(1) [OF J] pop]
  have "urgency_of job = urgency_of popped" by (simp add: job urgency_of_def start_job_def)
  moreover have "map_of (br_running (bs_broker s)) (j_ID job) = None"
    using g(1) running_lookup [OF jobs_invD(2) [OF J]] by auto
  ultimately show ?thesis using g(1,4) p by (simp add: b started_ok_def) (simp add: job)
qed

theorem broker_Claim_exclusive_witness:
  "map_of (br_running (bs_broker demo2)) (j_ID demo_started) = None \<and>
    map_of (br_running (bs_broker demo3)) (j_ID demo_started) = Some demo_started \<and>
    j_Attempt demo_started \<le> j_MaxAttempts demo_started"
proof -
  have "broker_Claim 20 ''worker-01'' (bs_broker demo2) =
      (fst (broker_Claim 20 ''worker-01'' (bs_broker demo2)), bs_broker demo3)"
    by (simp add: demo3_def)
  from broker_Claim_exclusive [OF demo_reachable(2) this demo_facts(2)] show ?thesis by blast
qed

text \<open>
  C30: the work is bounded. Once submissions are closed, no run, however its calls interleave,
  takes more working steps (grants, reports, decisions) than the potential of the state it
  starts in: three for each attempt a queued job has left.
\<close>

theorem broker_work_bounded:
  assumes "broker_reachable agent rec s" and "br_closed (bs_broker s)" and "broker_run s ls t"
  shows "length (filter (\<lambda>l. l \<in> working) ls) \<le> potential s"
  using run_potential [OF assms(3) broker_reachable_inv [OF assms(1)] assms(2)] by simp

theorem broker_work_bounded_witness:
  "length (filter (\<lambda>l. l \<in> working) [LGrant, LFailure]) \<le> potential demo2"
  using broker_run.go [OF demo_step3 broker_run.go [OF demo_step4 broker_run.stop]]
  by (rule broker_work_bounded [OF demo_reachable(2) demo_facts(4)])

text \<open>
  C5: the coordinator finishes. From every reachable state with submissions closed there is a
  run of working steps after which \<open>Done()\<close> is closed; and as long as it is not, some working
  step is possible, so no order of calls gets the broker stuck.
\<close>

theorem broker_completes:
  assumes "broker_reachable agent rec s" and "br_closed (bs_broker s)"
  shows "(\<exists>ls t. broker_run s ls t \<and> set ls \<subseteq> working \<and> br_done (bs_broker t)) \<and>
    (br_done (bs_broker s) \<or> (\<exists>l t. l \<in> working \<and> broker_step s l t))"
  using run_to_done [OF broker_reachable_inv [OF assms(1)] assms(2)]
    working_step_enabled [OF broker_reachable_inv [OF assms(1)] assms(2)] by blast

theorem broker_completes_witness:
  "(\<exists>ls t. broker_run demo4 ls t \<and> set ls \<subseteq> working \<and> br_done (bs_broker t)) \<and>
    (br_done (bs_broker demo4) \<or> (\<exists>l t. l \<in> working \<and> broker_step demo4 l t))"
  using step_keeps_closed [OF demo_step4 step_keeps_closed [OF demo_step3 demo_facts(4)]]
  by (rule broker_completes [OF demo_reachable(4)])

text \<open>
  The shutdown race. While the only remaining job is between the two critical sections of
  \<open>Report\<close>, a \<open>Claim\<close> of another worker is answered with \<open>Shutdown\<close> although the run is not
  done; the decision then puts the job back on the queue.
\<close>

theorem broker_Claim_shutdown_race:
  "\<exists>s t. broker_reachable policy_Decide (Some demo_recorder) s \<and>
     cl_Shutdown (fst (broker_Claim now w (bs_broker s))) \<and> \<not> br_done (bs_broker s) \<and>
     broker_step s LDecide t \<and> queue_Len (br_queue (bs_broker t)) = 1"
proof -
  let ?d = "coordinator_decision (br_agent (bs_broker demo4)) (failure_of demo_failure demo_started)"
  let ?t = "demo4\<lparr>bs_broker := broker_Report_finish 40 demo_failure demo_started ?d (bs_broker demo4),
    bs_triaging := [] @ []\<rparr>"
  have facts: "queue_Len (br_queue (bs_broker demo4)) = 0" "br_closed (bs_broker demo4)"
    "length (br_running (bs_broker demo4)) = 0" "\<not> br_done (bs_broker demo4)"
    "queue_Len (br_queue (bs_broker ?t)) = 1"
    by code_simp+
  then have "cl_Shutdown (fst (broker_Claim now w (bs_broker demo4)))" by (simp add: broker_Claim_def)
  moreover have "bs_triaging demo4 = [] @ (demo_failure, demo_started) # []"
    by (simp add: demo0_def demo1_def demo2_def demo3_def demo4_def init_sys_def)
  then have "broker_step demo4 LDecide ?t" by (rule broker_step.decide) (rule refl)
  ultimately show ?thesis using facts(4,5) demo_reachable(4) by blast
qed

text \<open>
  Outside that window \<open>Shutdown\<close> is right. When no report is in triage, a worker is told to
  shut down only if every submitted job is terminal, and then the broker is done.
\<close>

theorem broker_Claim_shutdown_safe:
  assumes "broker_reachable agent rec s" and "bs_triaging s = []"
    and "broker_Claim now w (bs_broker s) = (reply, b)" and "cl_Shutdown reply"
  shows "br_done (bs_broker s) \<and> b = bs_broker s \<and> st_Submitted (br_stats b) =
    st_Succeeded (br_stats b) + st_Escalated (br_stats b)"
proof -
  have no: "cl_Job reply = None"
    using assms(3,4) broker_Claim_grantE [OF assms(3)] by (cases "cl_Job reply") auto
  have inv: "broker_inv s" using assms(1) by (rule broker_reachable_inv)
  note cl = broker_Claim_idle [OF assms(3) no]
  have "br_closed (bs_broker s)" "br_running (bs_broker s) = []" using cl(3) assms(4) by simp_all
  with cl(2) assms(2) inv have d: "br_done (bs_broker s)"
    by (simp add: broker_inv_def done_inv_def live_jobs_empty)
  then have "broker_maybeDone (bs_broker s) = bs_broker s" by (simp add: broker_maybeDone_def)
  with cl(1) have "b = bs_broker s" by auto
  with d show ?thesis using broker_done_iff_settled_aux [OF inv] by simp
qed

theorem broker_Claim_shutdown_safe_witness:
  "br_done (broker_CloseSubmissions (NewBroker policy_Decide None))"
proof -
  let ?s = "(init_sys policy_Decide None)\<lparr>bs_broker := broker_CloseSubmissions (bs_broker (init_sys policy_Decide None))\<rparr>"
  have "broker_reachable policy_Decide None ?s"
    by (rule broker_reachable.step [OF broker_reachable.init broker_step.close])
  moreover have "bs_triaging ?s = []" by (simp add: init_sys_def)
  moreover have "broker_Claim 1 ''worker-01'' (bs_broker ?s) =
      (fst (broker_Claim 1 ''worker-01'' (bs_broker ?s)), snd (broker_Claim 1 ''worker-01'' (bs_broker ?s)))" by simp
  moreover have "cl_Shutdown (fst (broker_Claim 1 ''worker-01'' (bs_broker ?s)))" by code_simp
  ultimately have "br_done (bs_broker ?s)" using broker_Claim_shutdown_safe by blast
  then show ?thesis by (simp add: init_sys_def)
qed

text \<open>
  The coordinator trusts no agent. Whatever the triage agent answers, the decision acted on
  is well-formed and within the retry budget; an error or a malformed decision is an escalation
  by the safety fallback; and a well-formed decision within budget is taken as it is.
\<close>

theorem coordinator_decision_guards:
  "valid_decision (coordinator_decision agent f) \<and>
   (f_Attempt f < f_MaxAttempts f \<or> d_Action (coordinator_decision agent f) = Escalate) \<and>
   (case agent f of
      Inl err \<Rightarrow> coordinator_decision agent f =
        mk_decision Escalate (''triage agent failed: '' @ err) ''safety_fallback''
    | Inr d \<Rightarrow>
        (case decision_Validate d of
           Some err \<Rightarrow> coordinator_decision agent f =
             mk_decision Escalate (''invalid triage decision: '' @ err) ''safety_fallback''
         | None \<Rightarrow> coordinator_decision agent f =
             (if f_Attempt f < f_MaxAttempts f \<or> d_Action d = Escalate then d
              else mk_decision Escalate ''retry budget exhausted'' ''coordinator_guardrail'')))"
  using coordinator_decision_valid [of agent f] coordinator_decision_budget [of f agent]
  by (auto simp: within_budget_def coordinator_decision_def Let_def split: sum.split option.split)

text \<open>
  The telemetry agrees with the statistics. With a recorder whose sinks accept every
  write, the log holds exactly as many \<open>submitted\<close>, \<open>completed\<close>, \<open>escalated\<close>, \<open>retried\<close> and
  \<open>adjusted\<close> events as the counters of \<open>Stats\<close> say, after any interleaving of calls.
\<close>

theorem broker_log_agrees:
  assumes "broker_reachable agent (Some r) s" and "sink_ok r" and "r_file r = []"
  shows "events_of ''submitted'' (broker_log (bs_broker s)) = st_Submitted (br_stats (bs_broker s)) \<and>
    events_of ''completed'' (broker_log (bs_broker s)) = st_Succeeded (br_stats (bs_broker s)) \<and>
    events_of ''escalated'' (broker_log (bs_broker s)) = st_Escalated (br_stats (bs_broker s)) \<and>
    events_of ''retried'' (broker_log (bs_broker s)) = st_Retried (br_stats (bs_broker s)) \<and>
    events_of ''adjusted'' (broker_log (bs_broker s)) = st_Adjusted (br_stats (bs_broker s))"
  using log_inv_reachable [OF assms(1) refl assms(2,3)] by (simp add: log_inv_def)

theorem broker_log_agrees_witness:
  "events_of ''submitted'' (broker_log (bs_broker demo4)) = st_Submitted (br_stats (bs_broker demo4))"
proof -
  have "sink_ok demo_recorder" "r_file demo_recorder = []"
    by (simp_all add: sink_ok_def demo_recorder_def)
  from broker_log_agrees [OF demo_reachable(4) this] show ?thesis by blast
qed

text \<open>
  With the offline policy every job in the system keeps a batch that \<open>Validate\<close> accepts,
  however often it is adjusted.
\<close>

theorem broker_policy_batches_valid:
  assumes "broker_reachable policy_Decide rec s" and "job \<in># live_jobs s"
  shows "batch_Validate (j_Inference job) = None"
  using valid_reachable [OF assms(1) refl] assms(2) by simp

theorem broker_policy_batches_valid_witness: "batch_Validate (j_Inference demo_started) = None"
proof -
  have "bs_triaging demo4 = [(demo_failure, demo_started)]"
    by (simp add: demo0_def demo1_def demo2_def demo3_def demo4_def init_sys_def)
  then have "demo_started \<in># live_jobs demo4" by (simp add: live_jobs_def triaging_jobs_def)
  with demo_reachable(4) show ?thesis by (rule broker_policy_batches_valid)
qed

text \<open>
  With an LLM agent that is not so. A model may answer \<open>auto_adjust\<close> with a batch size
  above 256: the decision passes every check on its way (the agent's, the coordinator's), and
  the job goes back to the queue with a batch that \<open>Validate\<close> rejects.
\<close>

definition big_adjust :: decision where
  "big_adjust = \<lparr>d_Action = AutoAdjust, d_Reason = ''use a larger batch'', d_BatchSize = 512,
     d_Precision = ''fp32'', d_Source = ''llm''\<rparr>"

definition big_api :: llm_api where
  "big_api = \<lparr>api_marshal = (\<lambda>f. Inr ''{}''), api_bad_url = (\<lambda>u. None),
     api_do = (\<lambda>r. Response 200 ''200 OK'' ''{}''), api_chat = (\<lambda>b. Inr [''{}'']),
     api_decision = (\<lambda>c. Inr big_adjust)\<rparr>"

theorem llm_adjust_invalid_batch:
  "coordinator_decision (llm_Decide big_api \<lparr>a_URL = ''http://localhost'', a_APIKey = [], a_Model = ''m''\<rparr>)
     (failure_of demo_failure demo_started) = big_adjust \<and>
   batch_Validate (j_Inference demo_started) = None \<and>
   queue_Peek (br_queue (broker_Report_finish 40 demo_failure demo_started big_adjust (bs_broker demo3))) =
     Some ((requeued_job big_adjust demo_started)\<lparr>j_index := 0\<rparr>) \<and>
   batch_Validate (j_Inference (requeued_job big_adjust demo_started)) = Some (BatchSizeOutside 512)"
  by (intro conjI) code_simp+

end
