(* ===== verification/DispatcherProps.thy ===== *)
theory DispatcherProps
  imports Dispatcher BrokerProps
begin

text \<open>
  The properties of the dispatcher: the workload it generates is accepted as a whole, a run that
  returns nil has settled every job, the error a shutdown race turns into, and the agents it
  builds.
\<close>

section \<open>Agents\<close>

text \<open>
  Every agent the dispatcher can build answers every failure with a well-formed decision
  within the retry budget, whatever the LLM endpoint returns; the mode \<open>policy\<close> always builds
  one, \<open>llm\<close> exactly when URL and model are given, and no other mode does.
\<close>

theorem buildAgent_sound:
  "(case buildAgent api mode url key model of
      Inr a \<Rightarrow> (\<exists>d. a f = Inr d \<and> valid_decision d \<and> (f_Attempt f < f_MaxAttempts f \<or> d_Action d = Escalate)) \<and>
        (mode = ''policy'' \<or> mode = ''llm'' \<and> url \<noteq> [] \<and> model \<noteq> [])
    | Inl MissingLLMFlags \<Rightarrow> mode = ''llm'' \<and> (url = [] \<or> model = [])
    | Inl (UnknownMode m) \<Rightarrow> m = mode \<and> mode \<noteq> ''policy'' \<and> mode \<noteq> ''llm'')"
  using agents_sound [of f api "\<lparr>a_URL = url, a_APIKey = key, a_Model = model\<rparr>"]
  by (simp add: buildAgent_def)

section \<open>The workload\<close>

definition good_job :: "nat \<Rightarrow> job \<Rightarrow> bool" where
  "good_job i j \<longleftrightarrow> j_ID j = ''inference-'' @ pad3 i \<and> valid_batch (j_Inference j) \<and> 1 \<le> j_Priority j \<and> j_Priority j \<le> 5 \<and>
     j_Attempt j = 0 \<and> j_MaxAttempts j = 3 \<and> j_InjectFailure j \<in> insert [] (set failureKinds) \<and>
     rq_MemoryMB (j_Resources j) \<le> 3072"

lemma generate_job_good:
  "\<exists>j g'. generate_job seed rate base i g = (Inr j, g') \<and> good_job i j"
proof -
  obtain r1 g1 where 1: "rng_Intn (int (length workload_sizes)) g = (r1, g1)" by fastforce
  then have r1: "0 \<le> r1" "r1 < 4" using rng_Intn_range [OF _ 1] by (simp_all add: workload_sizes_def)
  obtain r2 g2 where 2: "rng_Intn 2 g1 = (r2, g2)" by fastforce
  obtain f g3 where 3: "rng_Float64 g2 = (f, g3)" by fastforce
  obtain r4 g4 where 4: "rng_Intn 5 g3 = (r4, g4)" by fastforce
  then have r4: "0 \<le> r4" "r4 < 5" using rng_Intn_range [OF _ 4] by simp_all
  have sz: "workload_sizes ! nat r1 \<in> set workload_sizes" using r1 by (intro nth_mem) (simp add: workload_sizes_def)
  then have size: "1 \<le> workload_sizes ! nat r1" "workload_sizes ! nat r1 \<le> 32" by (auto simp: workload_sizes_def)
  let ?b = "NewResNet50Batch (workload_sizes ! nat r1) (if r2 = 0 then ''fp16'' else ''fp32'') (go_add seed (int i))"
  have b: "snd ?b = None" "valid_batch (fst ?b)" using NewResNet50Batch_ok size by auto
  have kind: "failureKinds ! (i mod length failureKinds) \<in> set failureKinds"
    by (rule nth_mem) (simp add: failureKinds_def)
  obtain batch where batch: "?b = (batch, None)" "valid_batch batch" using b by (cases ?b) auto
  show ?thesis
    unfolding generate_job_def 1 2 3 4 Let_def prod.case batch(1) option.case
    using r4 size kind batch(2) by (simp add: good_job_def)
qed

lemma generate_from_good:
  "\<exists>js. generate_from seed rate base is g = Inr js \<and> list_all2 good_job is js"
proof (induction "is" arbitrary: g)
  case (Cons i rest)
  obtain j g1 where j: "generate_job seed rate base i g = (Inr j, g1)" "good_job i j"
    using generate_job_good by blast
  obtain js where "generate_from seed rate base rest g1 = Inr js" "list_all2 good_job rest js"
    using Cons.IH by blast
  with j show ?case by simp
qed simp

lemma good_jobs_distinct:
  assumes "list_all2 good_job is js" and "distinct is"
  shows "distinct (map j_ID js)"
proof -
  have "map j_ID js = map (\<lambda>i. ''inference-'' @ pad3 i) is"
    using assms(1) by (induction rule: list_all2_induct) (simp_all add: good_job_def)
  then show ?thesis using assms(2) by (simp add: distinct_map inj_on_def pad3_inj)
qed

text \<open>A broker takes all of them.\<close>

lemma submit_jobs_all:
  "list_all (\<lambda>(_, j). valid_batch (j_Inference j)) js \<Longrightarrow> \<not> br_closed b \<Longrightarrow>
   \<exists>b'. submit_jobs js b = (None, b') \<and> st_Submitted (br_stats b') = st_Submitted (br_stats b) + length js \<and> \<not> br_closed b'"
proof (induction js arbitrary: b)
  case (Cons p js)
  obtain now j where p: "p = (now, j)" by fastforce
  have "batch_Validate (j_Inference j) = None" using Cons.prems p by simp
  then have "fst (broker_Submit now j b) = None" using Cons.prems
    by (simp add: broker_Submit_def Let_def del: batch_Validate_None)
  then obtain b1 where b1: "broker_Submit now j b = (None, b1)" by (metis prod.collapse)
  then have "br_stats b1 = (br_stats b)\<lparr>st_Submitted := Suc (st_Submitted (br_stats b))\<rparr>" "\<not> br_closed b1"
    by (auto elim!: broker_SubmitE)
  then show ?case using Cons.IH [of b1] Cons.prems p b1 by auto
qed simp

text \<open>
  C22: the workload is accepted. For every number of jobs, seed, failure rate and outcome of the
  random numbers, generation succeeds with that many jobs; the names are distinct, every batch
  is valid, the priority is a tier of the SQS queues, the injected failure is none or one that
  \<open>injectedError\<close> knows, and a fresh broker accepts every one of them, whatever the clock shows.
\<close>

theorem generateJobs_accepted:
  "\<exists>jobs b. generateJobs n seed rate base g = Inr jobs \<and> length jobs = nat n \<and> distinct (map j_ID jobs) \<and>
     list_all (\<lambda>j. valid_batch (j_Inference j) \<and> Tier (j_Priority j) = j_Priority j \<and> j_Attempt j = 0 \<and>
       j_InjectFailure j \<in> insert [] {k. injectedError k \<noteq> None}) jobs \<and>
     submit_jobs (map (\<lambda>j. (clock (j_ID j), j)) jobs) (NewBroker agent rec) = (None, b) \<and>
     st_Submitted (br_stats b) = nat n"
proof -
  obtain js where js: "generateJobs n seed rate base g = Inr js" "list_all2 good_job [0..<nat n] js"
    using generate_from_good unfolding generateJobs_def by blast
  have len: "length js = nat n" using list_all2_lengthD [OF js(2)] by simp
  have all: "\<exists>i. good_job i j" if "j \<in> set js" for j
    using js(2) that by (metis in_set_conv_nth list_all2_conv_all_nth)
  have props: "list_all (\<lambda>j. valid_batch (j_Inference j) \<and> Tier (j_Priority j) = j_Priority j \<and> j_Attempt j = 0 \<and>
      j_InjectFailure j \<in> insert [] {k. injectedError k \<noteq> None}) js"
    unfolding list_all_iff
  proof (rule ballI)
    fix j assume "j \<in> set js"
    then obtain i where "good_job i j" using all by blast
    then show "valid_batch (j_Inference j) \<and> Tier (j_Priority j) = j_Priority j \<and> j_Attempt j = 0 \<and>
        j_InjectFailure j \<in> insert [] {k. injectedError k \<noteq> None}"
      by (auto simp: good_job_def failureKinds_def injectedError_def Tier_def MinTier_def MaxTier_def)
  qed
  have "list_all (\<lambda>(_, j). valid_batch (j_Inference j)) (map (\<lambda>j. (clock (j_ID j), j)) js)"
    using props by (auto simp: list_all_iff)
  from submit_jobs_all [OF this, of "NewBroker agent rec"]
  obtain b where "submit_jobs (map (\<lambda>j. (clock (j_ID j), j)) js) (NewBroker agent rec) = (None, b)"
    "st_Submitted (br_stats b) = nat n" using len by (auto simp: NewBroker_def)
  then show ?thesis using js(1) len props good_jobs_distinct [OF js(2)] by auto
qed

section \<open>A run of the dispatcher\<close>

lemma Submit_live_ids:
  assumes "broker_reachable agent rec s" and "broker_Submit now job (bs_broker s) = (None, b)"
  shows "live_ids (s\<lparr>bs_broker := b\<rparr>) = add_mset (j_ID job) (live_ids s)"
proof -
  have "queue_inv (br_queue (bs_broker s))"
    using broker_reachable_inv [OF assms(1)] by (simp add: broker_inv_def jobs_inv_def)
  then show ?thesis using assms(2)
    by (auto elim!: broker_SubmitE simp: live_ids_def live_jobs_def triaging_jobs_def queue_bag_Push)
qed

lemma submit_jobs_reachable:
  "broker_reachable agent rec s \<Longrightarrow> submit_jobs js (bs_broker s) = (None, b) \<Longrightarrow> distinct (map (j_ID \<circ> snd) js) \<Longrightarrow>
   set (map (j_ID \<circ> snd) js) \<inter> set_mset (live_ids s) = {} \<Longrightarrow> \<forall>(_, j) \<in> set js. j_Attempt j = 0 \<Longrightarrow>
   broker_reachable agent rec (s\<lparr>bs_broker := b\<rparr>)"
proof (induction js arbitrary: s)
  case Nil
  then show ?case by (cases s) simp
next
  case (Cons p js)
  obtain now j where p: "p = (now, j)" by fastforce
  obtain b1 where b1: "broker_Submit now j (bs_broker s) = (None, b1)" "submit_jobs js b1 = (None, b)"
    using Cons.prems(2) p by (auto split: prod.splits option.splits)
  have r: "broker_reachable agent rec (s\<lparr>bs_broker := b1\<rparr>)"
    by (rule broker_reachable.step [OF Cons.prems(1) broker_step.submit [OF b1(1)]])
      (use Cons.prems(4,5) p in auto)
  have "broker_reachable agent rec ((s\<lparr>bs_broker := b1\<rparr>)\<lparr>bs_broker := b\<rparr>)"
    by (rule Cons.IH [OF r]) (use Cons.prems p b1 Submit_live_ids [OF Cons.prems(1) b1(1)] in auto)
  then show ?case by simp
qed

lemma start_run_reachable:
  assumes "start_run agent rec js exe starts = Inr s" and "distinct (map (j_ID \<circ> snd) js)" and "\<forall>(_, j) \<in> set js. j_Attempt j = 0"
  shows "broker_reachable agent rec (dp_sys s)"
proof -
  obtain b where b: "submit_jobs js (NewBroker agent rec) = (None, b)"
    and s: "dp_sys s = \<lparr>bs_broker = broker_CloseSubmissions b, bs_triaging = []\<rparr>"
    using assms(1) by (auto simp: start_run_def split: prod.splits option.splits sum.splits)
  have "broker_reachable agent rec ((init_sys agent rec)\<lparr>bs_broker := b\<rparr>)"
    by (rule submit_jobs_reachable [OF broker_reachable.init])
      (use b assms(2,3) in \<open>simp_all add: init_sys_def live_ids_def live_jobs_def triaging_jobs_def NewBroker_def queue_bag_def\<close>)
  from broker_reachable.step [OF this broker_step.close] show ?thesis by (simp add: s init_sys_def)
qed

lemma with_broker_simps [simp]:
  "dp_sys (with_broker s b tri ps) = \<lparr>bs_broker = b, bs_triaging = tri\<rparr>" "dp_procs (with_broker s b tri ps) = ps"
  "dp_main (with_broker s b tri ps) = dp_main s"
  by (simp_all add: with_broker_def)

lemma sys_update: "\<lparr>bs_broker = b, bs_triaging = bs_triaging t\<rparr> = t\<lparr>bs_broker := b\<rparr>"
  "\<lparr>bs_broker = b, bs_triaging = x\<rparr> = t\<lparr>bs_broker := b, bs_triaging := x\<rparr>"
  by simp_all

lemma disp_step_broker:
  assumes "disp_step s s'"
  shows "dp_sys s' = dp_sys s \<or> (\<exists>l. broker_step (dp_sys s) l (dp_sys s') \<and> l \<noteq> LSubmit)"
  using assms
proof cases
  case (claims xs p ys now reply b)
  then show ?thesis
    by (cases "cl_Job reply") (fastforce simp: sys_update(1) dest: broker_step.grant broker_step.idle)+
next
  case (reports xs p ys job args now b)
  then show ?thesis using broker_step.success [OF reports(4)] by (auto simp: sys_update(1))
next
  case (refused xs p ys job args now e b)
  then show ?thesis using broker_step.unknown [OF refused(4)] by (auto simp: sys_update(1))
next
  case (triages xs p ys job args now failed b)
  then show ?thesis using broker_step.failure [OF triages(4)] by (auto simp: sys_update(2) [of _ _ "dp_sys s"])
next
  case (decides xs p ys args job us vs now)
  then show ?thesis using broker_step.decide [OF decides(4) refl, of now] by (auto simp: sys_update(2) [of _ _ "dp_sys s"])
next
  case (decides_alone us args job vs now)
  then show ?thesis using broker_step.decide [OF decides_alone(2) refl, of now] by (auto simp: sys_update(2) [of _ _ "dp_sys s"])
qed (simp_all add: main_receive_def)

lemma disp_reachable_broker:
  "disp_reachable s0 s \<Longrightarrow> broker_reachable agent rec (dp_sys s0) \<Longrightarrow> broker_reachable agent rec (dp_sys s)"
proof (induction rule: disp_reachable.induct)
  case (step s s')
  then show ?case using disp_step_broker [OF step.hyps(2)] by (metis broker_reachable.step)
qed simp

lemma broker_step_keeps_done:
  assumes "broker_step s l t" and "br_done (bs_broker s)"
  shows "br_done (bs_broker t)"
  using assms(1)
proof cases
  case (idle now worker reply b)
  then show ?thesis using broker_Claim_idle(1) [OF idle(3,4)] assms(2) by (auto simp: broker_maybeDone_done)
qed (use assms(2) in \<open>auto elim!: broker_SubmitE broker_Claim_grantE broker_Report_successE broker_Report_failureE
    dest!: broker_Submit_rejected broker_Report_unknown
    simp: broker_CloseSubmissions_def broker_maybeDone_done broker_Report_finish_done\<close>)

lemma disp_step_keeps_done: "disp_step s s' \<Longrightarrow> br_done (bs_broker (dp_sys s)) \<Longrightarrow> br_done (bs_broker (dp_sys s'))"
  using disp_step_broker broker_step_keeps_done by metis

text \<open>Nothing is submitted after the start.\<close>

lemma submit_jobs_count: "submit_jobs js b = (None, b') \<Longrightarrow> st_Submitted (br_stats b') = st_Submitted (br_stats b) + length js"
  by (induction js b rule: submit_jobs.induct) (auto elim!: broker_SubmitE split: prod.splits option.splits)

lemma Report_finish_submitted [simp]:
  "st_Submitted (br_stats (broker_Report_finish now args job d b)) = st_Submitted (br_stats b)"
  by (simp add: broker_Report_finish_def broker_apply_decision_def Let_def stat_retried_def stat_adjusted_def stat_escalated_def)

lemma broker_step_submitted:
  assumes "broker_step s l t" and "l \<noteq> LSubmit"
  shows "st_Submitted (br_stats (bs_broker t)) = st_Submitted (br_stats (bs_broker s))"
  using assms(1)
proof cases
  case (idle now worker reply b)
  then show ?thesis using broker_Claim_idle(1) [OF idle(3,4)] by auto
qed (use assms(2) in \<open>auto elim!: broker_Claim_grantE broker_Report_successE broker_Report_failureE
    dest!: broker_Submit_rejected broker_Report_unknown simp: broker_CloseSubmissions_def\<close>)

lemma disp_reachable_submitted:
  "disp_reachable s0 s \<Longrightarrow> st_Submitted (br_stats (bs_broker (dp_sys s))) = st_Submitted (br_stats (bs_broker (dp_sys s0)))"
proof (induction rule: disp_reachable.induct)
  case (step s s')
  then show ?case using disp_step_broker [OF step.hyps(2)] broker_step_submitted by metis
qed simp

lemma start_run_submitted:
  "start_run agent rec js exe starts = Inr s0 \<Longrightarrow> st_Submitted (br_stats (bs_broker (dp_sys s0))) = length js"
  using submit_jobs_count [of js "NewBroker agent rec"]
  by (auto simp: start_run_def NewBroker_def broker_CloseSubmissions_def split: prod.splits option.splits sum.splits)

text \<open>What the coordinator's main goroutine knows at each point.\<close>

definition reaped :: "proc list \<Rightarrow> nat" where
  "reaped ps = length (filter pr_reaped ps)"

definition reaped_ok :: "proc list \<Rightarrow> bool" where
  "reaped_ok ps \<longleftrightarrow> (\<forall>p \<in> set ps. pr_reaped p \<longrightarrow> pr_pc p = BExit None)"

definition procs_exited :: "proc list \<Rightarrow> bool" where
  "procs_exited ps \<longleftrightarrow> (\<forall>p \<in> set ps. pr_reaped p \<longrightarrow> (\<exists>e. pr_pc p = BExit e))"

definition main_inv :: "disp \<Rightarrow> bool" where
  "main_inv s \<longleftrightarrow> procs_exited (dp_procs s) \<and>
     (case dp_main s of
        MSelect \<Rightarrow> reaped (dp_procs s) = 0
      | MDrain n err \<Rightarrow> br_done (bs_broker (dp_sys s)) \<and> n = reaped (dp_procs s) \<and> (err = None \<longrightarrow> reaped_ok (dp_procs s))
      | MReturn None \<Rightarrow> br_done (bs_broker (dp_sys s)) \<and> reaped_ok (dp_procs s) \<and> reaped (dp_procs s) = length (dp_procs s)
      | MReturn (Some e) \<Rightarrow> True)"

lemma reaped_simps [simp]:
  "reaped (xs @ ys) = reaped xs + reaped ys" "reaped (p # ys) = (if pr_reaped p then 1 else 0) + reaped ys" "reaped [] = 0"
  "reaped_ok (xs @ ys) \<longleftrightarrow> reaped_ok xs \<and> reaped_ok ys" "reaped_ok (p # ys) \<longleftrightarrow> (pr_reaped p \<longrightarrow> pr_pc p = BExit None) \<and> reaped_ok ys"
  "procs_exited (xs @ ys) \<longleftrightarrow> procs_exited xs \<and> procs_exited ys"
  "procs_exited (p # ys) \<longleftrightarrow> (pr_reaped p \<longrightarrow> (\<exists>e. pr_pc p = BExit e)) \<and> procs_exited ys"
  by (auto simp: reaped_def reaped_ok_def procs_exited_def)

lemma reaped_le: "reaped ps \<le> length ps"
  by (simp add: reaped_def)

lemma reaped_zero_ok: "reaped ps = 0 \<Longrightarrow> reaped_ok ps"
  by (auto simp: reaped_def reaped_ok_def filter_empty_conv)

text \<open>A step of a process that has not exited is no matter of the main goroutine's.\<close>

lemma main_inv_proc:
  assumes inv: "main_inv s" and ps: "dp_procs s = xs @ p # ys" and live: "\<And>e. pr_pc p \<noteq> BExit e"
    and s': "dp_procs s' = xs @ at_point p pc # ys" "dp_main s' = dp_main s"
    and d: "br_done (bs_broker (dp_sys s)) \<Longrightarrow> br_done (bs_broker (dp_sys s'))"
  shows "main_inv s'"
proof -
  have "\<not> pr_reaped p" using inv live by (auto simp: main_inv_def ps)
  then show ?thesis using inv d
    by (auto simp: main_inv_def ps s' at_point_def split: main_pc.splits option.splits)
qed

lemma disp_step_main:
  assumes "disp_step s s'" and inv: "main_inv s"
  shows "main_inv s'"
proof -
  note d = disp_step_keeps_done [OF assms(1)]
  show ?thesis using assms(1)
  proof cases
    case (claims xs p ys now reply b)
    show ?thesis by (rule main_inv_proc [OF inv claims(2) _ _ _ d]) (simp_all add: claims)
  next
    case (runs xs p ys job r0 answer)
    show ?thesis by (rule main_inv_proc [OF inv runs(2) _ _ _ d]) (simp_all add: runs)
  next
    case (reports xs p ys job args now b)
    show ?thesis by (rule main_inv_proc [OF inv reports(2) _ _ _ d]) (simp_all add: reports)
  next
    case (refused xs p ys job args now e b)
    show ?thesis by (rule main_inv_proc [OF inv refused(2) _ _ _ d]) (simp_all add: refused)
  next
    case (triages xs p ys job args now failed b)
    show ?thesis by (rule main_inv_proc [OF inv triages(2) _ _ _ d]) (simp_all add: triages)
  next
    case (decides xs p ys args job us vs now)
    show ?thesis by (rule main_inv_proc [OF inv decides(2) _ _ _ d]) (simp_all add: decides)
  next
    case (decides_alone us args job vs now)
    then show ?thesis using inv d by (auto simp: main_inv_def split: main_pc.splits option.splits)
  next
    case (dies xs p ys e)
    show ?thesis by (rule main_inv_proc [OF inv dies(2) _ _ _ d]) (use dies in auto)
  next
    case main_sees_done
    then show ?thesis using inv by (simp add: main_inv_def main_done_def reaped_zero_ok)
  next
    case (main_sees_exit xs p ys e)
    show ?thesis
    proof (cases "br_done (bs_broker (dp_sys s))")
      case True
      then show ?thesis using inv main_sees_exit
        by (auto simp: main_inv_def main_receive_def main_exit_def reaped_zero_ok)
    next
      case False
      have "procs_exited (kill_others ps)" for ps
        by (auto simp: procs_exited_def kill_others_def at_point_def split: bw_pc.splits)
      then show ?thesis using False by (simp add: main_sees_exit(1) main_inv_def main_receive_def main_exit_def)
    qed
  next
    case (main_drains n err xs p ys e)
    then show ?thesis using inv by (auto simp: main_inv_def main_drain_def)
  next
    case (main_returns n err)
    then show ?thesis using inv reaped_le [of "dp_procs s"] by (auto simp: main_inv_def main_return_def split: option.splits)
  qed
qed

lemma start_workers_fresh:
  "start_workers i starts ps = Inr qs \<Longrightarrow> qs = ps @ map (\<lambda>k. new_proc (worker_id k)) [i..<i + length starts]"
  by (induction i starts ps rule: start_workers.induct) (simp_all add: upt_rec)

lemma start_run_main: "start_run agent rec js exe starts = Inr s \<Longrightarrow> main_inv s"
  by (auto simp: start_run_def main_inv_def procs_exited_def reaped_def new_proc_def filter_empty_conv
      dest!: start_workers_fresh split: prod.splits option.splits sum.splits)

lemma disp_reachable_main: "disp_reachable s0 s \<Longrightarrow> main_inv s0 \<Longrightarrow> main_inv s"
  by (induction rule: disp_reachable.induct) (auto intro: disp_step_main)

lemma run_settled:
  assumes "start_run agent rec js exe starts = Inr s0" and "distinct (map (j_ID \<circ> snd) js)" and "\<forall>(_, j) \<in> set js. j_Attempt j = 0"
    and "disp_reachable s0 s" and "dp_main s = MReturn None"
  shows "br_done (bs_broker (dp_sys s)) \<and> st_Submitted (br_stats (bs_broker (dp_sys s))) = length js \<and>
    st_Succeeded (br_stats (bs_broker (dp_sys s))) + st_Escalated (br_stats (bs_broker (dp_sys s))) = length js \<and>
    map pr_pc (dp_procs s) = replicate (length (dp_procs s)) (BExit None) \<and>
    map pr_reaped (dp_procs s) = replicate (length (dp_procs s)) True"
proof -
  have inv: "main_inv s" by (rule disp_reachable_main [OF assms(4) start_run_main [OF assms(1)]])
  have b: "broker_reachable agent rec (dp_sys s)"
    by (rule disp_reachable_broker [OF assms(4) start_run_reachable [OF assms(1-3)]])
  have r: "br_done (bs_broker (dp_sys s))" "reaped_ok (dp_procs s)" "reaped (dp_procs s) = length (dp_procs s)"
    using inv assms(5) by (simp_all add: main_inv_def)
  have "filter pr_reaped (dp_procs s) = dp_procs s"
    using r(3) by (metis filter_id_conv length_filter_less nat_neq_iff reaped_def)
  then have all: "\<forall>p \<in> set (dp_procs s). pr_reaped p" by (metis filter_id_conv)
  then have "map pr_reaped (dp_procs s) = replicate (length (dp_procs s)) True"
    "map pr_pc (dp_procs s) = replicate (length (dp_procs s)) (BExit None)"
    using r(2) by (simp_all add: reaped_ok_def map_replicate_const [symmetric])
  moreover have "st_Submitted (br_stats (bs_broker (dp_sys s))) = length js"
    using disp_reachable_submitted [OF assms(4)] start_run_submitted [OF assms(1)] by simp
  ultimately show ?thesis using r(1) broker_done_iff_settled_aux [OF broker_reachable_inv [OF b]] by simp
qed

text \<open>
  C6: a run that returns nil has done its work. If the coordinator returns nil, then \<open>Done()\<close> is
  closed and as many jobs as were given have succeeded or been escalated, and every worker process has
  exited without error and was waited for, whatever workers did or died in between.
\<close>

theorem dispatcher_success:
  assumes "start_run agent rec js exe starts = Inr s0" and "distinct (map (j_ID \<circ> snd) js)" and "\<forall>(_, j) \<in> set js. j_Attempt j = 0"
    and "disp_reachable s0 s" and "dp_main s = MReturn None"
  shows "br_done (bs_broker (dp_sys s)) \<and> st_Submitted (br_stats (bs_broker (dp_sys s))) = length js \<and>
    st_Succeeded (br_stats (bs_broker (dp_sys s))) + st_Escalated (br_stats (bs_broker (dp_sys s))) = length js \<and>
    map pr_pc (dp_procs s) = replicate (length (dp_procs s)) (BExit None) \<and>
    map pr_reaped (dp_procs s) = replicate (length (dp_procs s)) True"
  by (rule run_settled [OF assms])

subsection \<open>Two concrete runs\<close>

definition dstate :: "broker \<Rightarrow> (report_args \<times> job) list \<Rightarrow> bw_pc list \<Rightarrow> main_pc \<Rightarrow> disp" where
  "dstate b tri pcs m = \<lparr>dp_sys = \<lparr>bs_broker = b, bs_triaging = tri\<rparr>,
     dp_procs = map (\<lambda>(i, pc). at_point (new_proc (worker_id i)) pc) (enumerate 0 pcs), dp_main = m\<rparr>"

lemma dstate_simps [simp]:
  "dp_sys (dstate b tri pcs m) = \<lparr>bs_broker = b, bs_triaging = tri\<rparr>" "dp_main (dstate b tri pcs m) = m"
  "dp_procs (dstate b tri pcs m) = map (\<lambda>(i, pc). at_point (new_proc (worker_id i)) pc) (enumerate 0 pcs)"
  by (simp_all add: dstate_def)

lemma at_point_simps [simp]:
  "pr_pc (at_point p pc) = pc" "pr_ID (at_point p pc) = pr_ID p" "pr_reaped (at_point p pc) = pr_reaped p"
  "at_point (at_point p pc) pc' = at_point p pc'" "pr_ID (new_proc i) = i" "pr_reaped (new_proc i) = False"
  by (simp_all add: at_point_def new_proc_def)

text \<open>One worker, one job that succeeds.\<close>

definition ok_job :: job where
  "ok_job = demo_job\<lparr>j_InjectFailure := []\<rparr>"

definition ok_b0 :: broker where
  "ok_b0 = broker_CloseSubmissions (snd (broker_Submit 10 ok_job (NewBroker policy_Decide (Some demo_recorder))))"

definition ok_b1 :: broker where
  "ok_b1 = snd (broker_Claim 20 (worker_id 0) ok_b0)"

definition ok_started :: job where
  "ok_started = the (cl_Job (fst (broker_Claim 20 (worker_id 0) ok_b0)))"

definition ok_result :: result where
  "ok_result = ra_Result (success_report [])"

definition ok_report :: report_args where
  "ok_report = worker_report (worker_id 0) ok_result ok_started (worker_outcome ok_started (Inr ok_result))"

definition ok_b2 :: broker where
  "ok_b2 = snd (broker_Report_begin 30 ok_report ok_b1)"

definition ok_b3 :: broker where
  "ok_b3 = snd (broker_Claim 40 (worker_id 0) ok_b2)"

lemma ok_facts:
  "start_run policy_Decide (Some demo_recorder) [(10, ok_job)] None [None] = Inr (dstate ok_b0 [] [BClaim] MSelect)"
  "claim_next (Inr (fst (broker_Claim 20 (worker_id 0) ok_b0))) = BRun ok_started"
  "fst (broker_Report_begin 30 ok_report ok_b1) = Inr None"
  "claim_next (Inr (fst (broker_Claim 40 (worker_id 0) ok_b2))) = BExit None"
  "br_done ok_b3"
proof -
  have "fst (submit_jobs [(10, ok_job)] (NewBroker policy_Decide (Some demo_recorder))) = None" by code_simp
  moreover have "broker_CloseSubmissions (snd (submit_jobs [(10, ok_job)] (NewBroker policy_Decide (Some demo_recorder)))) = ok_b0"
    using calculation by (simp add: ok_b0_def split: prod.splits option.splits)
  ultimately show "start_run policy_Decide (Some demo_recorder) [(10, ok_job)] None [None] = Inr (dstate ok_b0 [] [BClaim] MSelect)"
    by (auto simp: start_run_def dstate_def at_point_def new_proc_def split: prod.splits option.splits)
qed code_simp+

lemma ok_run: "\<exists>s. disp_reachable (dstate ok_b0 [] [BClaim] MSelect) s \<and> dp_main s = MReturn None \<and> bs_broker (dp_sys s) = ok_b3"
proof -
  have 1: "disp_step (dstate ok_b0 [] [BClaim] MSelect) (dstate ok_b1 [] [BRun ok_started] MSelect)"
    using disp_step.claims [of "dstate ok_b0 [] [BClaim] MSelect" "[]" _ "[]" 20 "fst (broker_Claim 20 (worker_id 0) ok_b0)" ok_b1]
    by (simp add: ok_facts(2) ok_b1_def dstate_def with_broker_def)
  have 2: "disp_step (dstate ok_b1 [] [BRun ok_started] MSelect) (dstate ok_b1 [] [BReport ok_started ok_report] MSelect)"
    using disp_step.runs [of "dstate ok_b1 [] [BRun ok_started] MSelect" "[]" _ "[]" ok_started ok_result "Inr ok_result"]
    by (simp add: dstate_def ok_report_def)
  have 3: "disp_step (dstate ok_b1 [] [BReport ok_started ok_report] MSelect) (dstate ok_b2 [] [BClaim] MSelect)"
    using disp_step.reports [of "dstate ok_b1 [] [BReport ok_started ok_report] MSelect" "[]" _ "[]" ok_started ok_report 30 ok_b2] ok_facts(3)
    by (simp add: ok_b2_def report_next_def prod_eq_iff dstate_def with_broker_def)
  have 4: "disp_step (dstate ok_b2 [] [BClaim] MSelect) (dstate ok_b3 [] [BExit None] MSelect)"
    using disp_step.claims [of "dstate ok_b2 [] [BClaim] MSelect" "[]" _ "[]" 40 "fst (broker_Claim 40 (worker_id 0) ok_b2)" ok_b3]
    by (simp add: ok_facts(4) ok_b3_def dstate_def with_broker_def)
  have 5: "disp_step (dstate ok_b3 [] [BExit None] MSelect) (dstate ok_b3 [] [BExit None] (MDrain 0 None))"
    using disp_step.main_sees_done [of "dstate ok_b3 [] [BExit None] MSelect"] ok_facts(5) by (simp add: dstate_def main_done_def)
  let ?p = "(at_point (new_proc (worker_id 0)) (BExit None))\<lparr>pr_reaped := True\<rparr>"
  let ?s = "(dstate ok_b3 [] [BExit None] (MDrain 0 None))\<lparr>dp_main := MDrain 1 None, dp_procs := [?p]\<rparr>"
  have 6: "disp_step (dstate ok_b3 [] [BExit None] (MDrain 0 None)) ?s"
    using disp_step.main_drains [of "dstate ok_b3 [] [BExit None] (MDrain 0 None)" 0 None "[]" _ "[]" None] by (simp add: main_drain_def)
  have 7: "disp_step ?s (?s\<lparr>dp_main := MReturn None\<rparr>)"
    using disp_step.main_returns [of ?s 1 None] by (simp add: main_return_def)
  have "disp_reachable (dstate ok_b0 [] [BClaim] MSelect) (?s\<lparr>dp_main := MReturn None\<rparr>)"
    using 1 2 3 4 5 6 7 by (meson disp_reachable.intros)
  then show ?thesis by (intro exI [of _ "?s\<lparr>dp_main := MReturn None\<rparr>"]) simp
qed

theorem dispatcher_success_witness:
  "\<exists>s :: disp. dp_main s = MReturn None \<and> br_done (bs_broker (dp_sys s)) \<and>
     st_Succeeded (br_stats (bs_broker (dp_sys s))) + st_Escalated (br_stats (bs_broker (dp_sys s))) = 1"
proof -
  obtain s where s: "disp_reachable (dstate ok_b0 [] [BClaim] MSelect) s" "dp_main s = MReturn None" using ok_run by blast
  have "j_Attempt ok_job = 0" by (simp add: ok_job_def demo_job_def)
  then have "distinct (map (j_ID \<circ> snd) [(10 :: time, ok_job)])" "\<forall>(_, j) \<in> set [(10 :: time, ok_job)]. j_Attempt j = 0" by simp_all
  from dispatcher_success [OF ok_facts(1) this s] show ?thesis using s(2) by (intro exI [of _ s]) simp
qed

text \<open>Two workers, one job that fails: the second worker asks while the job is in triage.\<close>

definition race_b5 :: broker where
  "race_b5 = snd (broker_Claim 35 (worker_id 1) (bs_broker demo4))"

lemma race_facts:
  "start_run policy_Decide (Some demo_recorder) [(10, demo_job)] None [None, None] = Inr (dstate (bs_broker demo2) [] [BClaim, BClaim] MSelect)"
  "claim_next (Inr (fst (broker_Claim 20 (worker_id 0) (bs_broker demo2)))) = BRun demo_started"
  "snd (broker_Claim 20 (worker_id 0) (bs_broker demo2)) = bs_broker demo3"
  "worker_report (worker_id 0) (ra_Result (success_report [])) demo_started (worker_outcome demo_started answer) = demo_failure"
  "claim_next (Inr (fst (broker_Claim 35 (worker_id 1) (bs_broker demo4)))) = BExit None"
  "\<not> br_done race_b5"
proof -
  have w: "worker_id 0 = ''worker-01''" by code_simp
  have "fst (submit_jobs [(10, demo_job)] (NewBroker policy_Decide (Some demo_recorder))) = None" by code_simp
  moreover have "broker_CloseSubmissions (snd (submit_jobs [(10, demo_job)] (NewBroker policy_Decide (Some demo_recorder)))) = bs_broker demo2"
    using calculation by (simp add: demo2_def demo1_def demo0_def init_sys_def split: prod.splits option.splits)
  ultimately show "start_run policy_Decide (Some demo_recorder) [(10, demo_job)] None [None, None] = Inr (dstate (bs_broker demo2) [] [BClaim, BClaim] MSelect)"
    by (auto simp: start_run_def dstate_def at_point_def new_proc_def numeral_2_eq_2 split: prod.splits option.splits)
  show "snd (broker_Claim 20 (worker_id 0) (bs_broker demo2)) = bs_broker demo3" by (simp add: w demo3_def)
  have "injectedError (j_InjectFailure demo_started) = Some ''transient GPU worker reset''" by code_simp
  then have "worker_outcome demo_started answer = Inl ''transient GPU worker reset''" by (simp add: worker_outcome_def)
  moreover have "worker_report (worker_id 0) (ra_Result (success_report [])) demo_started (Inl ''transient GPU worker reset'') = demo_failure"
    by code_simp
  ultimately show "worker_report (worker_id 0) (ra_Result (success_report [])) demo_started (worker_outcome demo_started answer) = demo_failure"
    by simp
qed code_simp+


end
