(* ===== verification/SqsProps.thy ===== *)
theory SqsProps
  imports SqsSystem BrokerProps
begin

text \<open>
  The properties of the SQS back end, each after the text that states it, and the run at which
  their hypotheses hold: a worker dies with the only job in its hands, a second one receives the
  job again, completes it, deletes the message and leaves.
\<close>

section \<open>A concrete run\<close>

definition demo_queues :: queues where
  "demo_queues = \<lparr>qs_cfg = sqs_defaults \<lparr>c_Endpoint = [], c_Region = [], c_Prefix = [],
       c_VisibilityTimeout = 0, c_MaxReceiveCount = 0\<rparr>, qs_tierURL = [], qs_dlqURL = []\<rparr>"

definition sq0 :: sqs_sys where
  "sq0 = init_sqs policy_Decide (Some demo_recorder) demo_queues"

definition sq_job :: job where
  "sq_job = prepare_job 10 demo_job"

definition sq1 :: sqs_sys where
  "sq1 = send_to_pool sq_job (sq0\<lparr>sy_coord := snd (snd (sqs_Submit 10 demo_job None (sy_coord sq0))),
     sy_accepted := sy_accepted sq0 @ [j_ID demo_job]\<rparr>)"

definition sq2 :: sqs_sys where
  "sq2 = sq1\<lparr>sy_coord := sqs_CloseSubmissions (sy_coord sq1)\<rparr>"

definition sq_worker :: "string \<Rightarrow> worker_pc \<Rightarrow> sqs_worker" where
  "sq_worker i pc = \<lparr>wk_ID = i, wk_mid = 0, wk_pc = pc\<rparr>"

definition sq_with :: "sqs_coord \<Rightarrow> (nat \<times> job) list \<Rightarrow> string \<Rightarrow> worker_pc \<Rightarrow> sqs_sys" where
  "sq_with c pool i pc = sq2\<lparr>sy_coord := c, sy_pool := pool, sy_workers := [sq_worker i pc]\<rparr>"

definition sq_delivery :: "int \<Rightarrow> delivery" where
  "sq_delivery n = \<lparr>dl_Job = unindexed sq_job, dl_Tier = 3, dl_ReceiveCount = n, dl_MessageID = [],
     dl_queueURL = [], dl_receipt = []\<rparr>"

definition sq_result :: result where
  "sq_result = ra_Result (success_report [])"

definition sq_report :: sqs_report_args where
  "sq_report = report_of ''w2'' sq_result (sq_delivery 2) (Inr sq_result)"

text \<open>After the first worker died, the coordinator's answers to the second.\<close>

definition sq_coord1 :: sqs_coord where
  "sq_coord1 = snd (sqs_Started 30 (started_args_of ''w2'' (sq_delivery 2)) (sy_coord sq2))"

definition sq_coord2 :: sqs_coord where
  "sq_coord2 = snd (sqs_Report_begin 40 sq_report sq_coord1)"

definition sq_end :: sqs_sys where
  "sq_end = sq_with sq_coord2 [] ''w2'' (WExit AllDone)"

lemma sq_facts:
  "fst (sqs_Submit 10 demo_job None (sy_coord sq0)) = None"
  "fst (snd (sqs_Submit 10 demo_job None (sy_coord sq0))) = Some sq_job"
  "sy_pool sq2 = [(0, sq_job)]" "sy_workers sq2 = []" "sy_accepted sq2 = [''inference-000'']"
  "fst (sqs_Started 30 (started_args_of ''w2'' (sq_delivery 2)) (sy_coord sq2)) = False"
  "fst (sqs_Report_begin 40 sq_report sq_coord1) = Some \<lparr>rr_Duplicate = False, rr_Decision = None\<rparr>"
  "sr_Success sq_report = True"
  "worker_started (sq_delivery 2) False = WRun (sq_delivery 2)"
  "co_done (sy_coord sq2) = False" "co_done sq_coord2 = True"
  by code_simp+


lemma at_sq_worker [simp]: "at_pc (sq_worker i pc) pc' = sq_worker i pc'" "wk_ID (sq_worker i pc) = i"
    "wk_pc (sq_worker i pc) = pc" "wk_mid (sq_worker i pc) = 0" "(sq_worker i pc)\<lparr>wk_mid := 0\<rparr> = sq_worker i pc"
  by (simp_all add: at_pc_def sq_worker_def)

lemma sq_with_simps [simp]: "sy_workers (sq_with c p i pc) = [sq_worker i pc]" "sy_coord (sq_with c p i pc) = c"
    "sy_pool (sq_with c p i pc) = p" "sy_accepted (sq_with c p i pc) = sy_accepted sq2"
    "(sq_with c p i pc)\<lparr>sy_workers := [sq_worker i pc']\<rparr> = sq_with c p i pc'"
    "(sq_with c p i pc)\<lparr>sy_coord := c', sy_workers := [sq_worker i pc']\<rparr> = sq_with c' p i pc'"
    "(sq_with c p i pc)\<lparr>sy_pool := p', sy_workers := [sq_worker i pc']\<rparr> = sq_with c p' i pc'"
  by (simp_all add: sq_with_def)

lemma sq_submits: "sqs_step sq0 (Submits demo_job None) sq1"
  unfolding sq1_def
  by (rule sqs_step.submit [where now = 10 and c = "snd (snd (sqs_Submit 10 demo_job None (sy_coord sq0)))"])
    (use sq_facts(1,2) in \<open>simp_all add: prod_eq_iff sq0_def init_sqs_def NewSQSCoordinator_def\<close>)

lemma sq_closes: "sqs_step sq1 Closes sq2"
  unfolding sq2_def by (rule sqs_step.close)

lemma sq_submitted: "sqs_reachable sq0 sq2"
  using sq_submits sq_closes by (blast intro: sqs_reachable.intros)

abbreviation sq_first :: "string \<Rightarrow> worker_pc \<Rightarrow> sqs_sys" where
  "sq_first \<equiv> sq_with (sy_coord sq2) [(0, sq_job)]"

lemma sq2_eq: "sq2\<lparr>sy_workers := []\<rparr> = sq2" "sq2\<lparr>sy_workers := [sq_worker i pc]\<rparr> = sq_first i pc"
  by (rule sqs_sys.equality; simp add: sq_facts sq_with_def)+

lemma sq_spawn: "sqs_step sq2 (Spawns i) (sq_first i WLoop)"
  using sqs_step.spawn [of sq2 i] by (simp add: sq_facts(4) sq2_eq flip: sq_worker_def)

lemma sq_receive: "sqs_step (sq_first i WLoop) Works (sq_first i (WGot (sq_delivery n)))"
  using sqs_step.receive [of "sq_first i WLoop" "[]" "sq_worker i WLoop" "[]" 0 sq_job "sq_delivery n"]
  by (simp add: worker_received_def sq_delivery_def)

lemma sq_crash: "sqs_step (sq_first i pc) (Gone i) sq2"
proof -
  have "(sq_first i pc)\<lparr>sy_workers := []\<rparr> = sq2" by (rule sqs_sys.equality) (simp_all add: sq_facts sq_with_def)
  then show ?thesis using sqs_step.crash [of "sq_first i pc" "[]" "sq_worker i pc" "[]"] by simp
qed

text \<open>The whole run, with the state in which the first worker holds the only message.\<close>

definition sq_held :: sqs_sys where
  "sq_held = sq_first ''w1'' (WGot (sq_delivery 1))"

lemma sq_reachable_held: "sqs_reachable sq0 sq_held"
  unfolding sq_held_def using sq_submitted sq_spawn sq_receive by (blast intro: sqs_reachable.step)

lemma sq_reachable_died: "sqs_reachable sq_held sq2"
  unfolding sq_held_def using sq_crash by (blast intro: sqs_reachable.intros)

lemma sq_started:
  "sqs_step (sq_first ''w2'' (WGot (sq_delivery 2)))
     (Starts (started_args_of ''w2'' (sq_delivery 2)) False) (sq_with sq_coord1 [(0, sq_job)] ''w2'' (WRun (sq_delivery 2)))"
proof -
  have r: "sqs_Started 30 (started_args_of ''w2'' (sq_delivery 2)) (sy_coord sq2) = (False, sq_coord1)"
    using sq_facts(6) by (simp add: prod_eq_iff sq_coord1_def)
  show ?thesis
    using sqs_step.started [of "sq_first ''w2'' (WGot (sq_delivery 2))" "[]" "sq_worker ''w2'' (WGot (sq_delivery 2))" "[]"
        "sq_delivery 2" 30 False sq_coord1] r sq_facts(9) by simp
qed

lemma sq_ran: "sqs_step (sq_with c p ''w2'' (WRun (sq_delivery 2))) Works (sq_with c p ''w2'' (WReport (sq_delivery 2) sq_report))"
  using sqs_step.run [of "sq_with c p ''w2'' (WRun (sq_delivery 2))" "[]" "sq_worker ''w2'' (WRun (sq_delivery 2))" "[]"
      "sq_delivery 2" sq_result "Inr sq_result"] by (simp add: sq_report_def)

lemma sq_reported:
  "sqs_step (sq_with sq_coord1 p ''w2'' (WReport (sq_delivery 2) sq_report)) Works (sq_with sq_coord2 p ''w2'' (WAck (sq_delivery 2)))"
proof -
  have r: "sqs_Report_begin 40 sq_report sq_coord1 = (Some \<lparr>rr_Duplicate = False, rr_Decision = None\<rparr>, sq_coord2)"
    using sq_facts(7) by (simp add: prod_eq_iff sq_coord2_def)
  show ?thesis
    using sqs_step.report_ends [of "sq_with sq_coord1 p ''w2'' (WReport (sq_delivery 2) sq_report)" "[]"
        "sq_worker ''w2'' (WReport (sq_delivery 2) sq_report)" "[]" "sq_delivery 2" sq_report 40 _ sq_coord2] r sq_facts(8)
    by (simp add: worker_replied_def)
qed

lemma sq_acked: "sqs_step (sq_with c [(0, sq_job)] ''w2'' (WAck (sq_delivery 2))) Works (sq_with c [] ''w2'' WLoop)"
  using sqs_step.ack [of "sq_with c [(0, sq_job)] ''w2'' (WAck (sq_delivery 2))" "[]"
      "sq_worker ''w2'' (WAck (sq_delivery 2))" "[]" "sq_delivery 2"]
  by (simp add: worker_acked_def)

lemma sq_leaves: "sqs_reachable (sq_with sq_coord2 p ''w2'' WLoop) (sq_with sq_coord2 p ''w2'' (WExit AllDone))"
proof -
  have "sqs_step (sq_with sq_coord2 p ''w2'' WLoop) Works (sq_with sq_coord2 p ''w2'' WPoll)"
    using sqs_step.empty [of "sq_with sq_coord2 p ''w2'' WLoop" "[]" "sq_worker ''w2'' WLoop" "[]"]
    by (simp add: worker_received_def)
  moreover have "sqs_step (sq_with sq_coord2 p ''w2'' WPoll) Works (sq_with sq_coord2 p ''w2'' (WExit AllDone))"
    using sqs_step.polled [of "sq_with sq_coord2 p ''w2'' WPoll" "[]" "sq_worker ''w2'' WPoll" "[]"] sq_facts(11)
    by (simp add: worker_polled_def sqs_Status_def)
  ultimately show ?thesis by (blast intro: sqs_reachable.intros)
qed

lemma sqs_reachable_trans: "sqs_reachable b c \<Longrightarrow> sqs_reachable a b \<Longrightarrow> sqs_reachable a c"
  by (induction rule: sqs_reachable.induct) (blast intro: sqs_reachable.step)+

lemma sq_reachable_end: "sqs_reachable sq2 sq_end"
proof -
  have "sqs_reachable sq2 (sq_with sq_coord2 [] ''w2'' WLoop)"
    using sq_spawn sq_receive sq_started sq_ran sq_reported sq_acked by (meson sqs_reachable.intros)
  then show ?thesis unfolding sq_end_def using sq_leaves sqs_reachable_trans by blast
qed

lemmas sq_run = sq_submitted sq_reachable_held sq_reachable_died sq_reachable_end

section \<open>Properties of the system\<close>

text \<open>
  C4: no accepted job is lost. Whatever workers die, stall or run twice, and however often the
  queue redelivers, a job whose submission was accepted is terminal or has a message that was
  not deleted; so once it is in no message any more, its outcome is on record.
\<close>

theorem sqs_no_job_lost:
  assumes "sqs_reachable (init_sqs agent rec qs) s" and "i \<in> set (sy_accepted s)"
  shows "map_of (co_terminal (sy_coord s)) i \<noteq> None \<or> (\<exists>m job. (m, job) \<in> set (sy_pool s) \<and> j_ID job = i)"
  using sqs_reachable_inv [OF assms(1)] assms(2)
  by (fastforce simp: sqs_inv_def pool_ok_def terminal_ids_lookup)

theorem sqs_no_job_lost_witness:
  "\<exists>m job. (m, job) \<in> set (sy_pool sq_held) \<and> j_ID job = ''inference-000''"
proof -
  have "map_of (co_terminal (sy_coord sq2)) ''inference-000'' = None" by code_simp
  then show ?thesis
    using sqs_no_job_lost [OF sq_reachable_held [unfolded sq0_def], of "''inference-000''"]
    by (simp add: sq_held_def sq_facts)
qed

lemma books_settled:
  assumes b: "coord_books c"
  shows "ss_Submitted (co_stats c) \<le> length (co_terminal c) \<longleftrightarrow> fst ` set (co_terminal c) = fst ` set (co_jobs c)"
proof -
  have card: "card (fst ` set (co_terminal c)) = length (co_terminal c)" "card (fst ` set (co_jobs c)) = length (co_jobs c)"
    using b distinct_card [of "map fst (co_terminal c)"] distinct_card [of "map fst (co_jobs c)"] by (simp_all add: coord_books_def)
  have sub: "fst ` set (co_terminal c) \<subseteq> fst ` set (co_jobs c)"
    using b by (simp add: coord_books_def terminal_ids_def coord_ids_def)
  show ?thesis using card_seteq [OF _ sub] card b by (auto simp: coord_books_def)
qed

text \<open>
  C15: the coordinator's books. In every reachable state each terminal job is counted once, as
  succeeded, escalated or dead-lettered, only submitted jobs are terminal, and \<open>Done\<close> is closed
  exactly when submissions are closed and every submitted job is terminal.
\<close>

theorem sqs_books:
  assumes "sqs_reachable (init_sqs agent rec qs) s"
  defines "c \<equiv> sy_coord s"
  shows "ss_Succeeded (co_stats c) + ss_Escalated (co_stats c) + ss_DeadLettered (co_stats c) = length (co_terminal c) \<and>
    fst ` set (co_terminal c) \<subseteq> fst ` set (co_jobs c) \<and> distinct (map fst (co_terminal c)) \<and>
    (co_done c \<longleftrightarrow> co_closed c \<and> fst ` set (co_terminal c) = fst ` set (co_jobs c))"
proof -
  have inv: "coord_inv c" using sqs_reachable_inv [OF assms(1)] by (simp add: sqs_inv_def c_def)
  then have b: "coord_books c" by (simp add: coord_inv_def)
  have "co_done c \<longleftrightarrow> co_closed c \<and> ss_Submitted (co_stats c) \<le> length (co_terminal c)"
    using inv unfolding coord_inv_def coord_books_def by blast
  then show ?thesis using b unfolding books_settled [OF b]
    by (simp add: coord_books_def terminal_ids_def coord_ids_def)
qed

theorem sqs_books_witness:
  "co_done (sy_coord sq_end) \<longleftrightarrow> co_closed (sy_coord sq_end) \<and>
     fst ` set (co_terminal (sy_coord sq_end)) = fst ` set (co_jobs (sy_coord sq_end))"
proof -
  have "sqs_reachable sq0 sq_end" using sq_run sqs_reachable_trans by blast
  from sqs_books [OF this [unfolded sq0_def]] show ?thesis by blast
qed

text \<open>
  C16: an outcome is final. Once a job is on record as completed, escalated or dead-lettered, no
  later step changes that outcome, whatever late reports and redeliveries arrive, and \<open>Done\<close>
  stays closed.
\<close>

theorem sqs_outcome_final:
  assumes "sqs_reachable (init_sqs agent rec qs) s" and "sqs_reachable s s'"
  shows "(map_of (co_terminal (sy_coord s)) \<subseteq>\<^sub>m map_of (co_terminal (sy_coord s'))) \<and>
    (co_done (sy_coord s) \<longrightarrow> co_done (sy_coord s'))"
  using sqs_later_keeps [OF assms(2) sqs_reachable_inv [OF assms(1)]]
  by (fastforce simp: keeps_def map_le_def)

theorem sqs_outcome_final_witness:
  "map_of (co_terminal (sy_coord sq2)) \<subseteq>\<^sub>m map_of (co_terminal (sy_coord sq_end)) \<and>
   map_of (co_terminal (sy_coord sq_end)) ''inference-000'' = Some ''completed''"
proof -
  have "map_of (co_terminal sq_coord2) ''inference-000'' = Some ''completed''" by code_simp
  then have "map_of (co_terminal (sy_coord sq_end)) ''inference-000'' = Some ''completed''" by (simp add: sq_end_def)
  then show ?thesis using sqs_outcome_final [OF sq_submitted [unfolded sq0_def] sq_reachable_end] by blast
qed

text \<open>
  C18: a worker never leaves early. A worker whose loop returned nil has found \<open>Done\<close> closed, so
  submissions are closed and every submitted job is terminal. (The in-process broker does not
  promise this: its workers may leave while a job is still in triage.)
\<close>

theorem sqs_worker_leaves_last:
  assumes "sqs_reachable (init_sqs agent rec qs) s" and "w \<in> set (sy_workers s)" and "wk_pc w = WExit AllDone"
  shows "co_closed (sy_coord s) \<and> fst ` set (co_terminal (sy_coord s)) = fst ` set (co_jobs (sy_coord s))"
proof -
  have "co_done (sy_coord s)" using sqs_reachable_leaves [OF assms(1)] assms(2,3) by (auto simp: leaves_done_def)
  moreover have b: "coord_books (sy_coord s)"
    using sqs_reachable_inv [OF assms(1)] by (simp add: sqs_inv_def coord_inv_def)
  ultimately show ?thesis using books_settled [OF b] by (simp add: coord_books_def)
qed

theorem sqs_worker_leaves_last_witness:
  "fst ` set (co_terminal (sy_coord sq_end)) = fst ` set (co_jobs (sy_coord sq_end)) \<and>
   length (co_jobs (sy_coord sq_end)) = 1"
proof -
  have r: "sqs_reachable sq0 sq_end" using sq_run sqs_reachable_trans by blast
  have "length (co_jobs sq_coord2) = 1" by code_simp
  then show ?thesis
    using sqs_worker_leaves_last [OF r [unfolded sq0_def], of "sq_worker ''w2'' (WExit AllDone)"] by (simp add: sq_end_def)
qed

section \<open>Properties of one failure and of the queue\<close>

lemma sqs_decision_acts:
  "d_Action (sqs_decision agent args) \<in> {Retry, AutoAdjust, Escalate}"
  using coordinator_decision_valid [of agent "sqs_failure args"] by (auto simp: valid_decision_def sqs_decision_def)

text \<open>
  C19: what becomes of a failed attempt. Let \<open>args\<close> be the failing report of a worker on a job that
  is not terminal, and \<open>dec\<close> the coordinator's decision. The worker and the coordinator agree on
  it: on an escalation the job is terminal and its message deleted; on a retry it is not terminal
  and the message is released, and the next start is not counted as a redelivery; on an
  adjustment a copy with the decided batch is sent first, and every delivery of the copy starts
  at a higher attempt with no injected failure. With the budget used up it is an escalation.
\<close>

theorem sqs_failure_handled:
  assumes "sqs_Report_finish now args dec c = (reply, c')" and "dec = sqs_decision agent args"
    and "args = report_of w r0 d (Inl err)" and "map_of (co_terminal c) (j_ID (dl_Job d)) = None"
  shows "(d_Action dec = Escalate \<and> worker_replied d False reply = WAck d \<and>
            map_of (co_terminal c') (j_ID (dl_Job d)) = Some ''escalated'') \<or>
         (worker_attempt d < j_MaxAttempts (dl_Job d) \<and> map_of (co_terminal c') (j_ID (dl_Job d)) = None \<and>
          ((d_Action dec = Retry \<and> worker_replied d False reply = WRelease d \<and>
              map_of (co_released c') (j_ID (dl_Job d)) = Some True) \<or>
           (d_Action dec = AutoAdjust \<and> worker_replied d False reply = WResend d (adjusted_job dec d) \<and>
              j_InjectFailure (adjusted_job dec d) = [] \<and>
              (\<forall>d1. dl_Job d1 = adjusted_job dec d \<and> 1 \<le> dl_ReceiveCount d1 \<longrightarrow> worker_attempt d < worker_attempt d1))))"
proof -
  have job: "sr_Job args = dl_Job d" "sr_Attempt args = worker_attempt d"
    using assms(3) by (simp_all add: report_of_def)
  have reply: "rr_Duplicate reply = False" "rr_Decision reply = Some dec"
    and c': "c' = coord_maybeDone (sqs_apply now args dec (coord_recordTriage now (dl_Job d) args dec c))"
    using assms(1,4) job by (auto simp: sqs_Report_finish_def)
  have budget: "worker_attempt d < j_MaxAttempts (dl_Job d)" if "d_Action dec \<noteq> Escalate"
    using that job by (auto simp: assms(2) sqs_decision_def sqs_failure_def coordinator_decision_def Let_def split: if_splits)
  have "d_Action dec \<in> {Retry, AutoAdjust, Escalate}" using sqs_decision_acts assms(2) by simp
  then show ?thesis using reply assms(4) budget job
    by (auto simp: c' sqs_apply_def Let_def worker_replied_def adjusted_job_def worker_attempt_def
        Retry_def AutoAdjust_def Escalate_def)
qed

definition sq_failure :: sqs_report_args where
  "sq_failure = report_of ''w2'' sq_result (sq_delivery 1) (Inl ''transient GPU worker reset'')"

definition sq_dec :: decision where
  "sq_dec = sqs_decision policy_Decide sq_failure"

theorem sqs_failure_handled_witness:
  "worker_replied (sq_delivery 1) False (fst (sqs_Report_finish 50 sq_failure sq_dec (sy_coord sq2))) = WRelease (sq_delivery 1) \<and>
   map_of (co_released (snd (sqs_Report_finish 50 sq_failure sq_dec (sy_coord sq2)))) ''inference-000'' = Some True"
proof -
  have f: "d_Action sq_dec = Retry" "map_of (co_terminal (sy_coord sq2)) (j_ID (dl_Job (sq_delivery 1))) = None"
    "j_ID (dl_Job (sq_delivery 1)) = ''inference-000''" by code_simp+
  obtain reply c' where r: "sqs_Report_finish 50 sq_failure sq_dec (sy_coord sq2) = (reply, c')" by fastforce
  from sqs_failure_handled [OF r sq_dec_def sq_failure_def f(2)] f show ?thesis
    by (auto simp: r Retry_def AutoAdjust_def Escalate_def)
qed

text \<open>
  C39: strict priority of a sweep. A delivery comes from some tier all of whose higher tiers
  answered empty in the same sweep, is the first message that tier answered, decoded, and carries
  the URL and receipt under which \<open>Ack\<close> deletes it; the sweep answers nothing exactly when all
  five tiers answered empty, each asked once, from the highest.
\<close>

theorem queues_Receive_strict:
  "(case queues_Receive sc q s of
      (Inr (Some d), s') \<Rightarrow>
        (\<exists>n < 5. dl_Tier d = 5 - int n \<and> (\<exists>s1 m ms. all_empty sc q (take n [5, 4, 3, 2, 1]) s = Some s1 \<and>
           sc_receive sc (tier_url q (dl_Tier d)) 1 s1 = (Inr (m # ms), s') \<and>
           sc_unmarshal sc (m_Body m) = Inr (dl_Job d) \<and>
           queues_Ack sc d = sc_delete sc (tier_url q (dl_Tier d)) (m_ReceiptHandle m)))
    | (Inr None, s') \<Rightarrow> all_empty sc q [5, 4, 3, 2, 1] s = Some s'
    | (Inl e, s') \<Rightarrow> True)"
proof -
  obtain r s' where r: "queues_Receive sc q s = (r, s')" by fastforce
  show ?thesis
  proof (cases r)
    case (Inr o1)
    show ?thesis
    proof (cases o1)
      case None
      then have "receive_tiers sc q tiers_down s = (Inr None, s')" using r Inr by (simp add: queues_Receive_def)
      then show ?thesis using receive_tiers_None [of sc q tiers_down s s'] by (simp add: queues_Receive_def tiers_down_eq)
    next
      case (Some d)
      from receive_tiers_Some [of sc q tiers_down s d s'] r Inr Some obtain before after s1 m ms where
        t: "tiers_down = before @ dl_Tier d # after" "all_empty sc q before s = Some s1" and
        m: "sc_receive sc (tier_url q (dl_Tier d)) 1 s1 = (Inr (m # ms), s')" "sc_unmarshal sc (m_Body m) = Inr (dl_Job d)"
          "dl_receipt d = m_ReceiptHandle m" "dl_queueURL d = tier_url q (dl_Tier d)"
        by (auto simp: queues_Receive_def)
      have n: "length before < 5" using arg_cong [OF t(1), of length] by (simp add: tiers_down_eq)
      have "before = take (length before) tiers_down" "dl_Tier d = tiers_down ! length before"
        by (simp_all add: t(1))
      then have "before = take (length before) [5, 4, 3, 2, 1]" "dl_Tier d = [5, 4, 3, 2, 1] ! length before"
        by (simp_all only: tiers_down_eq)
      moreover have "[5, 4, 3, 2, 1] ! k = 5 - int k" if "k < 5" for k :: nat
        using that by (auto simp: less_Suc_eq numeral_eq_Suc)
      moreover have "queues_Ack sc d = sc_delete sc (tier_url q (dl_Tier d)) (m_ReceiptHandle m)"
        using m by (simp add: queues_Ack_def fun_eq_iff)
      ultimately show ?thesis using r Inr Some n t(2) m(1,2) by auto
    qed
  qed (simp add: r)
qed

text \<open>
  C40: workers find the queues the coordinator made. If the service keeps its directory, then after
  a successful \<open>Create\<close>, \<open>Open\<close> with any configuration of the same prefix succeeds and attaches
  to the same URLs, and every priority whatsoever has a queue: \<open>Send\<close> never addresses the empty
  URL of a missing map key.
\<close>

theorem queues_create_open:
  assumes "keeps_directory sc known" and "queues_Create (Inr sc) cfg s = (Inr q, s')"
    and "known t = known s'" and "c_Prefix (sqs_defaults cfg') = c_Prefix (sqs_defaults cfg)"
  shows "(\<exists>q' t'. queues_Open (Inr sc) cfg' t = (Inr q', t') \<and> qs_tierURL q' = qs_tierURL q \<and> qs_dlqURL q' = qs_dlqURL q) \<and>
    (known s' (TierQueueName (c_Prefix (sqs_defaults cfg)) (Tier p)) = Some (tier_url q (Tier p)))"
proof -
  let ?c = "sqs_defaults cfg"
  obtain dlq arn s1 s2 attrs urls where
    dlq: "sc_create sc (DLQName (c_Prefix ?c)) None s = (Inr dlq, s1)" and arn: "sc_arn sc dlq s1 = (Inr arn, s2)"
    and tiers: "create_tiers sc ?c attrs tiers_up [] s2 = (Inr urls, s')"
    and q: "q = \<lparr>qs_cfg = ?c, qs_tierURL = urls, qs_dlqURL = dlq\<rparr>"
    using assms(2) by (auto simp: queues_Create_def Let_def split: prod.splits sum.splits)
  from create_tiers_known [OF assms(1) tiers queue_names(1)] obtain us where
    us: "length us = length tiers_up" "urls = fold (\<lambda>(t, u). map_put t u) (zip tiers_up us) []"
      "\<forall>(t, u) \<in> set (zip tiers_up us). known s' (TierQueueName (c_Prefix ?c) t) = Some u"
      "known s' (DLQName (c_Prefix ?c)) = known s2 (DLQName (c_Prefix ?c))" using queue_names(2) by blast
  have "known s2 = known s1" "known s1 = (known s)(DLQName (c_Prefix ?c) \<mapsto> dlq)"
    using assms(1) dlq arn unfolding keeps_directory_def by blast+
  then have "known t (DLQName (c_Prefix ?c)) = Some dlq" using us(4) assms(3) by simp
  then obtain t1 where t1: "sc_url sc (DLQName (c_Prefix ?c)) t = (Inr dlq, t1)" "known t1 = known t"
    using assms(1) unfolding keeps_directory_def by blast
  obtain t' where "open_tiers sc (sqs_defaults cfg') tiers_up [] t1 = (Inr urls, t')"
    using open_tiers_known [OF assms(1) us(1), of t1 "sqs_defaults cfg'" "[]"] us(2,3) t1(2) assms(3,4) by auto
  then have o: "queues_Open (Inr sc) cfg' t = (Inr \<lparr>qs_cfg = sqs_defaults cfg', qs_tierURL = urls, qs_dlqURL = dlq\<rparr>, t')"
    using t1(1) assms(4) by (simp add: queues_Open_def Let_def)
  have "\<forall>(k, u) \<in> set (zip tiers_up us). map_of urls k = Some u"
    using us(1) by (auto simp: us(2) tiers_up_eq length_Suc_conv)
  moreover have "\<exists>u. (Tier p, u) \<in> set (zip tiers_up us)"
    using in_set_impl_in_set_zip1 [OF us(1) [symmetric], of "Tier p"] Tier_range [of p] by (auto simp: tiers_up_def)
  ultimately have "known s' (TierQueueName (c_Prefix ?c) (Tier p)) = Some (tier_url q (Tier p))"
    using us(3) by (fastforce simp: tier_url_def q)
  then show ?thesis using o q by simp
qed

text \<open>A service that is a list of names, each queue's URL being its name.\<close>

definition list_service :: "(string \<times> string) list sqs_client" where
  "list_service =
     \<lparr>sc_create = (\<lambda>n _ s. (Inr n, map_put n n s)), sc_arn = (\<lambda>u s. (Inr u, s)),
      sc_url = (\<lambda>n s. (case map_of s n of None \<Rightarrow> Inl ''NonExistentQueue'' | Some u \<Rightarrow> Inr u, s)),
      sc_drop = (\<lambda>u s. map_del u s), sc_send = (\<lambda>_ _ s. (None, s)), sc_receive = (\<lambda>_ _ s. (Inr [], s)),
      sc_delete = (\<lambda>_ _ s. (None, s)), sc_visible = (\<lambda>_ _ s. (None, s)),
      sc_marshal = (\<lambda>_. Inl []), sc_unmarshal = (\<lambda>_. Inl [])\<rparr>"

definition demo_config :: sqs_config where
  "demo_config = \<lparr>c_Endpoint = [], c_Region = [], c_Prefix = [], c_VisibilityTimeout = 0, c_MaxReceiveCount = 0\<rparr>"

theorem queues_create_open_witness:
  "\<exists>q s'. queues_Create (Inr list_service) demo_config [] = (Inr q, s') \<and>
     map_of s' (TierQueueName ''sched'' (Tier 9)) = Some (tier_url q (Tier 9)) \<and> tier_url q (Tier 9) = ''sched-p5''"
proof -
  have k: "keeps_directory list_service map_of" by (simp add: keeps_directory_def list_service_def)
  obtain q s' where r: "queues_Create (Inr list_service) demo_config [] = (Inr q, s')"
    and u: "tier_url q (Tier 9) = ''sched-p5''" "c_Prefix (sqs_defaults demo_config) = ''sched''"
  proof -
    have "isl (fst (queues_Create (Inr list_service) demo_config [])) = False"
      "tier_url (projr (fst (queues_Create (Inr list_service) demo_config []))) (Tier 9) = ''sched-p5''"
      "c_Prefix (sqs_defaults demo_config) = ''sched''" by code_simp+
    then show ?thesis
      using that [of "projr (fst (queues_Create (Inr list_service) demo_config []))" "snd (queues_Create (Inr list_service) demo_config [])"]
      by (simp add: prod_eq_iff)
  qed
  from queues_create_open [OF k r refl refl, of 9] show ?thesis using r u by auto
qed

end
