(* ===== verification/SqsRunProps.thy ===== *)
theory SqsRunProps
  imports SqsRunInv DispatcherProps SqsProps
begin

text \<open>
  The properties of the SQS coordinator process: what a run that returns nil has achieved, what the
  supervisor knows of its processes, how the chaos hook replaces a worker, and two ways in which
  a failing start goes wrong.
\<close>

section \<open>The chaos supervisor\<close>

text \<open>The supervisor's operations in any order.\<close>

inductive su_reachable :: "supervisor \<Rightarrow> bool" where
  init: "su_reachable init_supervisor"
| spawn: "su_reachable s \<Longrightarrow> su_reachable (snd (su_spawn started s))"
| exit: "su_reachable s \<Longrightarrow> su_reachable (su_exited i s)"
| mark: "su_reachable s \<Longrightarrow> su_reachable (chaos_mark i s)"

lemma su_reachable_inv: "su_reachable s \<Longrightarrow> su_inv s"
  by (induction rule: su_reachable.induct) (simp_all add: su_inv_init su_inv_spawn su_inv_exit su_inv_mark)

definition on_duty :: "supervisor \<Rightarrow> string set" where
  "on_duty s = {i. \<exists>p. map_of (su_procs s) i = Some p \<and> \<not> wp_killed p \<and> \<not> wp_exited p}"

text \<open>
  Chaos hits exactly the stalled worker and replaces it. The hook picks a delivery exactly when
  the worker that started on it stalls. When it kills a worker that is on duty and the replacement
  starts, that worker and no other leaves duty and one worker with an unused name takes its place.
\<close>

theorem chaos_replaces_stalled:
  assumes "su_reachable s" and "i \<in> on_duty s"
  shows "(worker_started d False = WStall d \<longleftrightarrow> chaos_target (started_args_of i d)) \<and>
    (\<exists>new. on_duty (chaos_kill i None s) = insert new (on_duty s - {i}) \<and> new \<notin> fst ` set (su_procs s) \<and>
       su_spawned (chaos_kill i None s) = Suc (su_spawned s))"
proof -
  obtain p where p: "map_of (su_procs s) i = Some p" "\<not> wp_killed p" "\<not> wp_exited p" using assms(2) by (auto simp: on_duty_def)
  define nw where "nw = next_worker s"
  have f: "map_of (su_procs s) nw = None"
    unfolding nw_def by (rule su_spawn_fresh [OF su_reachable_inv [OF assms(1)]])
  have ne: "nw \<noteq> i" using p f by auto
  have procs: "map_of (su_procs (chaos_kill i None s)) =
      (map_of (su_procs s))(i \<mapsto> p\<lparr>wp_killed := True\<rparr>, nw \<mapsto> \<lparr>wp_killed = False, wp_exited = False\<rparr>)"
    using p by (simp add: chaos_kill_def chaos_mark_def su_spawn_def Let_def nw_def)
  have "k \<in> on_duty (chaos_kill i None s) \<longleftrightarrow> k \<in> insert nw (on_duty s - {i})" for k
    using ne by (simp add: on_duty_def procs)
  then have "on_duty (chaos_kill i None s) = insert nw (on_duty s - {i})" by blast
  moreover have "nw \<notin> fst ` set (su_procs s)" using f by (simp add: map_of_eq_None_iff)
  moreover have "su_spawned (chaos_kill i None s) = Suc (su_spawned s)"
    using p by (simp add: chaos_kill_def chaos_mark_def su_spawn_def Let_def)
  moreover have "worker_started d False = WStall d \<longleftrightarrow> chaos_target (started_args_of i d)"
    by (simp add: worker_started_def stalls_def chaos_target_def started_args_of_def)
  ultimately show ?thesis by blast
qed

definition one_worker :: supervisor where
  "one_worker = snd (su_spawn None init_supervisor)"

theorem chaos_replaces_stalled_witness:
  "on_duty (chaos_kill ''worker-01'' None one_worker) = {''worker-02''}"
proof -
  have r: "su_reachable one_worker" unfolding one_worker_def by (intro su_reachable.intros)
  have procs: "su_procs one_worker = [(''worker-01'', \<lparr>wp_killed = False, wp_exited = False\<rparr>)]"
    "su_procs (chaos_kill ''worker-01'' None one_worker) =
       [(''worker-01'', \<lparr>wp_killed = True, wp_exited = False\<rparr>), (''worker-02'', \<lparr>wp_killed = False, wp_exited = False\<rparr>)]"
    by code_simp+
  have d: "on_duty one_worker = {''worker-01''}" by (auto simp: on_duty_def procs(1))
  have "''worker-02'' \<in> on_duty (chaos_kill ''worker-01'' None one_worker)" by (simp add: on_duty_def procs(2))
  moreover obtain new where "on_duty (chaos_kill ''worker-01'' None one_worker) = insert new (on_duty one_worker - {''worker-01''})"
    using chaos_replaces_stalled [OF r, of "''worker-01''"] d by blast
  ultimately show ?thesis by (simp add: d)
qed

section \<open>Runs of the coordinator\<close>

lemma sqs_run_settled:
  assumes "run_reachable n (start_sqs agent rec qs p h jobs) s" and "distinct (map j_ID jobs)"
    and "rn_main s = CReturn None"
  defines "c \<equiv> sy_coord (rn_sys s)"
  shows "co_done c \<and> fst ` set (co_terminal c) = j_ID ` set jobs \<and> ss_Submitted (co_stats c) = length jobs \<and>
    ss_Succeeded (co_stats c) + ss_Escalated (co_stats c) + ss_DeadLettered (co_stats c) = length jobs \<and>
    sy_workers (rn_sys s) = []"
proof -
  have inv: "run_inv (map j_ID jobs) s" by (rule run_reachable_inv [OF assms(1,2)])
  then have m: "co_done c" "coord_ids c = j_ID ` set jobs" "alive (rn_su s) = {}"
    using assms(3) by (auto simp: run_inv_def all_in_def c_def)
  have b: "coord_books c" using inv by (simp add: run_inv_def sqs_inv_def coord_inv_def c_def)
  have "ss_Submitted (co_stats c) \<le> length (co_terminal c)" using b m(1) by (simp add: coord_books_def)
  then have eq: "fst ` set (co_terminal c) = fst ` set (co_jobs c)" using books_settled [OF b] by simp
  then have all: "length (co_terminal c) = length (co_jobs c)"
    using b by (metis coord_books_def distinct_card length_map set_map)
  have "length (co_jobs c) = card (coord_ids c)"
    using b distinct_card [of "map fst (co_jobs c)"] by (simp add: coord_books_def coord_ids_def)
  also have "\<dots> = length jobs" using m(2) distinct_card [OF assms(2)] by simp
  finally have "length (co_jobs c) = length jobs" .
  moreover have "set (worker_ids (rn_sys s)) = {}" using inv m(3) by (simp add: run_inv_def procs_ok_def)
  ultimately show ?thesis using b eq all m by (simp add: coord_books_def coord_ids_def worker_ids_def)
qed


text \<open>
  The supervisor knows its processes. In every reachable state the entries of its map that have
  not exited are exactly the worker processes that exist, no name is used twice, \<open>alive()\<close> is their
  number, and every exit in the channel has an entry, so the main goroutine never panics on it.
\<close>

theorem sqs_run_processes:
  assumes "run_reachable n (start_sqs agent rec qs p h jobs) s" and "distinct (map j_ID jobs)"
  shows "alive (rn_su s) = wk_ID ` set (sy_workers (rn_sys s)) \<and> distinct (map wk_ID (sy_workers (rn_sys s))) \<and>
    su_alive (rn_su s) = length (sy_workers (rn_sys s)) \<and> su_spawned (rn_su s) = length (su_procs (rn_su s)) \<and>
    set (rn_exits s) \<subseteq> fst ` set (su_procs (rn_su s)) \<and> rn_main s \<noteq> CPanic"
proof -
  have inv: "run_inv (map j_ID jobs) s" by (rule run_reachable_inv [OF assms])
  then have p: "procs_ok (rn_sys s) (rn_su s) (rn_exits s)" by (simp add: run_inv_def)
  then have "su_alive (rn_su s) = length (sy_workers (rn_sys s))" by (rule alive_count)
  moreover have "rn_main s \<noteq> CPanic" using inv by (auto simp: run_inv_def)
  ultimately show ?thesis using p by (auto simp: procs_ok_def worker_ids_def su_inv_def)
qed

text \<open>
  The drain can always finish. Once the main goroutine has left its loop, the deaths of the
  stragglers, which it kills at the deadline, are enough for it to return what it was to return.
\<close>

lemma sqs_drain_ends:
  assumes "run_reachable n (start_sqs agent rec qs p h jobs) s" and "distinct (map j_ID jobs)"
    and "rn_main s = CDrain err"
  shows "\<exists>s'. run_reachable n s s' \<and> rn_main s' = CReturn err \<and>
    rn_exits s' = rn_exits s @ map wk_ID (sy_workers (rn_sys s))"
  using assms
proof (induction "sy_workers (rn_sys s)" arbitrary: s)
  case Nil
  have "procs_ok (rn_sys s) (rn_su s) (rn_exits s)" using run_reachable_inv [OF Nil.prems(1,2)] by (simp add: run_inv_def)
  from alive_count [OF this] have "su_alive (rn_su s) = 0" using Nil.hyps by simp
  from run_step.returns [OF Nil.prems(3) this] have "run_step n s (s\<lparr>rn_main := CReturn err\<rparr>)" .
  then show ?case using Nil.hyps run_reachable.step [OF run_reachable.start]
    by (intro exI [of _ "s\<lparr>rn_main := CReturn err\<rparr>"]) auto
next
  case (Cons w ws)
  have "sqs_step (rn_sys s) (Gone (wk_ID w)) ((rn_sys s)\<lparr>sy_workers := ws\<rparr>)"
    using sqs_step.crash [of "rn_sys s" "[]" w ws] Cons.hyps(2) by simp
  then have step: "run_step n s (s\<lparr>rn_sys := (rn_sys s)\<lparr>sy_workers := ws\<rparr>, rn_su := su_exited (wk_ID w) (rn_su s),
      rn_exits := rn_exits s @ [wk_ID w]\<rparr>)" (is "run_step n s ?s")
    using Cons.prems(3) by (intro run_step.worker_exits) simp_all
  have "\<exists>s'. run_reachable n ?s s' \<and> rn_main s' = CReturn err \<and> rn_exits s' = rn_exits ?s @ map wk_ID (sy_workers (rn_sys ?s))"
    by (rule Cons.hyps(1)) (use Cons.prems run_reachable.step [OF Cons.prems(1) step] in simp_all)
  then obtain s' where s': "run_reachable n ?s s'" "rn_main s' = CReturn err"
      "rn_exits s' = rn_exits s @ map wk_ID (w # ws)" by auto
  have "run_reachable n s s'"
    by (rule run_reachable_trans [OF s'(1) run_reachable.step [OF run_reachable.start step]])
  then show ?case using s'(2,3) Cons.hyps(2) by (intro exI [of _ s']) simp
qed

section \<open>Concrete runs\<close>

text \<open>One job, the coordinator's first steps: the job is submitted, submissions are closed.\<close>

definition rn_with :: "sqs_sys \<Rightarrow> supervisor \<Rightarrow> string list \<Rightarrow> hook list \<Rightarrow> coord_pc \<Rightarrow> coord_run" where
  "rn_with sys su exits hooks pc = \<lparr>rn_sys = sys, rn_su = su, rn_exits = exits, rn_hooks = hooks, rn_main = pc\<rparr>"

lemma rn_with_simps [simp]:
  "rn_sys (rn_with sys su exits hooks pc) = sys" "rn_su (rn_with sys su exits hooks pc) = su"
  "rn_exits (rn_with sys su exits hooks pc) = exits" "rn_hooks (rn_with sys su exits hooks pc) = hooks"
  "rn_main (rn_with sys su exits hooks pc) = pc"
  by (simp_all add: rn_with_def)

definition px0 :: sqs_sys where
  "px0 = init_sqs policy_Decide None demo_queues"

definition px_job :: job where
  "px_job = chaos_job 1 0 0 demo_job"

definition px1 :: sqs_sys where
  "px1 = send_to_pool (prepare_job 10 px_job) (px0\<lparr>sy_coord := snd (snd (sqs_Submit 10 px_job None (sy_coord px0))),
     sy_accepted := sy_accepted px0 @ [j_ID px_job]\<rparr>)"

definition px2 :: sqs_sys where
  "px2 = px1\<lparr>sy_coord := sqs_CloseSubmissions (sy_coord px1)\<rparr>"

definition px_with :: "sqs_coord \<Rightarrow> worker_pc list \<Rightarrow> sqs_sys" where
  "px_with c pcs = px2\<lparr>sy_coord := c, sy_workers := map (sq_worker ''worker-01'') pcs\<rparr>"

lemma px_with_simps [simp]:
  "sy_workers (px_with c pcs) = map (sq_worker ''worker-01'') pcs" "sy_coord (px_with c pcs) = c"
  "sy_pool (px_with c pcs) = sy_pool px2"
  "(px_with c pcs)\<lparr>sy_workers := [sq_worker ''worker-01'' pc]\<rparr> = px_with c [pc]"
  "(px_with c pcs)\<lparr>sy_workers := []\<rparr> = px_with c []"
  "(px_with c pcs)\<lparr>sy_coord := c', sy_workers := [sq_worker ''worker-01'' pc]\<rparr> = px_with c' [pc]"
  by (simp_all add: px_with_def)

definition px_delivery :: delivery where
  "px_delivery = \<lparr>dl_Job = unindexed (prepare_job 10 px_job), dl_Tier = 3, dl_ReceiveCount = 1, dl_MessageID = [],
     dl_queueURL = [], dl_receipt = []\<rparr>"

abbreviation px_args :: started_args where
  "px_args \<equiv> started_args_of ''worker-01'' px_delivery"

definition px_coord :: sqs_coord where
  "px_coord = snd (sqs_Started 30 px_args (sy_coord px2))"

lemma px_facts:
  "chaos_jobs 1 0 [demo_job] = [px_job]" "next_worker init_supervisor = ''worker-01''"
  "fst (sqs_Submit 10 px_job None (sy_coord px0)) = None"
  "fst (snd (sqs_Submit 10 px_job None (sy_coord px0))) = Some (prepare_job 10 px_job)"
  "sy_pool px2 = [(0, prepare_job 10 px_job)]" "sy_workers px2 = []"
  "fst (sqs_Started 30 px_args (sy_coord px2)) = False"
  "worker_started px_delivery False = WStall px_delivery"
  "started_hook px_args False = [Kill ''worker-01'']"
  "co_done px_coord = False"
  by code_simp+

lemma px_submits: "sqs_step px0 (Submits px_job None) px1"
  unfolding px1_def
  by (rule sqs_step.submit [where now = 10 and c = "snd (snd (sqs_Submit 10 px_job None (sy_coord px0)))"])
    (use px_facts(3,4) in \<open>simp_all add: prod_eq_iff px0_def init_sqs_def NewSQSCoordinator_def\<close>)

lemma px_closes: "sqs_step px1 Closes px2"
  unfolding px2_def by (rule sqs_step.close)

lemma px_eq: "px2\<lparr>sy_workers := [sq_worker ''worker-01'' pc]\<rparr> = px_with (sy_coord px2) [pc]"
  by (rule sqs_sys.equality) (simp_all add: px_with_def)

lemma px_spawns: "sqs_step px2 (Spawns ''worker-01'') (px_with (sy_coord px2) [WLoop])"
  using sqs_step.spawn [of px2 "''worker-01''"] by (simp add: px_facts(6) px_eq flip: sq_worker_def)

lemma px_receives: "sqs_step (px_with c [WLoop]) Works (px_with c [WGot px_delivery])"
  using sqs_step.receive [of "px_with c [WLoop]" "[]" "sq_worker ''worker-01'' WLoop" "[]" 0 "prepare_job 10 px_job" px_delivery]
  by (simp add: worker_received_def px_delivery_def px_facts(5))

lemma px_starts: "sqs_step (px_with (sy_coord px2) [WGot px_delivery]) (Starts px_args False) (px_with px_coord [WStall px_delivery])"
proof -
  have r: "sqs_Started 30 px_args (sy_coord px2) = (False, px_coord)"
    using px_facts(7) by (simp add: prod_eq_iff px_coord_def)
  show ?thesis
    using sqs_step.started [of "px_with (sy_coord px2) [WGot px_delivery]" "[]" "sq_worker ''worker-01'' (WGot px_delivery)" "[]"
        px_delivery 30 False px_coord] r px_facts(8) by simp
qed

lemma px_dies: "sqs_step (px_with c [pc]) (Gone ''worker-01'') (px_with c [])"
  using sqs_step.crash [of "px_with c [pc]" "[]" "sq_worker ''worker-01'' pc" "[]"] by simp

abbreviation px_err :: string where
  "px_err \<equiv> ''resource temporarily unavailable''"

text \<open>After the first worker has started, of \<open>n\<close> to start.\<close>

definition px_su :: supervisor where
  "px_su = snd (su_spawn None init_supervisor)"

lemma px_first:
  "run_reachable (Suc n) (start_sqs policy_Decide None demo_queues 1 0 [demo_job])
     (rn_with (px_with (sy_coord px2) [WLoop]) px_su [] [] (CSpawn n))"
proof -
  let ?n = "Suc n"
  have 0: "start_sqs policy_Decide None demo_queues 1 0 [demo_job] = rn_with px0 init_supervisor [] [] (CSubmit [px_job])"
    by (simp add: start_sqs_def rn_with_def px0_def px_facts(1))
  have 1: "run_step ?n (rn_with px0 init_supervisor [] [] (CSubmit [px_job])) (rn_with px1 init_supervisor [] [] (CSubmit []))"
    using run_step.submits [of "rn_with px0 init_supervisor [] [] (CSubmit [px_job])" px_job "[]" px1] px_submits
    by (simp add: rn_with_def)
  have 2: "run_step ?n (rn_with px1 init_supervisor [] [] (CSubmit [])) (rn_with px2 init_supervisor [] [] (CSpawn ?n))"
    using run_step.closes [of "rn_with px1 init_supervisor [] [] (CSubmit [])" px2] px_closes by (simp add: rn_with_def)
  have 3: "run_step ?n (rn_with px2 init_supervisor [] [] (CSpawn ?n)) (rn_with (px_with (sy_coord px2) [WLoop]) px_su [] [] (CSpawn n))"
    using run_step.starts_worker [of "rn_with px2 init_supervisor [] [] (CSpawn ?n)" n px_su "px_with (sy_coord px2) [WLoop]"]
      px_spawns px_facts(2) by (simp add: rn_with_def px_su_def su_spawn_def Let_def)
  show ?thesis unfolding 0 by (intro run_reachable.step [OF _ 3] run_reachable.step [OF _ 2] run_reachable.step [OF _ 1] run_reachable.start)
qed

lemma px_loop:
  "run_step n (rn_with (px_with c [WLoop]) px_su [] [] (CSpawn 0)) (rn_with (px_with c [WLoop]) px_su [] [] CLoop)"
  using run_step.all_started [of "rn_with (px_with c [WLoop]) px_su [] [] (CSpawn 0)"] by (simp add: rn_with_def)

text \<open>
  C31: workers are left behind when a later start fails. Unlike the broker's coordinator, which kills
  the workers it has started, this one returns the error with the first worker alive.
\<close>

theorem sqs_run_orphans:
  "\<exists>s. run_reachable 2 (start_sqs policy_Decide None demo_queues 1 0 [demo_job]) s \<and>
     rn_main s = CReturn (Some (StartError (''start worker-02: '' @ px_err))) \<and>
     map wk_ID (sy_workers (rn_sys s)) = [''worker-01''] \<and> su_alive (rn_su s) = 1"
proof -
  let ?s = "rn_with (px_with (sy_coord px2) [WLoop]) px_su [] [] (CSpawn (Suc 0))"
  have e: "su_spawn (Some px_err) px_su = (Some (''start worker-02: '' @ px_err), snd (su_spawn (Some px_err) px_su))"
    "su_alive (snd (su_spawn (Some px_err) px_su)) = 1" by code_simp+
  have "run_step (Suc (Suc 0)) ?s (rn_with (px_with (sy_coord px2) [WLoop]) (snd (su_spawn (Some px_err) px_su)) [] []
      (CReturn (Some (StartError (''start worker-02: '' @ px_err)))))" (is "run_step _ _ ?t")
    using run_step.start_fails [of ?s 0 px_err _ _ "Suc (Suc 0)"] e(1) by (simp add: rn_with_def)
  then have "run_reachable (Suc (Suc 0)) (start_sqs policy_Decide None demo_queues 1 0 [demo_job]) ?t"
    by (rule run_reachable.step [OF px_first])
  then show ?thesis using e(2) by (intro exI [of _ ?t]) (simp add: numeral_2_eq_2)
qed


section \<open>Witnesses\<close>

text \<open>A run that ends well: the job's message turns up in the dead-letter queue and the worker leaves.\<close>

definition px_dead :: dead_letter where
  "px_dead = \<lparr>dd_Job = unindexed (prepare_job 10 px_job), dd_MessageID = [], dd_ReceiveCount = 3\<rparr>"

definition px_buried :: sqs_coord where
  "px_buried = watch_round 40 (Inr [px_dead]) (sy_coord px2)"

lemma px_watches: "sqs_step (px_with (sy_coord px2) [WLoop]) Watches (px_with px_buried [WLoop])"
proof -
  have "(px_with c pcs)\<lparr>sy_coord := c'\<rparr> = px_with c' pcs" for c c' pcs by (simp add: px_with_def)
  then show ?thesis
    using sqs_step.watch [of "[px_dead]" "px_with (sy_coord px2) [WLoop]" 40]
    by (simp add: px_buried_def px_facts(5)) (simp add: px_dead_def)
qed

abbreviation px_draining :: coord_run where
  "px_draining \<equiv> rn_with (px_with px_buried [WLoop]) px_su [] [] (CDrain None)"

lemma px_drains: "run_reachable (Suc 0) (start_sqs policy_Decide None demo_queues 1 0 [demo_job]) px_draining"
proof -
  let ?c = "sy_coord px2" and ?n = "Suc 0"
  have d: "co_done px_buried" by code_simp
  have 2: "run_step ?n (rn_with (px_with ?c [WLoop]) px_su [] [] CLoop) (rn_with (px_with px_buried [WLoop]) px_su [] [] CLoop)"
    using run_step.watches [of "rn_with (px_with ?c [WLoop]) px_su [] [] CLoop" "px_with px_buried [WLoop]"] px_watches
    by (simp add: rn_with_def)
  have 3: "run_step ?n (rn_with (px_with px_buried [WLoop]) px_su [] [] CLoop) px_draining"
    using run_step.sees_done [of "rn_with (px_with px_buried [WLoop]) px_su [] [] CLoop"] d by (simp add: rn_with_def)
  show ?thesis
    by (intro run_reachable.step [OF _ 3] run_reachable.step [OF _ 2] run_reachable.step [OF px_first px_loop])
qed

lemma px_run:
  "\<exists>s. run_reachable (Suc 0) (start_sqs policy_Decide None demo_queues 1 0 [demo_job]) s \<and> rn_main s = CReturn None \<and>
     sy_coord (rn_sys s) = px_buried"
proof -
  let ?w = "''worker-01''" and ?n = "Suc 0"
  have d: "su_alive (su_exited ?w px_su) = 0" by code_simp
  have 4: "run_step ?n px_draining (rn_with (px_with px_buried []) (su_exited ?w px_su) [?w] [] (CDrain None))"
    using run_step.worker_exits [of px_draining ?w "px_with px_buried []"] px_dies by (simp add: rn_with_def)
  have 5: "run_step ?n (rn_with (px_with px_buried []) (su_exited ?w px_su) [?w] [] (CDrain None))
      (rn_with (px_with px_buried []) (su_exited ?w px_su) [?w] [] (CReturn None))"
    using run_step.returns [of "rn_with (px_with px_buried []) (su_exited ?w px_su) [?w] [] (CDrain None)" None] d
    by (simp add: rn_with_def)
  have "run_reachable ?n (start_sqs policy_Decide None demo_queues 1 0 [demo_job])
      (rn_with (px_with px_buried []) (su_exited ?w px_su) [?w] [] (CReturn None))"
    by (intro run_reachable.step [OF _ 5] run_reachable.step [OF px_drains 4])
  then show ?thesis by (intro exI conjI) (assumption, simp_all)
qed


theorem sqs_run_processes_witness:
  "alive px_su = {''worker-01''} \<and> su_alive px_su = 1"
proof -
  have "distinct (map j_ID [demo_job])" by simp
  from sqs_run_processes [OF px_first this] show ?thesis by simp
qed

end
