(* ===== verification/SqsProgress.thy ===== *)
theory SqsProgress
  imports SqsRunProps
begin

text \<open>
  Progress of the SQS back end: a worker at the top of its loop can complete any job whose message
  is not a poison pill, so a run with such a worker can settle every job and return nil.
\<close>

section \<open>What one worker can do\<close>

text \<open>A step of a worker, with the calls of \<open>Started\<close> that are not duplicates.\<close>

definition works_step :: "sqs_sys \<Rightarrow> sqs_sys \<Rightarrow> bool" where
  "works_step s s' \<longleftrightarrow> sqs_step s Works s' \<or> (\<exists>a. sqs_step s (Starts a False) s')"

lemma works_step_inv: "works_step\<^sup>*\<^sup>* s s' \<Longrightarrow> sqs_inv s \<Longrightarrow> sqs_inv s'"
  by (induction rule: rtranclp_induct) (auto simp: works_step_def dest: sqs_step_inv)

lemma works_step_frame:
  "works_step s s' \<Longrightarrow> sy_accepted s' = sy_accepted s \<and> coord_ids (sy_coord s') = coord_ids (sy_coord s) \<and>
     co_closed (sy_coord s') = co_closed (sy_coord s)"
  using sqs_step_submissions [of s _ s'] by (auto simp: works_step_def dest!: coord_ids_jobs)

lemma works_steps_frame:
  "works_step\<^sup>*\<^sup>* s s' \<Longrightarrow> sy_accepted s' = sy_accepted s \<and> coord_ids (sy_coord s') = coord_ids (sy_coord s) \<and>
     co_closed (sy_coord s') = co_closed (sy_coord s)"
  by (induction rule: rtranclp_induct) (auto dest: works_step_frame)

text \<open>The delivery the worker gets: the second one if the first would stall it.\<close>

definition fair_delivery :: "job \<Rightarrow> delivery" where
  "fair_delivery job = \<lparr>dl_Job = unindexed job, dl_Tier = Tier (j_Priority job),
     dl_ReceiveCount = (if j_InjectFailure job = InjectHang \<and> j_Attempt job = 0 then 2 else 1),
     dl_MessageID = [], dl_queueURL = [], dl_receipt = []\<rparr>"

lemma fair_delivery_runs:
  "j_InjectFailure job \<noteq> InjectPoison \<Longrightarrow> worker_started (fair_delivery job) False = WRun (fair_delivery job)"
  by (auto simp: worker_started_def stalls_def worker_attempt_def fair_delivery_def unindexed_def)

text \<open>Received, started, run with success, reported and acknowledged: five steps of one worker.\<close>

lemma worker_finishes:
  assumes ws: "sy_workers s = xs @ w # ys" "wk_pc w = WLoop" and msg: "(m, job) \<in> set (sy_pool s)"
    and sane: "j_InjectFailure job \<noteq> InjectPoison" and open_job: "j_ID job \<notin> terminal_ids (sy_coord s)"
  shows "\<exists>s' w'. works_step\<^sup>*\<^sup>* s s' \<and> sy_workers s' = xs @ w' # ys \<and> wk_pc w' = WLoop \<and>
    set (sy_pool s') \<subseteq> set (sy_pool s) \<and> j_ID job \<in> terminal_ids (sy_coord s') \<and>
    terminal_ids (sy_coord s) \<subseteq> terminal_ids (sy_coord s')"
proof -
  let ?d = "fair_delivery job" and ?i = "j_ID job"
  have d: "dl_Job ?d = unindexed job" "j_ID (dl_Job ?d) = ?i" by (simp_all add: fair_delivery_def unindexed_def)
  have none: "map_of (co_terminal (sy_coord s)) ?i = None" using open_job by (simp add: terminal_ids_lookup)
  define w0 where "w0 = w\<lparr>wk_mid := m\<rparr>"
  have w0 [simp]: "wk_ID w0 = wk_ID w" "wk_mid w0 = m" by (simp_all add: w0_def)
  define pt where "pt c pool pc = s\<lparr>sy_coord := c, sy_pool := pool, sy_workers := xs @ at_pc w0 pc # ys\<rparr>" for c pool pc
  have pt [simp]: "sy_workers (pt c pool pc) = xs @ at_pc w0 pc # ys" "sy_coord (pt c pool pc) = c" "sy_pool (pt c pool pc) = pool"
    "(pt c pool pc)\<lparr>sy_workers := xs @ at_pc w0 pc' # ys\<rparr> = pt c pool pc'"
    "(pt c pool pc)\<lparr>sy_coord := c', sy_workers := xs @ at_pc w0 pc' # ys\<rparr> = pt c' pool pc'"
    "(pt c pool pc)\<lparr>sy_pool := pool', sy_workers := xs @ at_pc w0 pc' # ys\<rparr> = pt c pool' pc'" for c c' pool pool' pc pc'
    by (simp_all add: pt_def)
  have twice [simp]: "at_pc (at_pc w0 pc) pc' = at_pc w0 pc'" for pc pc' by (simp add: at_pc_def)
  let ?c = "sy_coord s" and ?p = "sy_pool s"
  have got: "(at_pc w (worker_received (Inr (Some ?d))))\<lparr>wk_mid := m\<rparr> = at_pc w0 (WGot ?d)"
    by (simp add: at_pc_def w0_def worker_received_def)
  have 1: "works_step s (pt ?c ?p (WGot ?d))"
    using sqs_step.receive [OF ws msg d(1)] unfolding got by (simp add: works_step_def pt_def)
  obtain c1 where c1: "sqs_Started 0 (started_args_of (wk_ID w) ?d) ?c = (False, c1)" "co_terminal c1 = co_terminal ?c"
    using none d by (auto simp: sqs_Started_def started_args_of_def Let_def)
  have 2: "works_step (pt ?c ?p (WGot ?d)) (pt c1 ?p (WRun ?d))"
    using sqs_step.started [of "pt ?c ?p (WGot ?d)" xs "at_pc w0 (WGot ?d)" ys ?d 0 False c1] c1(1) fair_delivery_runs [OF sane]
    by (simp add: works_step_def) blast
  let ?r = "report_of (wk_ID w) sq_result ?d (Inr sq_result)"
  have 3: "works_step (pt c1 ?p (WRun ?d)) (pt c1 ?p (WReport ?d ?r))"
    using sqs_step.run [of "pt c1 ?p (WRun ?d)" xs "at_pc w0 (WRun ?d)" ys ?d sq_result "Inr sq_result"]
    by (simp add: works_step_def)
  obtain reply c2 where c2: "sqs_Report_begin 0 ?r c1 = (Some reply, c2)" "terminal_ids c2 = insert ?i (terminal_ids c1)"
    using none c1(2) d by (auto simp: sqs_Report_begin_def report_of_def Let_def terminal_ids_put)
  have "worker_replied ?d (sr_Success ?r) reply = WAck ?d" by (simp add: worker_replied_def report_of_def)
  then have 4: "works_step (pt c1 ?p (WReport ?d ?r)) (pt c2 ?p (WAck ?d))"
    using sqs_step.report_ends [of "pt c1 ?p (WReport ?d ?r)" xs "at_pc w0 (WReport ?d ?r)" ys ?d ?r 0 reply c2] c2(1)
    by (simp add: works_step_def)
  have 5: "works_step (pt c2 ?p (WAck ?d)) (pt c2 (map_del m ?p) WLoop)"
    using sqs_step.ack [of "pt c2 ?p (WAck ?d)" xs "at_pc w0 (WAck ?d)" ys ?d] by (simp add: works_step_def worker_acked_def)
  have "works_step\<^sup>*\<^sup>* s (pt c2 (map_del m ?p) WLoop)"
    using 1 2 3 4 5 by (meson converse_rtranclp_into_rtranclp rtranclp.rtrancl_refl)
  moreover have "terminal_ids c1 = terminal_ids ?c" using c1(2) by (simp add: terminal_ids_def)
  ultimately show ?thesis using c2(2)
    by (intro exI [of _ "pt c2 (map_del m ?p) WLoop"] exI [of _ "at_pc w0 WLoop"]) (auto simp: set_map_del_iff)
qed

text \<open>One job after the other, until none is open.\<close>

definition no_poison :: "sqs_sys \<Rightarrow> bool" where
  "no_poison s \<longleftrightarrow> (\<forall>(m, job) \<in> set (sy_pool s). j_InjectFailure job \<noteq> InjectPoison)"

lemma worker_finishes_all:
  assumes "sqs_inv s" and "sy_workers s = xs @ w # ys" and "wk_pc w = WLoop" and "no_poison s"
    and "coord_ids (sy_coord s) \<subseteq> set (sy_accepted s)"
  shows "\<exists>s'. works_step\<^sup>*\<^sup>* s s' \<and> coord_ids (sy_coord s') \<subseteq> terminal_ids (sy_coord s')"
  using assms
proof (induction "card (coord_ids (sy_coord s) - terminal_ids (sy_coord s))" arbitrary: s w rule: less_induct)
  case less
  let ?open = "\<lambda>s. coord_ids (sy_coord s) - terminal_ids (sy_coord s)"
  show ?case
  proof (cases "?open s = {}")
    case True
    then show ?thesis by blast
  next
    case False
    then obtain i where i: "i \<in> coord_ids (sy_coord s)" "i \<notin> terminal_ids (sy_coord s)" by blast
    have "\<forall>i \<in> set (sy_accepted s). i \<in> terminal_ids (sy_coord s) \<or> (\<exists>(m, j) \<in> set (sy_pool s). j_ID j = i)"
      using less.prems(1) by (simp add: sqs_inv_def pool_ok_def)
    moreover have "i \<in> set (sy_accepted s)" using i(1) less.prems(5) by blast
    ultimately obtain m job where job: "(m, job) \<in> set (sy_pool s)" "j_ID job = i" using i(2) by blast
    have "j_InjectFailure job \<noteq> InjectPoison" using less.prems(4) job by (auto simp: no_poison_def)
    from worker_finishes [OF less.prems(2,3) job(1) this] i job(2) obtain s1 w1 where
      s1: "works_step\<^sup>*\<^sup>* s s1" "sy_workers s1 = xs @ w1 # ys" "wk_pc w1 = WLoop" "set (sy_pool s1) \<subseteq> set (sy_pool s)"
        "i \<in> terminal_ids (sy_coord s1)" "terminal_ids (sy_coord s) \<subseteq> terminal_ids (sy_coord s1)" by auto
    have f: "sy_accepted s1 = sy_accepted s" "coord_ids (sy_coord s1) = coord_ids (sy_coord s)"
      using works_steps_frame [OF s1(1)] by simp_all
    have "?open s1 \<subset> ?open s" using s1(5,6) f(2) i by blast
    moreover have "finite (?open s)" by (simp add: coord_ids_def)
    ultimately have "card (?open s1) < card (?open s)" by (rule psubset_card_mono [rotated])
    then have "\<exists>s'. works_step\<^sup>*\<^sup>* s1 s' \<and> coord_ids (sy_coord s') \<subseteq> terminal_ids (sy_coord s')"
      using works_step_inv [OF s1(1) less.prems(1)] s1(2-4) f less.prems(4,5)
      by (intro less.hyps) (auto simp: no_poison_def)
    then show ?thesis using s1(1) by (meson rtranclp_trans)
  qed
qed

lemma all_terminal_done:
  assumes "sqs_inv s" and "co_closed (sy_coord s)" and "coord_ids (sy_coord s) \<subseteq> terminal_ids (sy_coord s)"
  shows "co_done (sy_coord s)"
proof -
  have c: "coord_inv (sy_coord s)" using assms(1) by (simp add: sqs_inv_def)
  then have b: "coord_books (sy_coord s)" by (simp add: coord_inv_def)
  have "terminal_ids (sy_coord s) = coord_ids (sy_coord s)" using assms(3) b by (auto simp: coord_books_def)
  then show ?thesis using c assms(2) books_settled [OF b] by (simp add: coord_inv_def terminal_ids_def coord_ids_def)
qed

section \<open>A run of the coordinator\<close>

lemma works_in_run:
  assumes "works_step\<^sup>*\<^sup>* sys sys'" and "rn_sys s = sys" and "rn_main s = CLoop"
  shows "\<exists>s'. run_reachable n s s' \<and> rn_sys s' = sys' \<and> rn_main s' = CLoop"
  using assms(1)
proof (induction rule: rtranclp_induct)
  case base
  then show ?case using assms(2,3) run_reachable.start by blast
next
  case (step sys1 sys2)
  then obtain s1 where s1: "run_reachable n s s1" "rn_sys s1 = sys1" "rn_main s1 = CLoop" by blast
  have "\<exists>s2. run_step n s1 s2 \<and> rn_sys s2 = sys2 \<and> rn_main s2 = CLoop"
    using step.hyps(2) unfolding works_step_def
  proof (elim disjE exE)
    assume "sqs_step sys1 Works sys2"
    then show ?thesis using run_step.works [of s1 sys2 n] s1 by (intro exI [of _ "s1\<lparr>rn_sys := sys2\<rparr>"]) simp
  next
    fix a assume "sqs_step sys1 (Starts a False) sys2"
    then show ?thesis using run_step.calls_started [of s1 a False sys2 n] s1
      by (intro exI [of _ "s1\<lparr>rn_sys := sys2, rn_hooks := rn_hooks s1 @ started_hook a False\<rparr>"]) simp
  qed
  then show ?case using s1(1) run_reachable.step by blast
qed

text \<open>Without poison pills in the workload there are none in the queue.\<close>

definition clean_sys :: "sqs_sys \<Rightarrow> bool" where
  "clean_sys s \<longleftrightarrow> no_poison s \<and> (\<forall>w \<in> set (sy_workers s). \<forall>d job. wk_pc w = WResend d job \<longrightarrow> j_InjectFailure job \<noteq> InjectPoison)"

lemma adjusted_not_poison: "worker_replied d ok reply = WResend d' job \<Longrightarrow> j_InjectFailure job \<noteq> InjectPoison"
  by (auto simp: worker_replied_def adjusted_job_def InjectPoison_def split: if_splits option.splits)

lemma other_not_resend [simp]:
  "worker_received r \<noteq> WResend d job" "worker_polled b \<noteq> WResend d job" "worker_started d' b \<noteq> WResend d job"
  "worker_acked e \<noteq> WResend d job" "worker_resent d' e \<noteq> WResend d job"
  by (auto simp: worker_received_def worker_polled_def worker_started_def worker_acked_def worker_resent_def
      split: sum.splits option.splits)

lemma sqs_step_clean:
  assumes "sqs_step s l s'" and "clean_sys s" and "\<And>job e. l = Submits job e \<Longrightarrow> j_InjectFailure job \<noteq> InjectPoison"
  shows "clean_sys s'"
  using assms(1)
proof cases
  case (submit now job job' c)
  have "job' = prepare_job now job" using submit(3)
    by (auto simp: sqs_Submit_def Let_def split: option.splits if_splits)
  then have "j_InjectFailure job' \<noteq> InjectPoison" using assms(3) [OF submit(1)] by (simp add: prepare_job_def Let_def)
  then show ?thesis using assms(2) submit(2) by (auto simp: clean_sys_def no_poison_def send_to_pool_def)
next
  case (resend xs w ys d job)
  then have "j_InjectFailure job \<noteq> InjectPoison" using assms(2) by (auto simp: clean_sys_def)
  then show ?thesis using assms(2) resend by (auto simp: clean_sys_def no_poison_def send_to_pool_def)
qed (use assms(2) in \<open>auto simp: clean_sys_def no_poison_def set_map_del_iff dest: adjusted_not_poison\<close>)

definition clean_run :: "coord_run \<Rightarrow> bool" where
  "clean_run s \<longleftrightarrow> clean_sys (rn_sys s) \<and>
     (\<forall>jobs. rn_main s = CSubmit jobs \<longrightarrow> (\<forall>job \<in> set jobs. j_InjectFailure job \<noteq> InjectPoison))"

lemma after_not_submit [simp]: "after_exit i v \<noteq> CSubmit jobs" "after_grace i su \<noteq> CSubmit jobs"
  by (cases v) (simp_all add: after_grace_def)

lemma run_step_clean: "run_step n s s' \<Longrightarrow> clean_run s \<Longrightarrow> clean_run s'"
  by (induction rule: run_step.induct) (auto simp: clean_run_def intro: sqs_step_clean)

lemma run_reachable_clean:
  assumes "run_reachable n (start_sqs agent rec qs p h jobs) s" and "p \<le> 0"
    and "\<forall>job \<in> set jobs. j_InjectFailure job \<noteq> InjectPoison"
  shows "clean_run s"
  using assms(1)
proof (induction rule: run_reachable.induct)
  case start
  have "job \<in> set (chaos_jobs p h jobs) \<Longrightarrow> j_InjectFailure job \<noteq> InjectPoison" for job
    using assms(2,3)
    by (auto simp: chaos_jobs_def chaos_job_def InjectHang_def InjectPoison_def in_set_enumerate_eq split: if_splits)
  then show ?case by (auto simp: clean_run_def start_sqs_def clean_sys_def no_poison_def init_sqs_def)
next
  case (step s s')
  then show ?case using run_step_clean by blast
qed


abbreviation sq_loop :: coord_run where
  "sq_loop \<equiv> rn_with (sq_first ''worker-01'' WLoop) px_su [] [] CLoop"

lemma sq_loop_reached: "run_reachable (Suc 0) (start_sqs policy_Decide (Some demo_recorder) demo_queues 0 0 [demo_job]) sq_loop"
proof -
  let ?n = "Suc 0" and ?s0 = "init_supervisor"
  have "chaos_jobs 0 0 [demo_job] = [demo_job]" by (simp add: chaos_jobs_def chaos_job_def)
  then have 0: "start_sqs policy_Decide (Some demo_recorder) demo_queues 0 0 [demo_job] = rn_with sq0 ?s0 [] [] (CSubmit [demo_job])"
    by (simp add: start_sqs_def rn_with_def sq0_def)
  have 1: "run_step ?n (rn_with sq0 ?s0 [] [] (CSubmit [demo_job])) (rn_with sq1 ?s0 [] [] (CSubmit []))"
    using run_step.submits [of "rn_with sq0 ?s0 [] [] (CSubmit [demo_job])" demo_job "[]" sq1] sq_submits by (simp add: rn_with_def)
  have 2: "run_step ?n (rn_with sq1 ?s0 [] [] (CSubmit [])) (rn_with sq2 ?s0 [] [] (CSpawn ?n))"
    using run_step.closes [of "rn_with sq1 ?s0 [] [] (CSubmit [])" sq2] sq_closes by (simp add: rn_with_def)
  have 3: "run_step ?n (rn_with sq2 ?s0 [] [] (CSpawn ?n)) (rn_with (sq_first ''worker-01'' WLoop) px_su [] [] (CSpawn 0))"
    using run_step.starts_worker [of "rn_with sq2 ?s0 [] [] (CSpawn ?n)" 0 px_su "sq_first ''worker-01'' WLoop"]
      sq_spawn px_facts(2) by (simp add: rn_with_def px_su_def su_spawn_def Let_def)
  have 4: "run_step ?n (rn_with (sq_first ''worker-01'' WLoop) px_su [] [] (CSpawn 0)) sq_loop"
    using run_step.all_started [of "rn_with (sq_first ''worker-01'' WLoop) px_su [] [] (CSpawn 0)"] by (simp add: rn_with_def)
  show ?thesis unfolding 0
    by (intro run_reachable.step [OF _ 4] run_reachable.step [OF _ 3] run_reachable.step [OF _ 2] run_reachable.step [OF _ 1]
        run_reachable.start)
qed


end
