(* ===== verification/SqsLog.thy ===== *)
theory SqsLog
  imports SqsProps
begin

text \<open>
  The log of the SQS back end against its coordinator: the terminal events are, in order, the table
  of outcomes, the submissions are the table of jobs, and the other events agree with the counters.
\<close>

section \<open>The log of the coordinator\<close>

definition coord_log :: "sqs_coord \<Rightarrow> event list" where
  "coord_log c = (case co_recorder c of None \<Rightarrow> [] | Some r \<Rightarrow> r_file r)"

definition coord_logging :: "sqs_coord \<Rightarrow> bool" where
  "coord_logging c \<longleftrightarrow> (case co_recorder c of None \<Rightarrow> False | Some r \<Rightarrow> sink_ok r)"

abbreviation outcome_types :: "string set" where
  "outcome_types \<equiv> {''completed'', ''escalated'', ''dead_lettered''}"

definition outcomes :: "event list \<Rightarrow> (string \<times> string) list" where
  "outcomes es = map (\<lambda>e. (ev_JobID e, ev_EventType e)) (filter (\<lambda>e. ev_EventType e \<in> outcome_types) es)"

definition submissions :: "event list \<Rightarrow> string list" where
  "submissions es = map ev_JobID (filter (\<lambda>e. ev_EventType e = ''submitted'') es)"

lemma outcomes_snoc [simp]:
  "outcomes (es @ [e]) = outcomes es @ (if ev_EventType e \<in> outcome_types then [(ev_JobID e, ev_EventType e)] else [])"
  "submissions (es @ [e]) = submissions es @ (if ev_EventType e = ''submitted'' then [ev_JobID e] else [])"
  "outcomes [] = []" "submissions [] = []"
  by (simp_all add: outcomes_def submissions_def)

lemma outcomes_one_each:
  "length (filter (\<lambda>e. ev_EventType e \<in> outcome_types) es) = length (outcomes es)"
  by (simp add: outcomes_def)

text \<open>What \<open>record\<close> and \<open>recordTriage\<close> append.\<close>

lemma log_record:
  assumes "coord_logging c"
  shows "coord_logging (coord_record now j t w a d c)"
    and "\<exists>e. coord_log (coord_record now j t w a d c) = coord_log c @ [e] \<and> ev_EventType e = t \<and> ev_JobID e = j_ID j"
    and "coord_logging (coord_recordTriage now j args dec c)"
    and "\<exists>e. coord_log (coord_recordTriage now j args dec c) = coord_log c @ [e] \<and> ev_EventType e = ''triaged''"
  using assms
  by (auto simp: coord_logging_def coord_log_def coord_record_def coord_recordTriage_def record_event_def
      recorder_Record_file_ok split: option.splits)

lemma log_frame [simp]:
  "coord_log (count_stat f c) = coord_log c" "coord_logging (count_stat f c) = coord_logging c"
  "coord_log (set_terminal i o1 c) = coord_log c" "coord_logging (set_terminal i o1 c) = coord_logging c"
  "coord_log (coord_maybeDone c) = coord_log c" "coord_logging (coord_maybeDone c) = coord_logging c"
  "coord_log (c\<lparr>co_released := rel\<rparr>) = coord_log c" "coord_logging (c\<lparr>co_released := rel\<rparr>) = coord_logging c"
  "coord_log (c\<lparr>co_jobs := jobs\<rparr>) = coord_log c" "coord_logging (c\<lparr>co_jobs := jobs\<rparr>) = coord_logging c"
  "coord_log (c\<lparr>co_closed := b\<rparr>) = coord_log c" "coord_logging (c\<lparr>co_closed := b\<rparr>) = coord_logging c"
  by (simp_all add: coord_log_def coord_logging_def count_stat_def set_terminal_def coord_maybeDone_def)

text \<open>The agreement, of a log with tables and counters.\<close>

definition log_agrees :: "event list \<Rightarrow> (string \<times> job) list \<Rightarrow> (string \<times> string) list \<Rightarrow> sqs_stats \<Rightarrow> bool" where
  "log_agrees es jobs terminal st \<longleftrightarrow> submissions es = map fst jobs \<and> outcomes es = terminal \<and>
     events_of ''retried'' es = ss_Retried st \<and> events_of ''adjusted'' es = ss_Adjusted st \<and>
     events_of ''redelivered'' es = ss_Redelivered st \<and> events_of ''duplicate_delivery'' es \<le> ss_Duplicates st"

definition coord_log_inv :: "sqs_coord \<Rightarrow> bool" where
  "coord_log_inv c \<longleftrightarrow> coord_logging c \<and> log_agrees (coord_log c) (co_jobs c) (co_terminal c) (co_stats c)"

lemma coord_log_inv_maybeDone [simp]: "coord_log_inv (coord_maybeDone c) = coord_log_inv c"
  by (simp add: coord_log_inv_def)

lemma coord_log_inv_released [simp]: "coord_log_inv (c\<lparr>co_released := rel\<rparr>) = coord_log_inv c"
  by (simp add: coord_log_inv_def)

text \<open>One event with the change of tables and counters that goes with it.\<close>

lemma record_agrees:
  assumes "coord_log_inv c" and "coord_logging c'" and "coord_log c' = coord_log c"
    and "co_jobs c' = co_jobs c @ (if t = ''submitted'' then [(j_ID j, job)] else [])"
    and "co_terminal c' = co_terminal c @ (if t \<in> outcome_types then [(j_ID j, t)] else [])"
    and "co_stats c' = f (co_stats c)"
    and "ss_Retried (f (co_stats c)) = ss_Retried (co_stats c) + (if t = ''retried'' then 1 else 0)"
    and "ss_Adjusted (f (co_stats c)) = ss_Adjusted (co_stats c) + (if t = ''adjusted'' then 1 else 0)"
    and "ss_Redelivered (f (co_stats c)) = ss_Redelivered (co_stats c) + (if t = ''redelivered'' then 1 else 0)"
    and "ss_Duplicates (co_stats c) + (if t = ''duplicate_delivery'' then 1 else 0) \<le> ss_Duplicates (f (co_stats c))"
  shows "coord_log_inv (coord_record now j t w a d c')"
proof -
  obtain e where e: "coord_log (coord_record now j t w a d c') = coord_log c' @ [e]" "ev_EventType e = t" "ev_JobID e = j_ID j"
    using log_record(2) [OF assms(2)] by blast
  then show ?thesis using assms log_record(1) [OF assms(2)]
    by (auto simp: coord_log_inv_def log_agrees_def)
qed

lemma triage_agrees: "coord_log_inv c \<Longrightarrow> coord_log_inv (coord_recordTriage now j args dec c)"
proof -
  assume inv: "coord_log_inv c"
  then have l: "coord_logging c" by (simp add: coord_log_inv_def)
  obtain e where e: "coord_log (coord_recordTriage now j args dec c) = coord_log c @ [e]" "ev_EventType e = ''triaged''"
    using log_record(4) [OF l] by blast
  then show ?thesis using inv log_record(3) [OF l] by (simp add: coord_log_inv_def log_agrees_def)
qed

lemma duplicate_agrees:
  "coord_log_inv c \<Longrightarrow> coord_log_inv (count_stat (\<lambda>s. s\<lparr>ss_Duplicates := Suc (ss_Duplicates s)\<rparr>) c)"
  by (simp add: coord_log_inv_def log_agrees_def)

section \<open>The operations\<close>

text \<open>An event that stands for no change, and one that makes a job terminal.\<close>

lemma plain_agrees:
  assumes "coord_log_inv c"
    and "t \<notin> {''submitted'', ''retried'', ''adjusted'', ''redelivered'', ''duplicate_delivery'', ''completed'', ''escalated'', ''dead_lettered''}"
  shows "coord_log_inv (coord_record now j t w a d c)"
  using assms(2) by (intro record_agrees [OF assms(1), where f = "\<lambda>s. s"]) (use assms(1) in \<open>simp_all add: coord_log_inv_def\<close>)

lemma terminal_agrees:
  assumes "coord_log_inv c" and "map_of (co_terminal c) (j_ID j) = None" and "t \<in> outcome_types"
    and "\<And>s. ss_Retried (f s) = ss_Retried s \<and> ss_Adjusted (f s) = ss_Adjusted s \<and> ss_Redelivered (f s) = ss_Redelivered s \<and>
      ss_Duplicates (f s) = ss_Duplicates s"
  shows "coord_log_inv (coord_record now j t w a d (count_stat f (set_terminal (j_ID j) t c)))"
  using assms(3,4) by (intro record_agrees [OF assms(1), where f = f])
    (use assms(1) map_put_fresh [OF assms(2)] in \<open>auto simp: coord_log_inv_def\<close>)

lemma Submit_agrees:
  assumes "coord_log_inv c" and "sqs_Submit now job ans c = (err, sent, c')" and "map_of (co_jobs c) (j_ID job) = None"
  shows "coord_log_inv c'"
proof -
  let ?j = "prepare_job now job" and ?f = "\<lambda>s. s\<lparr>ss_Submitted := Suc (ss_Submitted s)\<rparr>"
  have put: "map_put (j_ID ?j) ?j (co_jobs c) = co_jobs c @ [(j_ID ?j, ?j)]"
    using map_put_fresh assms(3) by simp
  have "coord_log_inv (coord_record now ?j ''submitted'' w a d (count_stat ?f (c\<lparr>co_jobs := map_put (j_ID ?j) ?j (co_jobs c)\<rparr>)))"
    for w a d
    by (rule record_agrees [OF assms(1), where f = ?f and job = ?j]) (use assms(1) put in \<open>simp_all add: coord_log_inv_def\<close>)
  then show ?thesis using assms(1,2) by (auto simp: sqs_Submit_def Let_def split: option.splits if_splits)
qed

lemma Started_agrees:
  assumes "coord_log_inv c" and "sqs_Started now args c = (dup, c')"
  shows "coord_log_inv c'"
proof -
  let ?d = "\<lambda>s. s\<lparr>ss_Duplicates := Suc (ss_Duplicates s)\<rparr>" and ?r = "\<lambda>s. s\<lparr>ss_Redelivered := Suc (ss_Redelivered s)\<rparr>"
  let ?j = "sa_Job args"
  have dup: "coord_log_inv (coord_record now ?j ''duplicate_delivery'' w a d (count_stat ?d c))" for w a d
    by (rule record_agrees [OF assms(1), where f = ?d]) (use assms(1) in \<open>simp_all add: coord_log_inv_def\<close>)
  have re: "coord_log_inv (coord_record now ?j ''redelivered'' w a d (count_stat ?r c))" for w a d
    by (rule record_agrees [OF assms(1), where f = ?r]) (use assms(1) in \<open>simp_all add: coord_log_inv_def\<close>)
  have started: "coord_log_inv c1 \<Longrightarrow> coord_log_inv (coord_record now ?j ''started'' w a d (c1\<lparr>co_released := rel\<rparr>))" for c1 w a d rel
    by (rule plain_agrees) simp_all
  show ?thesis using assms dup re
    by (auto simp: sqs_Started_def Let_def intro!: started split: option.splits if_splits)
qed

lemma Report_begin_agrees:
  assumes "coord_log_inv c" and "sqs_Report_begin now args c = (r, c')"
  shows "coord_log_inv c'"
proof -
  have failed: "coord_log_inv (coord_record now j ''failed'' w a d c)" for j w a d
    by (rule plain_agrees [OF assms(1)]) simp
  show ?thesis using assms duplicate_agrees [OF assms(1)] failed
    by (auto simp: sqs_Report_begin_def Let_def intro!: terminal_agrees split: option.splits if_splits)
qed

lemma Report_finish_agrees:
  assumes "coord_log_inv c" and "sqs_Report_finish now args dec c = (reply, c')"
  shows "coord_log_inv c'"
proof (cases "map_of (co_terminal c) (j_ID (sr_Job args))")
  case (Some o1)
  then show ?thesis using assms duplicate_agrees by (auto simp: sqs_Report_finish_def Let_def)
next
  case None
  let ?c = "coord_recordTriage now (sr_Job args) args dec c" and ?j = "sr_Job args"
  let ?r = "\<lambda>s. s\<lparr>ss_Retried := Suc (ss_Retried s)\<rparr>" and ?a = "\<lambda>s. s\<lparr>ss_Adjusted := Suc (ss_Adjusted s)\<rparr>"
  note inv = triage_agrees [OF assms(1), of now ?j args dec]
  have retried: "coord_log_inv (coord_record now ?j ''retried'' w a d (count_stat ?r (?c\<lparr>co_released := rel\<rparr>)))" for w a d rel
    by (rule record_agrees [OF inv, where f = ?r]) (use inv in \<open>simp_all add: coord_log_inv_def\<close>)
  have adjusted: "coord_log_inv (coord_record now ?j ''adjusted'' w a d (count_stat ?a ?c))" for w a d
    by (rule record_agrees [OF inv, where f = ?a]) (use inv in \<open>simp_all add: coord_log_inv_def\<close>)
  have "coord_log_inv (sqs_apply now args dec ?c)"
    using retried adjusted None inv by (auto simp: sqs_apply_def Let_def intro!: terminal_agrees)
  then show ?thesis using assms(2) None by (auto simp: sqs_Report_finish_def Let_def)
qed

lemma watch_agrees: "coord_log_inv c \<Longrightarrow> coord_log_inv (watch_round now r c)"
proof -
  assume inv: "coord_log_inv c"
  have one: "coord_log_inv c \<Longrightarrow> coord_log_inv (bury_one now d c)" for d c
    by (auto simp: bury_one_def Let_def intro!: terminal_agrees split: option.splits)
  have "coord_log_inv (fold (bury_one now) ds c)" for ds using inv
    by (induction ds arbitrary: c) (simp_all add: one)
  then show ?thesis using inv by (simp add: watch_round_def split: sum.splits)
qed

lemma sqs_step_agrees: "sqs_step s l s' \<Longrightarrow> coord_log_inv (sy_coord s) \<Longrightarrow> coord_log_inv (sy_coord s')"
proof (induction rule: sqs_step.induct)
  case (close s)
  then show ?case by (simp add: sqs_CloseSubmissions_def) (simp add: coord_log_inv_def)
qed (auto simp: send_to_pool_def watch_agrees
    dest: Submit_agrees Started_agrees Report_begin_agrees Report_finish_agrees)

lemma sqs_log_reachable:
  assumes "sqs_reachable (init_sqs agent (Some r) qs) s" and "sink_ok r" and "r_file r = []"
  shows "coord_log_inv (sy_coord s)"
  using assms(1)
proof (induction rule: sqs_reachable.induct)
  case start
  then show ?case using assms(2,3)
    by (simp add: init_sqs_def NewSQSCoordinator_def coord_log_inv_def coord_logging_def coord_log_def log_agrees_def zero_stats_def)
next
  case (step s l s')
  then show ?case by (blast intro: sqs_step_agrees)
qed

section \<open>The property\<close>

text \<open>
  C17: the log is the coordinator's ledger. With a recorder whose sinks accept every write, after any
  interleaving of workers, deaths and redeliveries, the terminal events of the log are exactly the
  table of outcomes, in the order in which the jobs ended, so every job has at most one and has one
  when \<open>Done\<close> is closed; the \<open>submitted\<close> events are the table of jobs; and the \<open>retried\<close>,
  \<open>adjusted\<close> and \<open>redelivered\<close> events are as many as the counters say. Only duplicates can be more:
  a late report is counted and not logged.
\<close>

theorem sqs_log_is_ledger:
  assumes "sqs_reachable (init_sqs agent (Some r) qs) s" and "sink_ok r" and "r_file r = []"
  defines "c \<equiv> sy_coord s" and "es \<equiv> coord_log (sy_coord s)"
  shows "outcomes es = co_terminal c \<and> distinct (map fst (outcomes es)) \<and> submissions es = map fst (co_jobs c) \<and>
    (co_done c \<longrightarrow> set (map fst (outcomes es)) = set (submissions es)) \<and>
    events_of ''retried'' es = ss_Retried (co_stats c) \<and> events_of ''adjusted'' es = ss_Adjusted (co_stats c) \<and>
    events_of ''redelivered'' es = ss_Redelivered (co_stats c) \<and>
    events_of ''duplicate_delivery'' es \<le> ss_Duplicates (co_stats c)"
proof -
  have "coord_log_inv c" unfolding c_def by (rule sqs_log_reachable [OF assms(1-3)])
  then have l: "log_agrees es (co_jobs c) (co_terminal c) (co_stats c)" by (simp add: coord_log_inv_def es_def c_def)
  have b: "coord_books c" using sqs_reachable_inv [OF assms(1)] by (simp add: sqs_inv_def coord_inv_def c_def)
  then have "co_done c \<longrightarrow> fst ` set (co_terminal c) = fst ` set (co_jobs c)"
    using books_settled [OF b] by (simp add: coord_books_def)
  then show ?thesis using l b by (simp add: log_agrees_def coord_books_def)
qed

theorem sqs_log_is_ledger_witness:
  "outcomes (coord_log (sy_coord sq_end)) = [(''inference-000'', ''completed'')] \<and>
     events_of ''redelivered'' (coord_log (sy_coord sq_end)) = 1"
proof -
  have "sqs_reachable sq0 sq_end" using sq_run sqs_reachable_trans by blast
  moreover have "sink_ok demo_recorder" "r_file demo_recorder = []" by (simp_all add: sink_ok_def demo_recorder_def)
  moreover have "co_terminal (sy_coord sq_end) = [(''inference-000'', ''completed'')]"
    "ss_Redelivered (co_stats (sy_coord sq_end)) = 1" by code_simp+
  ultimately show ?thesis using sqs_log_is_ledger [of policy_Decide demo_recorder demo_queues sq_end] by (simp add: sq0_def)
qed

end
