(* ===== verification/Scheduler.thy ===== *)
theory Scheduler
  imports GoRuntime JobQueue Telemetry
begin

text \<open>
  \<^verbatim>\<open>cmd/scheduler/main.go\<close>: the batch-scheduling simulation. The state gathers the local
  variables of \<open>main\<close>; the three phases of a tick are one function each, as the comments of the
  source number them. Jobs move between the places that hold them (\<open>toSubmit\<close>, the queue,
  \<open>requeue\<close>, \<open>running\<close>): the source keeps pointers, but never two live ones to the same job. A
  job set to \<open>Completed\<close> is kept in \<open>s_completed\<close>; in the source only \<open>toSubmit\<close> still points
  to it. The loop of phase 3 is a partial function, so that it ends is a theorem.
\<close>

section \<open>Node specifications\<close>

definition defaultNodeSpec :: string where
  "defaultNodeSpec = ''node-a:16:65536:2,node-b:16:65536:2,node-c:32:131072:4''"

datatype node_error = WantFourFields string | BadCPU string | BadMemMB string | BadGPUs string

definition parse_node :: "string \<Rightarrow> node_error + node" where
  "parse_node part =
     (case split_on (CHR '':'') part of
        [name, f1, f2, f3] \<Rightarrow>
          (case atoi f1 of None \<Rightarrow> Inl (BadCPU part)
           | Some cpu \<Rightarrow>
             (case atoi f2 of None \<Rightarrow> Inl (BadMemMB part)
              | Some memMB \<Rightarrow>
                (case atoi f3 of None \<Rightarrow> Inl (BadGPUs part)
                 | Some gpus \<Rightarrow> Inr (NewNode name cpu memMB gpus))))
      | _ \<Rightarrow> Inl (WantFourFields part))"

fun parse_parts :: "node list \<Rightarrow> string list \<Rightarrow> node_error + node list" where
  "parse_parts nodes [] = Inr nodes"
| "parse_parts nodes (part # parts) =
     (case parse_node part of
        Inl e \<Rightarrow> Inl e
      | Inr n \<Rightarrow> parse_parts (nodes @ [n]) parts)"

definition parseNodes :: "string \<Rightarrow> node_error + node list" where
  "parseNodes spec = parse_parts [] (split_on (CHR '','') spec)"

section \<open>State\<close>

record running_job =
  rj_job :: job
  rj_finishTick :: int

record pending_submit =
  ps_job :: job
  ps_arrivalTick :: int

text \<open>
  \<open>s_orders\<close> says, for the \<open>k\<close>-th \<open>range\<close> over \<open>running\<close>, in which order the map is visited;
  \<open>s_ranges\<close> counts these loops.
\<close>

record scheduler =
  s_nodes :: "node list"
  s_queue :: queue
  s_running :: "(string \<times> running_job) list"
  s_rec :: recorder
  s_toSubmit :: "pending_submit list"
  s_completed :: "job list"
  s_tick :: int
  s_baseTime :: time
  s_rng :: rng
  s_orders :: "nat \<Rightarrow> nat \<Rightarrow> nat"
  s_ranges :: nat

definition simTime :: "scheduler \<Rightarrow> time" where
  "simTime s = s_baseTime s + s_tick s * second"

definition sched_record :: "event \<Rightarrow> scheduler \<Rightarrow> scheduler" where
  "sched_record e s = s\<lparr>s_rec := recorder_Record e (s_rec s)\<rparr>"

definition range_running :: "scheduler \<Rightarrow> (string \<times> running_job) list \<times> scheduler" where
  "range_running s = (map_order (s_orders s (s_ranges s)) (s_running s), s\<lparr>s_ranges := Suc (s_ranges s)\<rparr>)"

section \<open>The generated workload\<close>

definition batchSizes :: "int list" where
  "batchSizes = [1, 8, 16, 32]"

definition gen_job :: "int \<Rightarrow> nat \<Rightarrow> rng \<Rightarrow> (batch_error + pending_submit) \<times> rng" where
  "gen_job seed i g0 =
     (let (r1, g1) = rng_Intn 5 g0; priority = 1 + r1;
          (r2, g2) = rng_Intn (int (length batchSizes)) g1; batchSize = batchSizes ! nat r2;
          (r3, g3) = rng_Intn 2 g2; precision = (if r3 = 0 then ''fp16'' else ''fp32'')
      in case NewResNet50Batch batchSize precision (go_add seed (int i)) of
           (_, Some e) \<Rightarrow> (Inl e, g3)
         | (batch, None) \<Rightarrow>
             (let (r4, g4) = rng_Intn 4 g3;
                  req = \<lparr>rq_CPUCores = 2 + r4, rq_MemoryMB = 2048 + batchSize * 128, rq_GPUs = 1\<rparr>;
                  job = \<lparr>j_ID = ''job-'' @ pad3 i, j_Priority = priority, j_Resources = req,
                         j_Inference = batch, j_Attempt = 0, j_MaxAttempts = 0, j_InjectFailure = [],
                         j_State = Pending, j_SubmitTime = zero_time, j_StartTime = zero_time,
                         j_Node = [], j_index = 0\<rparr>;
                  (r5, g5) = rng_Intn 30 g4
              in (Inr \<lparr>ps_job = job, ps_arrivalTick = r5\<rparr>, g5)))"

fun gen_jobs :: "int \<Rightarrow> nat list \<Rightarrow> rng \<Rightarrow> (batch_error + pending_submit list) \<times> rng" where
  "gen_jobs seed [] g = (Inr [], g)"
| "gen_jobs seed (i # is) g =
     (case gen_job seed i g of
        (Inl e, g1) \<Rightarrow> (Inl e, g1)
      | (Inr p, g1) \<Rightarrow>
          (case gen_jobs seed is g1 of
             (Inl e, g2) \<Rightarrow> (Inl e, g2)
           | (Inr ps, g2) \<Rightarrow> (Inr (p # ps), g2)))"

section \<open>Phase 1: submission\<close>

definition sched_submitted_detail :: "job \<Rightarrow> detail" where
  "sched_submitted_detail j =
     Sprintf ''model=%s batch=%d precision=%s cpu=%d mem=%dMB gpu=%d''
       [FStr (b_Model (j_Inference j)), FInt (b_BatchSize (j_Inference j)),
        FStr (b_Precision (j_Inference j)), FInt (rq_CPUCores (j_Resources j)),
        FInt (rq_MemoryMB (j_Resources j)), FInt (rq_GPUs (j_Resources j))]"

definition submit_one :: "pending_submit \<Rightarrow> scheduler \<Rightarrow> scheduler" where
  "submit_one p s =
     (if ps_arrivalTick p = s_tick s then
        (let now = simTime s; j = (ps_job p)\<lparr>j_SubmitTime := now, j_State := Pending\<rparr>
         in sched_record
              (zero_event\<lparr>ev_Timestamp := now, ev_JobID := j_ID j, ev_EventType := ''submitted'',
                 ev_Priority := j_Priority j, ev_Model := b_Model (j_Inference j),
                 ev_BatchSize := b_BatchSize (j_Inference j), ev_Detail := sched_submitted_detail j\<rparr>)
              (s\<lparr>s_queue := queue_Push j (s_queue s)\<rparr>))
      else s)"

definition phase_submit :: "scheduler \<Rightarrow> scheduler" where
  "phase_submit s = fold submit_one (s_toSubmit s) s"

section \<open>Phase 2: completion\<close>

text \<open>The loop over the pool stops at the first node of that name.\<close>

fun release_named :: "string \<Rightarrow> requirements \<Rightarrow> node list \<Rightarrow> node list" where
  "release_named name req [] = []"
| "release_named name req (n # ns) =
     (if n_Name n = name then node_Release n req # ns else n # release_named name req ns)"

definition complete_one :: "string \<times> running_job \<Rightarrow> scheduler \<Rightarrow> scheduler" where
  "complete_one entry s = (case entry of (jid, rj) \<Rightarrow>
     if rj_finishTick rj = s_tick s then
       (let j = rj_job rj;
            s1 = s\<lparr>s_nodes := release_named (j_Node j) (j_Resources j) (s_nodes s),
                   s_completed := s_completed s @ [j\<lparr>j_State := Completed\<rparr>]\<rparr>;
            s2 = sched_record
              (zero_event\<lparr>ev_Timestamp := simTime s, ev_JobID := jid, ev_EventType := ''completed'',
                 ev_NodeName := j_Node j, ev_Priority := j_Priority j, ev_Model := b_Model (j_Inference j),
                 ev_BatchSize := b_BatchSize (j_Inference j)\<rparr>) s1
        in s2\<lparr>s_running := map_del jid (s_running s2)\<rparr>)
     else s)"

definition phase_complete :: "scheduler \<Rightarrow> scheduler" where
  "phase_complete s = (case range_running s of (entries, s1) \<Rightarrow> fold complete_one entries s1)"

section \<open>Phase 3: placement\<close>

text \<open>The argument lists the running jobs in the order the loop of the source visits them.\<close>

fun victim_loop :: "job \<Rightarrow> running_job option \<Rightarrow> (string \<times> running_job) list \<Rightarrow> running_job option" where
  "victim_loop candidate victim [] = victim"
| "victim_loop candidate victim ((_, rj) # rest) =
     (if j_Priority (rj_job rj) \<ge> j_Priority candidate then victim_loop candidate victim rest
      else (case victim of
              None \<Rightarrow> victim_loop candidate (Some rj) rest
            | Some v \<Rightarrow>
                if j_Priority (rj_job rj) < j_Priority (rj_job v) then victim_loop candidate (Some rj) rest
                else victim_loop candidate victim rest))"

definition findPreemptionVictim :: "(string \<times> running_job) list \<Rightarrow> job \<Rightarrow> running_job option" where
  "findPreemptionVictim entries candidate = victim_loop candidate None entries"

text \<open>
  The victim goes back to the queue. Its \<open>State\<close> is \<open>Preempted\<close> for the length of the event
  only; \<open>Node\<close> and \<open>StartTime\<close> keep their values.
\<close>

definition preempt :: "job \<Rightarrow> job \<Rightarrow> scheduler \<Rightarrow> scheduler" where
  "preempt j v s =
     (let now = simTime s;
          s1 = s\<lparr>s_nodes := release_named (j_Node v) (j_Resources v) (s_nodes s)\<rparr>;
          s2 = sched_record
            (zero_event\<lparr>ev_Timestamp := now, ev_JobID := j_ID v, ev_EventType := ''preempted'',
               ev_NodeName := j_Node v, ev_Priority := j_Priority v,
               ev_Detail := Sprintf ''preempted by %s (priority %d)'' [FStr (j_ID j), FInt (j_Priority j)]\<rparr>) s1;
          s3 = s2\<lparr>s_running := map_del (j_ID v) (s_running s2)\<rparr>
      in s3\<lparr>s_queue := queue_Push (v\<lparr>j_State := Pending, j_SubmitTime := now\<rparr>) (s_queue s3)\<rparr>)"

definition make_room :: "job \<Rightarrow> scheduler \<Rightarrow> nat option \<times> scheduler" where
  "make_room j s =
     (case pool_FindFit (s_nodes s) (j_Resources j) of
        Some i \<Rightarrow> (Some i, s)
      | None \<Rightarrow>
          (case range_running s of (entries, s1) \<Rightarrow>
             (case findPreemptionVictim entries j of
                None \<Rightarrow> (None, s1)
              | Some victim \<Rightarrow>
                  (let s2 = preempt j (rj_job victim) s1
                   in (pool_FindFit (s_nodes s2) (j_Resources j), s2)))))"

definition start_on :: "nat \<Rightarrow> job \<Rightarrow> scheduler \<Rightarrow> scheduler" where
  "start_on i j s =
     (let now = simTime s; node = s_nodes s ! i;
          s1 = s\<lparr>s_nodes := (s_nodes s)[i := node_Reserve node (j_Resources j)]\<rparr>;
          j1 = j\<lparr>j_State := Running, j_Node := n_Name node, j_StartTime := now\<rparr>;
          (r, g) = rng_Intn 8 (s_rng s1);
          duration = 4 + b_BatchSize (j_Inference j) sdiv 4 + r;
          s2 = s1\<lparr>s_rng := g,
                  s_running := map_put (j_ID j1) \<lparr>rj_job = j1, rj_finishTick = s_tick s1 + duration\<rparr>
                                 (s_running s1)\<rparr>
      in sched_record
           (zero_event\<lparr>ev_Timestamp := now, ev_JobID := j_ID j1, ev_EventType := ''started'',
              ev_NodeName := n_Name node, ev_Priority := j_Priority j1, ev_Model := b_Model (j_Inference j1),
              ev_BatchSize := b_BatchSize (j_Inference j1),
              ev_Detail := Sprintf ''waited %s'' [FDur (job_WaitTime j1 now)]\<rparr>) s2)"

definition wait_for_room :: "job \<Rightarrow> scheduler \<Rightarrow> scheduler" where
  "wait_for_room j s =
     sched_record
       (zero_event\<lparr>ev_Timestamp := simTime s, ev_JobID := j_ID j, ev_EventType := ''wait_reason'',
          ev_Priority := j_Priority j, ev_Detail := Text ''no node has sufficient free capacity''\<rparr>) s"

text \<open>The loop body, for the job just popped; the second component is \<open>requeue\<close>.\<close>

definition place_one :: "job \<Rightarrow> scheduler \<Rightarrow> job list \<Rightarrow> scheduler \<times> job list" where
  "place_one j s requeue =
     (case make_room j s of
        (None, s1) \<Rightarrow> (wait_for_room j s1, requeue @ [j])
      | (Some i, s1) \<Rightarrow> (start_on i j s1, requeue))"

partial_function (option) place_loop :: "scheduler \<Rightarrow> job list \<Rightarrow> (scheduler \<times> job list) option" where
  [code]: "place_loop s requeue =
     (if queue_Len (s_queue s) = 0 then Some (s, requeue)
      else case queue_Pop (s_queue s) of
        (None, _) \<Rightarrow> None
      | (Some j, q) \<Rightarrow>
          (case place_one j (s\<lparr>s_queue := q\<rparr>) requeue of (s1, requeue1) \<Rightarrow> place_loop s1 requeue1))"

definition requeue_all :: "job list \<Rightarrow> scheduler \<Rightarrow> scheduler" where
  "requeue_all js s = s\<lparr>s_queue := fold queue_Push js (s_queue s)\<rparr>"

definition phase_place :: "scheduler \<Rightarrow> scheduler option" where
  "phase_place s = map_option (\<lambda>(s1, requeue). requeue_all requeue s1) (place_loop s [])"

section \<open>Ticks and the run\<close>

definition sched_tick :: "scheduler \<Rightarrow> scheduler option" where
  "sched_tick s =
     map_option (\<lambda>s1. s1\<lparr>s_tick := s_tick s1 + 1\<rparr>) (phase_place (phase_complete (phase_submit s)))"

fun sched_ticks :: "nat \<Rightarrow> scheduler \<Rightarrow> scheduler option" where
  "sched_ticks 0 s = Some s"
| "sched_ticks (Suc n) s = (case sched_tick s of None \<Rightarrow> None | Some s1 \<Rightarrow> sched_ticks n s1)"

text \<open>
  \<open>main\<close> after its flags: \<open>rec\<close> is what \<open>NewRecorder\<close> returned, and the result is a fatal
  error or the state at the summary. \<open>numJobs\<close> and \<open>maxTicks\<close> below 0 run no iteration.
\<close>

datatype sched_fatal = BadNodeSpec node_error | RecorderFailed | BadBatch batch_error

definition sched_start ::
  "int \<Rightarrow> int \<Rightarrow> string \<Rightarrow> recorder option \<Rightarrow> time \<Rightarrow> rng \<Rightarrow> (nat \<Rightarrow> nat \<Rightarrow> nat) \<Rightarrow> sched_fatal + scheduler" where
  "sched_start numJobs seed nodeSpec rec baseTime g orders =
     (case parseNodes nodeSpec of
        Inl e \<Rightarrow> Inl (BadNodeSpec e)
      | Inr nodes \<Rightarrow>
          (case rec of None \<Rightarrow> Inl RecorderFailed
           | Some r \<Rightarrow>
             (case gen_jobs seed [0..<nat numJobs] g of
                (Inl e, _) \<Rightarrow> Inl (BadBatch e)
              | (Inr ps, g1) \<Rightarrow>
                  Inr \<lparr>s_nodes = nodes, s_queue = queue_New, s_running = [], s_rec = r, s_toSubmit = ps,
                       s_completed = [], s_tick = 0, s_baseTime = baseTime, s_rng = g1,
                       s_orders = orders, s_ranges = 0\<rparr>)))"

definition sched_main ::
  "int \<Rightarrow> int \<Rightarrow> int \<Rightarrow> string \<Rightarrow> recorder option \<Rightarrow> time \<Rightarrow> rng \<Rightarrow> (nat \<Rightarrow> nat \<Rightarrow> nat) \<Rightarrow>
   (sched_fatal + scheduler) option" where
  "sched_main numJobs seed maxTicks nodeSpec rec baseTime g orders =
     (case sched_start numJobs seed nodeSpec rec baseTime g orders of
        Inl e \<Rightarrow> Some (Inl e)
      | Inr s \<Rightarrow> map_option Inr (sched_ticks (nat maxTicks) s))"

text \<open>The summary: the ticks asked for, the jobs pending and running, and a line for each node.\<close>

record sim_summary =
  sm_ticks :: int
  sm_pending :: nat
  sm_running :: nat
  sm_nodes :: "(node \<times> rat \<times> rat \<times> rat) list"

definition sched_summary :: "int \<Rightarrow> scheduler \<Rightarrow> sim_summary" where
  "sched_summary maxTicks s =
     \<lparr>sm_ticks = maxTicks, sm_pending = queue_Len (s_queue s), sm_running = length (s_running s),
      sm_nodes = map (\<lambda>n. (n, node_Utilization n)) (s_nodes s)\<rparr>"

end
