(* ===== verification/SchedulerNodes.thy ===== *)
theory SchedulerNodes
  imports Scheduler
begin

text \<open>
  Node accounting of the simulation: what every node has given out is the sum of what the jobs
  running on it hold. One lemma for a start (\<open>Reserve\<close>) and one for an end (\<open>Release\<close>).
\<close>

section \<open>Load\<close>

definition on_node :: "string \<Rightarrow> (string \<times> running_job) list \<Rightarrow> job multiset" where
  "on_node name m = filter_mset (\<lambda>j. j_Node j = name) (image_mset rj_job (map_vals m))"

definition load :: "(requirements \<Rightarrow> int) \<Rightarrow> string \<Rightarrow> (string \<times> running_job) list \<Rightarrow> int" where
  "load f name m = \<Sum>\<^sub># (image_mset (\<lambda>j. f (j_Resources j)) (on_node name m))"

definition node_accounts :: "(string \<times> running_job) list \<Rightarrow> node \<Rightarrow> bool" where
  "node_accounts m n \<longleftrightarrow> node_ok n \<and> n_usedCPU n = load rq_CPUCores (n_Name n) m \<and>
     n_usedMemMB n = load rq_MemoryMB (n_Name n) m \<and> n_usedGPUs n = load rq_GPUs (n_Name n) m"

definition nodes_account :: "node list \<Rightarrow> (string \<times> running_job) list \<Rightarrow> bool" where
  "nodes_account nodes m \<longleftrightarrow> distinct (map n_Name nodes) \<and> (\<forall>n \<in> set nodes. node_accounts m n) \<and>
     (\<forall>rj \<in># map_vals m. j_Node (rj_job rj) \<in> n_Name ` set nodes)"

lemma on_node_put:
  "map_of m k = None \<Longrightarrow> on_node name (map_put k rj m) =
     (if j_Node (rj_job rj) = name then add_mset (rj_job rj) (on_node name m) else on_node name m)"
  by (simp add: on_node_def map_vals_put_fresh)

lemma on_node_del:
  "distinct_keys m \<Longrightarrow> map_of m k = Some rj \<Longrightarrow> on_node name m =
     (if j_Node (rj_job rj) = name then add_mset (rj_job rj) (on_node name (map_del k m))
      else on_node name (map_del k m))"
  unfolding on_node_def by (simp add: map_vals_del)

lemma load_put:
  "map_of m k = None \<Longrightarrow> load f name (map_put k rj m) =
     (if j_Node (rj_job rj) = name then f (j_Resources (rj_job rj)) else 0) + load f name m"
  by (simp add: load_def on_node_put)

lemma load_del:
  "distinct_keys m \<Longrightarrow> map_of m k = Some rj \<Longrightarrow> load f name m =
     (if j_Node (rj_job rj) = name then f (j_Resources (rj_job rj)) else 0) + load f name (map_del k m)"
  by (simp add: load_def on_node_del)

lemma sum_mset_nonneg: "(\<And>x. x \<in># M \<Longrightarrow> (0::int) \<le> g x) \<Longrightarrow> 0 \<le> (\<Sum>x \<in># M. g x)"
  by (induction M) force+

lemma load_nonneg:
  "\<forall>rj \<in># map_vals m. 0 \<le> f (j_Resources (rj_job rj)) \<Longrightarrow> 0 \<le> load f name m"
  unfolding load_def on_node_def by (rule sum_mset_nonneg) (auto simp del: map_vals_simps)

lemma map_vals_delD: "rj \<in># map_vals (map_del k m) \<Longrightarrow> rj \<in># map_vals m"
  by (auto dest: set_map_del)

lemma map_vals_lookup: "map_of m k = Some rj \<Longrightarrow> rj \<in># map_vals m"
  by (force dest: map_of_SomeD)

section \<open>Start and end of a job\<close>

lemma node_accounts_Reserve:
  assumes acc: "node_accounts m n" and fits: "node_Fits n r" "req_ok r" and new: "map_of m k = None"
    and rj: "j_Resources (rj_job rj) = r" "j_Node (rj_job rj) = n_Name n"
  shows "node_accounts (map_put k rj m) (node_Reserve n r)"
  using node_Reserve_ok [of n r] acc fits rj new
  by (auto simp: node_accounts_def load_put)

lemma node_accounts_other:
  assumes "node_accounts m n" and "map_of m k = None" and "j_Node (rj_job rj) \<noteq> n_Name n"
  shows "node_accounts (map_put k rj m) n"
  using assms by (simp add: node_accounts_def load_put)

lemma node_accounts_Release:
  assumes acc: "node_accounts m n" and m: "distinct_keys m" "map_of m k = Some rj"
    and ok: "\<forall>rj \<in># map_vals m. req_ok (j_Resources (rj_job rj))"
  shows "node_accounts (map_del k m)
    (if n_Name n = j_Node (rj_job rj) then node_Release n (j_Resources (rj_job rj)) else n)"
proof (cases "n_Name n = j_Node (rj_job rj)")
  case False
  then show ?thesis using acc load_del [OF m, of _ "n_Name n"] by (simp add: node_accounts_def)
next
  case True
  let ?r = "j_Resources (rj_job rj)"
  have r: "req_ok ?r" using ok map_vals_lookup [OF m(2)] by blast
  have rest: "\<forall>rj \<in># map_vals (map_del k m). req_ok (j_Resources (rj_job rj))"
    using ok map_vals_delD by fast
  then have pos: "0 \<le> load rq_CPUCores (n_Name n) (map_del k m)" "0 \<le> load rq_MemoryMB (n_Name n) (map_del k m)"
      "0 \<le> load rq_GPUs (n_Name n) (map_del k m)"
    by (intro load_nonneg; simp add: req_ok_def del: map_vals_simps)+
  have used: "n_usedCPU n = rq_CPUCores ?r + load rq_CPUCores (n_Name n) (map_del k m)"
      "n_usedMemMB n = rq_MemoryMB ?r + load rq_MemoryMB (n_Name n) (map_del k m)"
      "n_usedGPUs n = rq_GPUs ?r + load rq_GPUs (n_Name n) (map_del k m)"
    using acc True load_del [OF m, of _ "n_Name n"] by (auto simp: node_accounts_def)
  have "node_ok n" using acc by (simp add: node_accounts_def)
  from node_Release_exact [OF this r] show ?thesis using True used pos
    by (simp add: node_accounts_def)
qed

lemma release_named_map:
  "distinct (map n_Name nodes) \<Longrightarrow>
   release_named name r nodes = map (\<lambda>n. if n_Name n = name then node_Release n r else n) nodes"
proof (induction nodes)
  case Nil
  then show ?case by simp
next
  case (Cons n ns)
  show ?case
  proof (cases "n_Name n = name")
    case True
    then have "\<forall>k \<in> set ns. n_Name k \<noteq> name" using Cons.prems by (auto simp: image_iff)
    then have "map (\<lambda>n. if n_Name n = name then node_Release n r else n) ns = ns"
      by (intro map_idI) simp
    with True show ?thesis by simp
  next
    case False
    then show ?thesis using Cons by simp
  qed
qed

lemma nodes_account_release:
  assumes acc: "nodes_account nodes m" and m: "distinct_keys m" "map_of m k = Some rj"
    and ok: "\<forall>rj \<in># map_vals m. req_ok (j_Resources (rj_job rj))"
  shows "nodes_account (release_named (j_Node (rj_job rj)) (j_Resources (rj_job rj)) nodes) (map_del k m)"
proof -
  let ?g = "\<lambda>n. if n_Name n = j_Node (rj_job rj) then node_Release n (j_Resources (rj_job rj)) else n"
  have d: "distinct (map n_Name nodes)" using acc by (simp add: nodes_account_def)
  have rel: "release_named (j_Node (rj_job rj)) (j_Resources (rj_job rj)) nodes = map ?g nodes"
    using release_named_map [OF d] .
  have names: "map n_Name (map ?g nodes) = map n_Name nodes" by (simp add: comp_def)
  have "\<forall>n \<in> set nodes. node_accounts (map_del k m) (?g n)"
    using acc node_accounts_Release [OF _ m ok] by (simp add: nodes_account_def)
  moreover have "n_Name ` set (map ?g nodes) = n_Name ` set nodes"
    using arg_cong [OF names, of set] by (simp only: set_map)
  moreover have "\<forall>rj \<in># map_vals (map_del k m). j_Node (rj_job rj) \<in> n_Name ` set nodes"
    using acc map_vals_delD unfolding nodes_account_def by fast
  ultimately show ?thesis
    using d names unfolding nodes_account_def rel by (simp only: ball_simps set_map)
qed

lemma nodes_account_reserve:
  assumes acc: "nodes_account nodes m" and i: "i < length nodes" and fits: "node_Fits (nodes ! i) r" "req_ok r"
    and new: "map_of m k = None" and rj: "j_Resources (rj_job rj) = r" "j_Node (rj_job rj) = n_Name (nodes ! i)"
  shows "nodes_account (nodes[i := node_Reserve (nodes ! i) r]) (map_put k rj m)"
proof -
  have d: "distinct (map n_Name nodes)" and each: "\<forall>n \<in> set nodes. node_accounts m n"
    using acc by (simp_all add: nodes_account_def)
  have "map n_Name (nodes[i := node_Reserve (nodes ! i) r]) = (map n_Name nodes)[i := map n_Name nodes ! i]"
    using i by (simp add: map_update)
  then have names: "map n_Name (nodes[i := node_Reserve (nodes ! i) r]) = map n_Name nodes" by simp
  have "node_accounts (map_put k rj m) n" if n: "n \<in> set (nodes[i := node_Reserve (nodes ! i) r])" for n
  proof -
    obtain h where h: "h < length nodes" "n = nodes[i := node_Reserve (nodes ! i) r] ! h"
      using n by (auto simp: in_set_conv_nth)
    show ?thesis
    proof (cases "h = i")
      case True
      then show ?thesis using node_accounts_Reserve [OF _ fits new rj] each i h by simp
    next
      case False
      then have "n_Name (nodes ! h) \<noteq> n_Name (nodes ! i)"
        using d i h(1) by (auto simp: distinct_conv_nth)
      then show ?thesis using node_accounts_other [OF _ new] each h rj False by auto
    qed
  qed
  moreover have "\<forall>x \<in># map_vals (map_put k rj m). j_Node (rj_job x) \<in> n_Name ` set nodes"
    using acc i rj(2) by (simp add: nodes_account_def map_vals_put_fresh [OF new] del: map_vals_simps)
  moreover have "n_Name ` set (nodes[i := node_Reserve (nodes ! i) r]) = n_Name ` set nodes"
    using arg_cong [OF names, of set] by simp
  ultimately show ?thesis using d names by (simp add: nodes_account_def del: map_vals_simps)
qed

text \<open>A fresh pool accounts for nothing running.\<close>

definition fresh_pool :: "node list \<Rightarrow> bool" where
  "fresh_pool nodes \<longleftrightarrow> distinct (map n_Name nodes) \<and>
     (\<forall>n \<in> set nodes. node_ok n \<and> n_usedCPU n = 0 \<and> n_usedMemMB n = 0 \<and> n_usedGPUs n = 0)"

lemma fresh_pool_accounts: "fresh_pool nodes \<Longrightarrow> nodes_account nodes []"
  by (simp add: fresh_pool_def nodes_account_def node_accounts_def load_def on_node_def)

end
