(* ===== verification/SchedulerInv.thy ===== *)
theory SchedulerInv
  imports SchedulerNodes
begin

text \<open>
  The invariants of the simulation and the three phases that keep them. \<open>core_inv a f s rq\<close>:
  the jobs arriving from tick \<open>a\<close> on, the queue, \<open>rq\<close> (the jobs in hand), \<open>running\<close> and the
  completed jobs hold every generated job exactly once, and every running job finishes at tick
  \<open>f\<close> or later. It needs nothing of the nodes; \<open>nodes_account\<close> is carried beside it.
\<close>

section \<open>The invariant\<close>

text \<open>What \<open>gen_job\<close> makes, and no operation changes.\<close>

definition generated :: "job \<Rightarrow> bool" where
  "generated j \<longleftrightarrow> rq_CPUCores (j_Resources j) \<in> {2..5} \<and> rq_MemoryMB (j_Resources j) \<in> {2048..6144} \<and>
     rq_GPUs (j_Resources j) = 1 \<and> valid_batch (j_Inference j) \<and> j_Priority j \<in> {1..5}"

definition all_ids :: "scheduler \<Rightarrow> string list" where
  "all_ids s = map (j_ID \<circ> ps_job) (s_toSubmit s)"

definition future_ids :: "int \<Rightarrow> scheduler \<Rightarrow> string multiset" where
  "future_ids a s = mset (map (j_ID \<circ> ps_job) (filter (\<lambda>p. a \<le> ps_arrivalTick p) (s_toSubmit s)))"

definition held_ids :: "int \<Rightarrow> scheduler \<Rightarrow> job list \<Rightarrow> string multiset" where
  "held_ids a s rq = future_ids a s + image_mset j_ID (queue_bag (s_queue s)) + mset (map j_ID rq) +
     mset (map fst (s_running s)) + mset (map j_ID (s_completed s))"

definition running_ok :: "int \<Rightarrow> (string \<times> running_job) list \<Rightarrow> bool" where
  "running_ok f m \<longleftrightarrow> (\<forall>(k, rj) \<in> set m. k = j_ID (rj_job rj) \<and> f \<le> rj_finishTick rj \<and> generated (rj_job rj))"

definition core_inv :: "int \<Rightarrow> int \<Rightarrow> scheduler \<Rightarrow> job list \<Rightarrow> bool" where
  "core_inv a f s rq \<longleftrightarrow> queue_inv (s_queue s) \<and> distinct (all_ids s) \<and>
     held_ids a s rq = mset (all_ids s) \<and> running_ok f (s_running s) \<and>
     (\<forall>p \<in> set (s_toSubmit s). generated (ps_job p)) \<and>
     (\<forall>j \<in># queue_bag (s_queue s) + mset rq. generated j)"

lemma generated_req_ok: "generated j \<Longrightarrow> req_ok (j_Resources j)"
  by (simp add: generated_def req_ok_def)

lemma generated_update [simp]:
  "generated (j\<lparr>j_State := st\<rparr>) = generated j" "generated (j\<lparr>j_SubmitTime := t\<rparr>) = generated j"
  "generated (j\<lparr>j_StartTime := t\<rparr>) = generated j" "generated (j\<lparr>j_Node := n\<rparr>) = generated j"
  "generated (unindexed j) = generated j"
  by (simp_all add: generated_def)

lemma distinct_mset_add: "distinct xs \<Longrightarrow> mset xs = add_mset x M \<Longrightarrow> x \<notin># M"
  by (metis add_mset_remove_trivial distinct_count_atmost_1 mset_remove1 not_in_iff
      count_add_mset diff_add_inverse2 plus_1_eq_Suc Suc_inject One_nat_def set_mset_mset union_single_eq_member)

lemma distinct_mset_sub: "distinct xs \<Longrightarrow> mset xs = mset ys + M \<Longrightarrow> distinct ys"
proof (induction ys arbitrary: M)
  case Nil
  then show ?case by simp
next
  case (Cons y ys)
  then have "mset xs = mset ys + add_mset y M" and "mset xs = add_mset y (mset ys + M)" by simp_all
  then show ?case using Cons.IH [of "add_mset y M"] Cons.prems(1) distinct_mset_add [of xs y "mset ys + M"] by simp
qed

lemma core_inv_keys: "core_inv a f s rq \<Longrightarrow> distinct_keys (s_running s)"
proof -
  assume "core_inv a f s rq"
  then have "distinct (all_ids s)" and "mset (all_ids s) = mset (map fst (s_running s)) +
      (future_ids a s + image_mset j_ID (queue_bag (s_queue s)) + mset (map j_ID rq) + mset (map j_ID (s_completed s)))"
    by (simp_all add: core_inv_def held_ids_def ac_simps)
  then show "distinct_keys (s_running s)" by (rule distinct_mset_sub)
qed

lemma core_inv_fresh:
  assumes "core_inv a f s (j # rq)"
  shows "map_of (s_running s) (j_ID j) = None"
proof -
  have "mset (all_ids s) = add_mset (j_ID j) (held_ids a s rq)" and "distinct (all_ids s)"
    using assms by (simp_all add: core_inv_def held_ids_def)
  from distinct_mset_add [OF this(2,1)] show ?thesis by (auto simp: held_ids_def map_of_eq_None_iff)
qed

lemma running_ok_req:
  "running_ok f m \<Longrightarrow> \<forall>rj \<in># map_vals m. req_ok (j_Resources (rj_job rj))"
  by (fastforce simp: running_ok_def intro: generated_req_ok)

lemma running_ok_put:
  "running_ok f m \<Longrightarrow> k = j_ID (rj_job rj) \<Longrightarrow> f \<le> rj_finishTick rj \<Longrightarrow> generated (rj_job rj) \<Longrightarrow>
   running_ok f (map_put k rj m)"
  by (induction m) (auto simp: running_ok_def)

lemma running_ok_del: "running_ok f m \<Longrightarrow> running_ok f (map_del k m)"
  by (auto simp: running_ok_def dest!: set_map_del)

lemma running_ok_mono: "running_ok f m \<Longrightarrow> f' \<le> f \<Longrightarrow> running_ok f' m"
  by (fastforce simp: running_ok_def)


section \<open>What the recording and the iteration order leave alone\<close>

lemma sched_record_simps [simp]:
  "s_nodes (sched_record e s) = s_nodes s" "s_queue (sched_record e s) = s_queue s"
  "s_running (sched_record e s) = s_running s" "s_toSubmit (sched_record e s) = s_toSubmit s"
  "s_completed (sched_record e s) = s_completed s" "s_tick (sched_record e s) = s_tick s"
  "s_baseTime (sched_record e s) = s_baseTime s" "s_rng (sched_record e s) = s_rng s"
  "s_orders (sched_record e s) = s_orders s" "s_ranges (sched_record e s) = s_ranges s"
  by (simp_all add: sched_record_def)

lemma core_inv_cong:
  "s_queue s' = s_queue s \<Longrightarrow> s_running s' = s_running s \<Longrightarrow> s_toSubmit s' = s_toSubmit s \<Longrightarrow>
   s_completed s' = s_completed s \<Longrightarrow> core_inv a f s' rq = core_inv a f s rq"
  by (simp add: core_inv_def held_ids_def all_ids_def future_ids_def)

lemma core_inv_record [simp]: "core_inv a f (sched_record e s) rq = core_inv a f s rq"
  by (rule core_inv_cong) simp_all

lemma core_inv_ranges [simp]: "core_inv a f (s\<lparr>s_ranges := n\<rparr>) rq = core_inv a f s rq"
  by (rule core_inv_cong) simp_all

lemma core_inv_nodes [simp]: "core_inv a f (s\<lparr>s_nodes := ns\<rparr>) rq = core_inv a f s rq"
  by (rule core_inv_cong) simp_all

lemma core_inv_tick [simp]: "core_inv a f (s\<lparr>s_tick := t\<rparr>) rq = core_inv a f s rq"
  by (rule core_inv_cong) simp_all

section \<open>Phase 1\<close>

definition arriving :: "int \<Rightarrow> pending_submit list \<Rightarrow> pending_submit list" where
  "arriving t ps = filter (\<lambda>p. ps_arrivalTick p = t) ps"

definition submitted :: "time \<Rightarrow> pending_submit \<Rightarrow> job" where
  "submitted now p = (ps_job p)\<lparr>j_SubmitTime := now, j_State := Pending\<rparr>"

text \<open>The queue after phase 1 is the queue with the arriving jobs pushed; nothing else changes.\<close>

lemma fold_submit_one:
  "s_queue (fold submit_one ps s) = fold queue_Push (map (submitted (simTime s)) (arriving (s_tick s) ps)) (s_queue s) \<and>
   s_nodes (fold submit_one ps s) = s_nodes s \<and> s_running (fold submit_one ps s) = s_running s \<and>
   s_toSubmit (fold submit_one ps s) = s_toSubmit s \<and> s_completed (fold submit_one ps s) = s_completed s \<and>
   s_tick (fold submit_one ps s) = s_tick s \<and> s_baseTime (fold submit_one ps s) = s_baseTime s"
proof (induction ps arbitrary: s)
  case Nil
  then show ?case by (simp add: arriving_def)
next
  case (Cons p ps)
  have "simTime (submit_one p s) = simTime s" by (simp add: submit_one_def Let_def simTime_def)
  then show ?case using Cons [of "submit_one p s"]
    by (simp add: submit_one_def Let_def arriving_def submitted_def)
qed

lemma phase_submit_simps [simp]:
  "s_nodes (phase_submit s) = s_nodes s" "s_running (phase_submit s) = s_running s"
  "s_toSubmit (phase_submit s) = s_toSubmit s" "s_completed (phase_submit s) = s_completed s"
  "s_tick (phase_submit s) = s_tick s" "s_baseTime (phase_submit s) = s_baseTime s"
  using fold_submit_one [of "s_toSubmit s" s] by (simp_all add: phase_submit_def)

lemma filter_split_tick:
  "mset (filter (\<lambda>p. (t::int) \<le> g p) xs) = mset (filter (\<lambda>p. g p = t) xs) + mset (filter (\<lambda>p. t + 1 \<le> g p) xs)"
  by (induction xs) auto

lemma phase_submit_inv:
  assumes "core_inv (s_tick s) f s []"
  shows "core_inv (s_tick s + 1) f (phase_submit s) []"
proof -
  let ?js = "map (submitted (simTime s)) (arriving (s_tick s) (s_toSubmit s))"
  have q: "s_queue (phase_submit s) = fold queue_Push ?js (s_queue s)"
    using fold_submit_one [of "s_toSubmit s" s] by (simp add: phase_submit_def)
  have qi: "queue_inv (s_queue s)" and gen: "\<forall>p \<in> set (s_toSubmit s). generated (ps_job p)"
    and genq: "\<forall>j \<in># queue_bag (s_queue s). generated j"
    and held: "held_ids (s_tick s) s [] = mset (all_ids s)"
    using assms by (simp_all add: core_inv_def)
  have bag: "queue_bag (s_queue (phase_submit s)) = image_mset unindexed (mset ?js) + queue_bag (s_queue s)"
    using jq.pushes [OF qi] by (simp add: q)
  have "j_ID \<circ> (unindexed \<circ> submitted (simTime s)) = j_ID \<circ> ps_job" by (simp add: submitted_def fun_eq_iff)
  then have ids: "image_mset j_ID (image_mset unindexed (mset ?js)) =
      mset (map (j_ID \<circ> ps_job) (arriving (s_tick s) (s_toSubmit s)))"
    by (simp add: image_mset.compositionality comp_assoc)
  have "future_ids (s_tick s) s =
      mset (map (j_ID \<circ> ps_job) (arriving (s_tick s) (s_toSubmit s))) + future_ids (s_tick s + 1) s"
    unfolding future_ids_def arriving_def mset_map filter_split_tick [of "s_tick s"] by simp
  then have "held_ids (s_tick s + 1) (phase_submit s) [] = held_ids (s_tick s) s []"
    using ids by (simp add: held_ids_def bag future_ids_def ac_simps)
  moreover have "all_ids (phase_submit s) = all_ids s" by (simp add: all_ids_def)
  moreover have "\<forall>j \<in># queue_bag (s_queue (phase_submit s)). generated j"
    using gen genq by (auto simp: bag arriving_def submitted_def)
  moreover have "queue_inv (s_queue (phase_submit s))" using jq.pushes [OF qi] by (simp add: q)
  ultimately show ?thesis using assms held by (simp add: core_inv_def)
qed

section \<open>Phase 2\<close>

lemma complete_one_simps [simp]:
  "s_queue (complete_one e s) = s_queue s" "s_toSubmit (complete_one e s) = s_toSubmit s"
  "s_tick (complete_one e s) = s_tick s" "s_baseTime (complete_one e s) = s_baseTime s"
  by (simp_all add: complete_one_def Let_def split: prod.split)

lemma complete_one_running:
  "s_running (complete_one (k, rj) s) =
     (if rj_finishTick rj = s_tick s then map_del k (s_running s) else s_running s)"
  by (simp add: complete_one_def Let_def)

lemma complete_one_inv:
  assumes inv: "core_inv a f s rq" and k: "map_of (s_running s) k = Some rj"
  shows "core_inv a f (complete_one (k, rj) s) rq"
proof (cases "rj_finishTick rj = s_tick s")
  case False
  then show ?thesis using inv by (simp add: complete_one_def)
next
  case True
  let ?s = "complete_one (k, rj) s"
  have key: "k = j_ID (rj_job rj)" using inv map_of_SomeD [OF k] by (auto simp: core_inv_def running_ok_def)
  have "s_completed ?s = s_completed s @ [(rj_job rj)\<lparr>j_State := Completed\<rparr>]"
    using True by (simp add: complete_one_def Let_def)
  then have "held_ids a ?s rq = held_ids a s rq"
    using True key mset_map_del [OF core_inv_keys [OF inv] k]
    by (simp add: held_ids_def complete_one_running future_ids_def)
  then show ?thesis using inv True
    by (simp add: core_inv_def complete_one_running running_ok_del all_ids_def)
qed

lemma complete_one_nodes:
  assumes inv: "core_inv a f s rq" and k: "map_of (s_running s) k = Some rj"
    and acc: "nodes_account (s_nodes s) (s_running s)"
  shows "nodes_account (s_nodes (complete_one (k, rj) s)) (s_running (complete_one (k, rj) s))"
proof -
  have "\<forall>rj \<in># map_vals (s_running s). req_ok (j_Resources (rj_job rj))"
    by (rule running_ok_req [of f]) (use inv in \<open>simp add: core_inv_def\<close>)
  from nodes_account_release [OF acc core_inv_keys [OF inv] k this] show ?thesis
    using acc by (simp add: complete_one_def Let_def)
qed

definition listed_in :: "('k \<times> 'v) list \<Rightarrow> ('k \<times> 'v) list \<Rightarrow> bool" where
  "listed_in m es \<longleftrightarrow> distinct_keys es \<and> (\<forall>(k, v) \<in> set es. map_of m k = Some v)"

lemma listed_in_Cons:
  "listed_in m ((k, v) # es) \<Longrightarrow> map_of m k = Some v \<and> listed_in m es \<and> listed_in (map_del k m) es"
  by (force simp: listed_in_def)

lemma listed_in_order:
  assumes "distinct_keys m"
  shows "listed_in m (map_order g m)"
proof -
  have "mset (map fst (map_order g m)) = mset (map fst m)" by simp
  with assms have "distinct_keys (map_order g m)" using mset_eq_imp_distinct_iff by blast
  then show ?thesis using assms by (auto simp: listed_in_def)
qed

lemma fold_complete_inv:
  "core_inv a f s rq \<Longrightarrow> listed_in (s_running s) es \<Longrightarrow> core_inv a f (fold complete_one es s) rq"
proof (induction es arbitrary: s)
  case Nil
  then show ?case by simp
next
  case (Cons e es)
  obtain k rj where e: "e = (k, rj)" by (cases e)
  note l = listed_in_Cons [OF Cons.prems(2) [unfolded e]]
  then show ?case
    using Cons.IH [of "complete_one (k, rj) s"] complete_one_inv [OF Cons.prems(1), of k rj]
    by (simp add: e complete_one_running)
qed

lemma fold_complete_nodes:
  "core_inv a f s rq \<Longrightarrow> listed_in (s_running s) es \<Longrightarrow> nodes_account (s_nodes s) (s_running s) \<Longrightarrow>
   nodes_account (s_nodes (fold complete_one es s)) (s_running (fold complete_one es s))"
proof (induction es arbitrary: s)
  case Nil
  then show ?case by simp
next
  case (Cons e es)
  obtain k rj where e: "e = (k, rj)" by (cases e)
  note l = listed_in_Cons [OF Cons.prems(2) [unfolded e]]
  then show ?case
    using Cons.IH [of "complete_one (k, rj) s"] complete_one_inv [OF Cons.prems(1), of k rj]
      complete_one_nodes [OF Cons.prems(1) _ Cons.prems(3), of k rj]
    by (simp add: e complete_one_running)
qed

lemma fold_complete_running:
  "x \<in> set (s_running (fold complete_one es s)) \<Longrightarrow>
   x \<in> set (s_running s) \<and> \<not> (x \<in> set es \<and> rj_finishTick (snd x) = s_tick s)"
proof (induction es arbitrary: s)
  case Nil
  then show ?case by simp
next
  case (Cons e es)
  obtain k rj where e: "e = (k, rj)" by (cases e)
  from Cons.IH [of "complete_one e s"] Cons.prems
  have x: "x \<in> set (s_running (complete_one e s))" "\<not> (x \<in> set es \<and> rj_finishTick (snd x) = s_tick s)"
    by simp_all
  then have "x \<in> set (s_running s)" and "x = e \<longrightarrow> rj_finishTick (snd x) \<noteq> s_tick s"
    by (auto simp: e complete_one_running AList.delete_eq split: if_splits)
  with x(2) show ?case by auto
qed

lemma fold_complete_simps [simp]:
  "s_queue (fold complete_one es s) = s_queue s" "s_toSubmit (fold complete_one es s) = s_toSubmit s"
  "s_tick (fold complete_one es s) = s_tick s" "s_baseTime (fold complete_one es s) = s_baseTime s"
  by (induction es arbitrary: s) simp_all

lemma range_running_eq: "range_running s = (entries, s1) \<Longrightarrow>
  entries = map_order (s_orders s (s_ranges s)) (s_running s) \<and> s1 = s\<lparr>s_ranges := Suc (s_ranges s)\<rparr>"
  by (simp add: range_running_def)

lemma phase_complete_simps [simp]:
  "s_queue (phase_complete s) = s_queue s" "s_toSubmit (phase_complete s) = s_toSubmit s"
  "s_tick (phase_complete s) = s_tick s" "s_baseTime (phase_complete s) = s_baseTime s"
  by (simp_all add: phase_complete_def range_running_def)

text \<open>After phase 2 every job still running finishes at a later tick: none is ever missed.\<close>

lemma phase_complete_inv:
  assumes "core_inv a (s_tick s) s rq"
  shows "core_inv a (s_tick s + 1) (phase_complete s) rq"
proof -
  let ?es = "map_order (s_orders s (s_ranges s)) (s_running s)" and ?s = "s\<lparr>s_ranges := Suc (s_ranges s)\<rparr>"
  have pc: "phase_complete s = fold complete_one ?es ?s" by (simp add: phase_complete_def range_running_def)
  have inv: "core_inv a (s_tick s) (phase_complete s) rq"
    unfolding pc by (rule fold_complete_inv) (use assms in \<open>auto intro: core_inv_keys listed_in_order\<close>)
  have "rj_finishTick rj \<noteq> s_tick s" if "(k, rj) \<in> set (s_running (phase_complete s))" for k rj
    using fold_complete_running [of "(k, rj)" ?es ?s] that by (auto simp: pc)
  then have "running_ok (s_tick s + 1) (s_running (phase_complete s))"
    using inv by (fastforce simp: core_inv_def running_ok_def)
  with inv show ?thesis by (simp add: core_inv_def)
qed

lemma phase_complete_nodes:
  assumes "core_inv a f s rq" and "nodes_account (s_nodes s) (s_running s)"
  shows "nodes_account (s_nodes (phase_complete s)) (s_running (phase_complete s))"
  unfolding phase_complete_def range_running_def prod.case
  by (rule fold_complete_nodes) (use assms in \<open>auto intro: core_inv_keys listed_in_order\<close>)

end
