(* ===== verification/SchedulerPlace.thy ===== *)
theory SchedulerPlace
  imports SchedulerInv
begin

text \<open>
  Phase 3 of a tick: the choice of a victim, one round of the placement loop, the measure by
  which the loop ends, and the rule by which properties of the loop are proved.
\<close>

section \<open>The victim\<close>

lemma victim_loop_correct:
  "(case victim of None \<Rightarrow> True | Some v \<Rightarrow> j_Priority (rj_job v) < j_Priority c) \<Longrightarrow>
   (case victim_loop c victim es of
      None \<Rightarrow> victim = None \<and> (\<forall>e \<in> set es. j_Priority c \<le> j_Priority (rj_job (snd e)))
    | Some v \<Rightarrow> (victim = Some v \<or> v \<in> snd ` set es) \<and> j_Priority (rj_job v) < j_Priority c \<and>
        (\<forall>e \<in> set es. j_Priority (rj_job v) \<le> j_Priority (rj_job (snd e))) \<and>
        (case victim of None \<Rightarrow> True | Some u \<Rightarrow> j_Priority (rj_job v) \<le> j_Priority (rj_job u)))"
proof (induction c victim es rule: victim_loop.induct)
  case (1 c victim)
  then show ?case by (simp split: option.splits)
next
  case (2 c victim k rj rest)
  show ?case
  proof (cases "j_Priority c \<le> j_Priority (rj_job rj)")
    case True
    then show ?thesis using 2(1) [OF True 2(5)] 2(5)
      by (auto split: option.splits)
  next
    case False
    show ?thesis
    proof (cases victim)
      case None
      then show ?thesis using 2(2) [OF False None] False by (auto split: option.splits)
    next
      case (Some u)
      show ?thesis
      proof (cases "j_Priority (rj_job rj) < j_Priority (rj_job u)")
        case True
        then show ?thesis using 2(3) [OF False Some True] Some False by (auto split: option.splits)
      next
        case lt: False
        then show ?thesis using 2(4) [OF False Some lt] Some False 2(5) by (auto split: option.splits)
      qed
    qed
  qed
qed

lemma victim_Some:
  assumes "findPreemptionVictim es c = Some v"
  shows "v \<in> snd ` set es" and "j_Priority (rj_job v) < j_Priority c"
    and "e \<in> set es \<Longrightarrow> j_Priority (rj_job v) \<le> j_Priority (rj_job (snd e))"
  using victim_loop_correct [where victim = None and c = c and es = es] assms by (auto simp: findPreemptionVictim_def)

lemma victim_None:
  "findPreemptionVictim es c = None \<Longrightarrow> e \<in> set es \<Longrightarrow> j_Priority c \<le> j_Priority (rj_job (snd e))"
  using victim_loop_correct [where victim = None and c = c and es = es] by (auto simp: findPreemptionVictim_def)

section \<open>Preemption and start\<close>

lemma preempt_simps [simp]:
  "s_toSubmit (preempt j v s) = s_toSubmit s" "s_completed (preempt j v s) = s_completed s"
  "s_tick (preempt j v s) = s_tick s" "s_running (preempt j v s) = map_del (j_ID v) (s_running s)"
  "s_nodes (preempt j v s) = release_named (j_Node v) (j_Resources v) (s_nodes s)"
  "s_queue (preempt j v s) = queue_Push (v\<lparr>j_State := Pending, j_SubmitTime := simTime s\<rparr>) (s_queue s)"
  by (simp_all add: preempt_def Let_def)

lemma start_on_simps [simp]:
  "s_queue (start_on i j s) = s_queue s" "s_toSubmit (start_on i j s) = s_toSubmit s"
  "s_completed (start_on i j s) = s_completed s" "s_tick (start_on i j s) = s_tick s"
  "s_nodes (start_on i j s) = (s_nodes s)[i := node_Reserve (s_nodes s ! i) (j_Resources j)]"
  by (simp_all add: start_on_def Let_def split: prod.split)

definition started :: "nat \<Rightarrow> job \<Rightarrow> scheduler \<Rightarrow> running_job" where
  "started i j s = \<lparr>rj_job = j\<lparr>j_State := Running, j_Node := n_Name (s_nodes s ! i), j_StartTime := simTime s\<rparr>,
     rj_finishTick = s_tick s + (4 + b_BatchSize (j_Inference j) sdiv 4 + fst (rng_Intn 8 (s_rng s)))\<rparr>"

lemma start_on_running: "s_running (start_on i j s) = map_put (j_ID j) (started i j s) (s_running s)"
  by (simp add: start_on_def started_def Let_def split: prod.split)

lemma wait_for_room_simps [simp]:
  "s_queue (wait_for_room j s) = s_queue s" "s_toSubmit (wait_for_room j s) = s_toSubmit s"
  "s_completed (wait_for_room j s) = s_completed s" "s_tick (wait_for_room j s) = s_tick s"
  "s_nodes (wait_for_room j s) = s_nodes s" "s_running (wait_for_room j s) = s_running s"
  "core_inv a f (wait_for_room j s) rq = core_inv a f s rq"
  by (simp_all add: wait_for_room_def)

lemma started_later: "generated j \<Longrightarrow> s_tick s + 4 \<le> rj_finishTick (started i j s)"
proof -
  assume "generated j"
  then have "0 \<le> b_BatchSize (j_Inference j)" by (simp add: generated_def valid_batch_def)
  then have "0 \<le> b_BatchSize (j_Inference j) sdiv 4" by (simp add: signed_divide_int_def sgn_if)
  moreover have "0 \<le> fst (rng_Intn 8 (s_rng s))" by (simp add: rng_Intn_def)
  ultimately show ?thesis by (simp add: started_def)
qed

lemma preempt_inv:
  assumes inv: "core_inv a f s (j # rq)" and v: "map_of (s_running s) (j_ID v) = Some rj" "rj_job rj = v"
  shows "core_inv a f (preempt j v s) (j # rq)"
proof -
  have gen: "generated v" using inv map_of_SomeD [OF v(1)] v(2) by (auto simp: core_inv_def running_ok_def)
  have q: "queue_inv (s_queue s)" using inv by (simp add: core_inv_def)
  have "held_ids a (preempt j v s) (j # rq) = held_ids a s (j # rq)"
    using mset_map_del [OF core_inv_keys [OF inv] v(1)]
    by (simp add: held_ids_def future_ids_def queue_bag_Push [OF q])
  then show ?thesis using inv gen
    by (simp add: core_inv_def all_ids_def running_ok_del queue_inv_Push queue_bag_Push)
qed

lemma preempt_nodes:
  assumes inv: "core_inv a f s rq" and v: "map_of (s_running s) (j_ID v) = Some rj" "rj_job rj = v"
    and acc: "nodes_account (s_nodes s) (s_running s)"
  shows "nodes_account (s_nodes (preempt j v s)) (s_running (preempt j v s))"
proof -
  have "\<forall>rj \<in># map_vals (s_running s). req_ok (j_Resources (rj_job rj))"
    by (rule running_ok_req [of f]) (use inv in \<open>simp add: core_inv_def\<close>)
  from nodes_account_release [OF acc core_inv_keys [OF inv] v(1) this] show ?thesis by (simp add: v(2))
qed

lemma start_on_inv:
  assumes inv: "core_inv a f s (j # rq)" and f: "f \<le> s_tick s + 4"
  shows "core_inv a f (start_on i j s) rq"
proof -
  note new = core_inv_fresh [OF inv]
  have gen: "generated j" using inv by (simp add: core_inv_def)
  have "held_ids a (start_on i j s) rq = held_ids a s (j # rq)"
    by (simp add: held_ids_def future_ids_def start_on_running map_put_fresh [OF new])
  moreover have "running_ok f (s_running (start_on i j s))"
    unfolding start_on_running
    by (rule running_ok_put) (use inv gen f started_later [OF gen, of s i] in
        \<open>auto simp: core_inv_def started_def\<close>)
  ultimately show ?thesis using inv by (simp add: core_inv_def all_ids_def)
qed

lemma start_on_nodes:
  assumes inv: "core_inv a f s (j # rq)" and acc: "nodes_account (s_nodes s) (s_running s)"
    and fit: "pool_FindFit (s_nodes s) (j_Resources j) = Some i"
  shows "nodes_account (s_nodes (start_on i j s)) (s_running (start_on i j s))"
proof -
  have "generated j" using inv by (simp add: core_inv_def)
  moreover have "i < length (s_nodes s)" "node_Fits (s_nodes s ! i) (j_Resources j)"
    using pool_FindFit_Some [OF fit] by (simp_all add: best_fit_def)
  ultimately show ?thesis
    unfolding start_on_running start_on_simps
    by (intro nodes_account_reserve [OF acc] core_inv_fresh [OF inv] generated_req_ok)
      (simp_all add: started_def)
qed

section \<open>One round of the loop\<close>

text \<open>
  The three outcomes of \<open>make_room\<close>. \<open>s1\<close> is the state after the \<open>range\<close> over \<open>running\<close>, if
  there was one.
\<close>

lemma make_room_cases:
  assumes "make_room j s = (r, s')"
  obtains (fits) i where "r = Some i" "s' = s" "pool_FindFit (s_nodes s) (j_Resources j) = Some i"
  | (no_victim) "r = None" "s' = s\<lparr>s_ranges := Suc (s_ranges s)\<rparr>" "pool_FindFit (s_nodes s) (j_Resources j) = None"
      "\<forall>e \<in> set (s_running s). j_Priority j \<le> j_Priority (rj_job (snd e))"
  | (victim) k rj where "s' = preempt j (rj_job rj) (s\<lparr>s_ranges := Suc (s_ranges s)\<rparr>)"
      "pool_FindFit (s_nodes s) (j_Resources j) = None" "(k, rj) \<in> set (s_running s)"
      "j_Priority (rj_job rj) < j_Priority j"
      "\<forall>e \<in> set (s_running s). j_Priority (rj_job rj) \<le> j_Priority (rj_job (snd e))"
      "r = pool_FindFit (s_nodes s') (j_Resources j)"
proof (cases "pool_FindFit (s_nodes s) (j_Resources j)")
  case (Some i)
  then have "r = Some i \<and> s' = s" using assms by (simp add: make_room_def)
  with Some show ?thesis using fits by blast
next
  case None
  let ?es = "map_order (s_orders s (s_ranges s)) (s_running s)"
  show ?thesis
  proof (cases "findPreemptionVictim ?es j")
    case none: None
    then show ?thesis using assms None no_victim victim_None [OF none]
      by (simp add: make_room_def range_running_def)
  next
    case (Some rj)
    then obtain k where "(k, rj) \<in> set (s_running s)" using victim_Some(1) [OF Some] by auto
    moreover have "s' = preempt j (rj_job rj) (s\<lparr>s_ranges := Suc (s_ranges s)\<rparr>)"
        and "r = pool_FindFit (s_nodes s') (j_Resources j)"
      using assms None Some by (auto simp: make_room_def range_running_def Let_def)
    ultimately show ?thesis using None victim victim_Some(2,3) [OF Some] by simp
  qed
qed

lemma core_inv_lookup:
  "core_inv a f s rq \<Longrightarrow> (k, rj) \<in> set (s_running s) \<Longrightarrow>
   k = j_ID (rj_job rj) \<and> map_of (s_running s) (j_ID (rj_job rj)) = Some rj"
  using core_inv_keys [of a f s rq] by (auto simp: core_inv_def running_ok_def)

lemma make_room_inv:
  assumes inv: "core_inv a f s (j # rq)" and mr: "make_room j s = (r, s')"
  shows "core_inv a f s' (j # rq) \<and> s_tick s' = s_tick s"
  using mr
proof (cases rule: make_room_cases)
  case (victim k rj)
  have "core_inv a f (s\<lparr>s_ranges := Suc (s_ranges s)\<rparr>) (j # rq)" using inv by simp
  from preempt_inv [OF this] show ?thesis
    using core_inv_lookup [OF inv victim(3)] by (simp add: victim(1))
qed (use inv in simp_all)

lemma make_room_nodes:
  assumes inv: "core_inv a f s (j # rq)" and mr: "make_room j s = (r, s')"
    and acc: "nodes_account (s_nodes s) (s_running s)"
  shows "nodes_account (s_nodes s') (s_running s') \<and> (\<forall>i. r = Some i \<longrightarrow> pool_FindFit (s_nodes s') (j_Resources j) = Some i)"
  using mr
proof (cases rule: make_room_cases)
  case (victim k rj)
  have "core_inv a f (s\<lparr>s_ranges := Suc (s_ranges s)\<rparr>) (j # rq)" using inv by simp
  from preempt_nodes [OF this, of "rj_job rj" rj j] show ?thesis
    using core_inv_lookup [OF inv victim(3)] acc victim(6) by (simp add: victim(1))
qed (use acc in simp_all)

lemma core_inv_snoc: "core_inv a f s (rq @ [j]) = core_inv a f s (j # rq)"
  by (simp add: core_inv_def held_ids_def)

lemma place_one_inv:
  assumes inv: "core_inv a f s (j # rq)" and f: "f \<le> s_tick s + 4" and po: "place_one j s rq = (s', rq')"
  shows "core_inv a f s' rq' \<and> s_tick s' = s_tick s"
proof -
  obtain r s1 where mr: "make_room j s = (r, s1)" by fastforce
  note m = make_room_inv [OF inv mr]
  show ?thesis
  proof (cases r)
    case None
    then show ?thesis using m po by (auto simp: place_one_def mr core_inv_snoc)
  next
    case (Some i)
    then show ?thesis using m po f start_on_inv [of a f s1 j rq i] by (auto simp: place_one_def mr)
  qed
qed

lemma place_one_nodes:
  assumes inv: "core_inv a f s (j # rq)" and po: "place_one j s rq = (s', rq')"
    and acc: "nodes_account (s_nodes s) (s_running s)"
  shows "nodes_account (s_nodes s') (s_running s')"
proof -
  obtain r s1 where mr: "make_room j s = (r, s1)" by fastforce
  note m = make_room_inv [OF inv mr] make_room_nodes [OF inv mr acc]
  show ?thesis
  proof (cases r)
    case None
    then show ?thesis using m po by (auto simp: place_one_def mr)
  next
    case (Some i)
    then show ?thesis using m po start_on_nodes [of a f s1 j rq i] by (auto simp: place_one_def mr)
  qed
qed

end
