(* ===== verification/SchedulerRun.thy ===== *)
theory SchedulerRun
  imports SchedulerPlace
begin

text \<open>
  The placement loop ends: every round either takes a job out of the queue or exchanges it for
  one of lower priority. Then ticks and whole runs: they return, and keep the invariants. The
  last section proves what the default cluster guarantees at the end of every tick.
\<close>

section \<open>The measure\<close>

definition weight :: "int multiset \<Rightarrow> int multiset \<Rightarrow> nat" where
  "weight M P = (\<Sum>p \<in># M. Suc (size (filter_mset (\<lambda>x. x < p) P)))"

definition queue_prios :: "scheduler \<Rightarrow> int multiset" where
  "queue_prios s = image_mset j_Priority (queue_bag (s_queue s))"

definition running_prios :: "scheduler \<Rightarrow> int multiset" where
  "running_prios s = image_mset (j_Priority \<circ> rj_job) (map_vals (s_running s))"

definition place_weight :: "scheduler \<Rightarrow> nat" where
  "place_weight s = weight (queue_prios s) (queue_prios s + running_prios s)"

lemma weight_mono: "P' \<subseteq># P \<Longrightarrow> weight M P' \<le> weight M P"
  unfolding weight_def
  by (induction M) (auto intro!: add_mono size_mset_mono multiset_filter_mono)

lemma weight_removed: "P' \<subseteq># P \<Longrightarrow> weight M P' < weight (add_mset p M) P"
  using weight_mono [of P' P M] by (simp add: weight_def)

lemma weight_exchanged:
  assumes "P' \<subseteq># P" and "v < p" and "v \<in># P"
  shows "weight (add_mset v M) P' < weight (add_mset p M) P"
proof -
  have "add_mset v (filter_mset (\<lambda>x. x < v) P) \<subseteq># filter_mset (\<lambda>x. x < p) P"
    using assms(2,3) by (auto simp: subseteq_mset_def not_in_iff)
  from size_mset_mono [OF this] have "weight (add_mset v M) P < weight (add_mset p M) P"
    by (simp add: weight_def)
  with weight_mono [OF assms(1), of "add_mset v M"] show ?thesis by simp
qed

lemma running_prios_del:
  "core_inv a f s rq \<Longrightarrow> (k, rj) \<in> set (s_running s) \<Longrightarrow>
   running_prios s = add_mset (j_Priority (rj_job rj)) (running_prios (s\<lparr>s_running := map_del (j_ID (rj_job rj)) (s_running s)\<rparr>))"
  using core_inv_lookup [of a f s rq k rj] map_vals_del [OF core_inv_keys, of a f s rq "j_ID (rj_job rj)" rj]
  by (simp add: running_prios_def)

lemma place_one_weight:
  assumes inv: "core_inv a f (s\<lparr>s_queue := q\<rparr>) (j # rq)" and bag: "queue_bag (s_queue s) = add_mset j (queue_bag q)"
    and po: "place_one j (s\<lparr>s_queue := q\<rparr>) rq = (s', rq')"
  shows "place_weight s' < place_weight s"
proof -
  let ?s = "s\<lparr>s_queue := q\<rparr>" and ?M = "image_mset j_Priority (queue_bag q)"
  have q0: "queue_prios s = add_mset (j_Priority j) ?M" by (simp add: queue_prios_def bag)
  have r0: "running_prios ?s = running_prios s" by (simp add: running_prios_def)
  obtain r s1 where mr: "make_room j ?s = (r, s1)" by fastforce
  have inv1: "core_inv a f s1 (j # rq)" using make_room_inv [OF inv mr] by blast
  have q1: "queue_prios s' = queue_prios s1"
    using po by (auto simp: place_one_def mr queue_prios_def split: option.splits)
  have r1: "queue_prios s' + running_prios s' \<subseteq># add_mset (j_Priority j) (queue_prios s1 + running_prios s1)"
  proof (cases r)
    case None
    then show ?thesis using po q1 by (auto simp: place_one_def mr running_prios_def)
  next
    case (Some i)
    then show ?thesis using po q1 map_vals_put_fresh [OF core_inv_fresh [OF inv1], of "started i j s1"]
      by (auto simp: place_one_def mr running_prios_def start_on_running started_def)
  qed
  show ?thesis using mr
  proof (cases rule: make_room_cases)
    case (fits i)
    then have "queue_prios s1 = ?M" "running_prios s1 = running_prios s"
      using r0 by (simp_all add: queue_prios_def)
    then show ?thesis using weight_removed [OF r1, of ?M "j_Priority j"] q0 q1 by (simp add: place_weight_def)
  next
    case no_victim
    then have "queue_prios s1 = ?M" "running_prios s1 = running_prios s"
      by (simp_all add: queue_prios_def running_prios_def)
    then show ?thesis using weight_removed [OF r1, of ?M "j_Priority j"] q0 q1 by (simp add: place_weight_def)
  next
    case (victim k rj)
    let ?v = "j_Priority (rj_job rj)"
    have "queue_inv q" using inv by (simp add: core_inv_def)
    then have q2: "queue_prios s1 = add_mset ?v ?M" by (simp add: victim(1) queue_prios_def queue_bag_Push)
    have "running_prios ?s = add_mset ?v (running_prios s1)"
      using running_prios_del [OF inv victim(3)] by (simp add: victim(1) running_prios_def)
    then have "add_mset (j_Priority j) (queue_prios s1 + running_prios s1) = queue_prios s + running_prios s"
      using q2 q0 r0 by simp
    moreover have "?v \<in># queue_prios s + running_prios s"
      using \<open>running_prios ?s = add_mset ?v (running_prios s1)\<close> r0 by simp
    ultimately have "weight (add_mset ?v ?M) (queue_prios s' + running_prios s') <
        weight (add_mset (j_Priority j) ?M) (queue_prios s + running_prios s)"
      using weight_exchanged [of _ _ ?v "j_Priority j" ?M] r1 victim(4) by metis
    then show ?thesis using q0 q1 q2 by (simp add: place_weight_def)
  qed
qed

section \<open>The loop\<close>

lemma core_inv_popped:
  assumes "core_inv a f s rq" and "queue_Pop (s_queue s) = (Some j, q)"
  shows "core_inv a f (s\<lparr>s_queue := q\<rparr>) (j # rq)" and "queue_bag (s_queue s) = add_mset j (queue_bag q)"
    and "\<forall>k \<in># queue_bag q. j_Priority k \<le> j_Priority j"
proof -
  have qi: "queue_inv (s_queue s)" using assms(1) by (simp add: core_inv_def)
  note p = queue_Pop_Some(1,2,3) [OF qi assms(2)]
  show "queue_bag (s_queue s) = add_mset j (queue_bag q)" by (rule p(2))
  then show "core_inv a f (s\<lparr>s_queue := q\<rparr>) (j # rq)"
    using assms(1) p(1) by (simp add: core_inv_def held_ids_def all_ids_def future_ids_def)
  show "\<forall>k \<in># queue_bag q. j_Priority k \<le> j_Priority j"
    using p(2,3) by (auto simp: urgency_of_def less_eq_urgency_def)
qed

lemma place_loop_rule:
  assumes "I s rq" and core: "\<And>s rq. I s rq \<Longrightarrow> core_inv a f s rq"
    and step: "\<And>s rq j q s' rq'. I s rq \<Longrightarrow> queue_Pop (s_queue s) = (Some j, q) \<Longrightarrow>
      place_one j (s\<lparr>s_queue := q\<rparr>) rq = (s', rq') \<Longrightarrow> I s' rq'"
  shows "\<exists>s' rq'. place_loop s rq = Some (s', rq') \<and> I s' rq' \<and> queue_Len (s_queue s') = 0"
  using assms(1)
proof (induction "place_weight s" arbitrary: s rq rule: less_induct)
  case less
  show ?case
  proof (cases "queue_Len (s_queue s) = 0")
    case True
    then show ?thesis using less.prems by (simp add: place_loop.simps [of s rq])
  next
    case False
    then obtain j q where p: "queue_Pop (s_queue s) = (Some j, q)" using queue_Pop_nonempty by blast
    obtain s1 rq1 where po: "place_one j (s\<lparr>s_queue := q\<rparr>) rq = (s1, rq1)" by fastforce
    note c = core_inv_popped [OF core [OF less.prems] p]
    have "place_loop s rq = place_loop s1 rq1" using False p po by (simp add: place_loop.simps [of s rq])
    then show ?thesis
      using less.hyps [OF place_one_weight [OF c(1,2) po] step [OF less.prems p po]] by simp
  qed
qed

lemma requeue_all_inv:
  assumes "core_inv a f s rq"
  shows "core_inv a f (requeue_all rq s) []"
    and "queue_bag (s_queue (requeue_all rq s)) = image_mset unindexed (mset rq) + queue_bag (s_queue s)"
proof -
  have qi: "queue_inv (s_queue s)" using assms by (simp add: core_inv_def)
  note p = jq.pushes [OF qi, of rq]
  then show bag: "queue_bag (s_queue (requeue_all rq s)) = image_mset unindexed (mset rq) + queue_bag (s_queue s)"
    by (simp add: requeue_all_def)
  have "image_mset j_ID (image_mset unindexed (mset rq)) = image_mset j_ID (mset rq)"
    by (simp add: image_mset.compositionality comp_def)
  then have "held_ids a (requeue_all rq s) [] = held_ids a s rq"
    unfolding held_ids_def bag by (simp add: requeue_all_def future_ids_def)
  then show "core_inv a f (requeue_all rq s) []"
    using assms p by (auto simp: core_inv_def bag all_ids_def requeue_all_def)
qed

lemma requeue_all_simps [simp]:
  "s_tick (requeue_all rq s) = s_tick s" "s_nodes (requeue_all rq s) = s_nodes s"
  "s_running (requeue_all rq s) = s_running s" "s_toSubmit (requeue_all rq s) = s_toSubmit s"
  by (simp_all add: requeue_all_def)

lemma place_one_toSubmit: "place_one j s rq = (s', rq') \<Longrightarrow> s_toSubmit s' = s_toSubmit s"
  by (auto simp: place_one_def make_room_def range_running_def Let_def split: option.splits prod.splits)

lemma phase_place_rule:
  assumes "I s []" and "\<And>s rq. I s rq \<Longrightarrow> core_inv a f s rq"
    and "\<And>s rq j q s' rq'. I s rq \<Longrightarrow> queue_Pop (s_queue s) = (Some j, q) \<Longrightarrow>
      place_one j (s\<lparr>s_queue := q\<rparr>) rq = (s', rq') \<Longrightarrow> I s' rq'"
  shows "\<exists>s1 rq. phase_place s = Some (requeue_all rq s1) \<and> I s1 rq \<and>
    core_inv a f (requeue_all rq s1) [] \<and>
    queue_bag (s_queue (requeue_all rq s1)) = image_mset unindexed (mset rq)"
proof -
  have "\<exists>s1 rq. place_loop s [] = Some (s1, rq) \<and> I s1 rq \<and> queue_Len (s_queue s1) = 0"
    by (rule place_loop_rule [of I s "[]", OF assms]) assumption+
  then obtain s1 rq where pl: "place_loop s [] = Some (s1, rq)" "I s1 rq" "queue_Len (s_queue s1) = 0" by blast
  note r = requeue_all_inv [OF assms(2) [OF pl(2)]]
  have "queue_bag (s_queue s1) = {#}" using pl(3) by (simp add: queue_Len_bag)
  then show ?thesis using r pl by (auto simp: phase_place_def)
qed

section \<open>Ticks\<close>

definition sched_inv :: "scheduler \<Rightarrow> bool" where
  "sched_inv s \<longleftrightarrow> core_inv (s_tick s) (s_tick s) s []"

definition accounts :: "scheduler \<Rightarrow> bool" where
  "accounts s \<longleftrightarrow> nodes_account (s_nodes s) (s_running s)"

text \<open>
  The rule for a tick: a property \<open>I\<close> of the placement loop that phases 1 and 2 establish holds
  of the loop's result. \<open>s2\<close> is the state when the loop starts.
\<close>

lemma sched_tick_rule:
  assumes inv: "sched_inv s" and s2: "s2 = phase_complete (phase_submit s)"
    and I: "I s2 []"
    and step: "\<And>u rq j q u' rq'. I u rq \<Longrightarrow> core_inv (s_tick s + 1) (s_tick s + 1) (u\<lparr>s_queue := q\<rparr>) (j # rq) \<Longrightarrow>
      queue_bag (s_queue u) = add_mset j (queue_bag q) \<Longrightarrow> \<forall>k \<in># queue_bag q. j_Priority k \<le> j_Priority j \<Longrightarrow>
      place_one j (u\<lparr>s_queue := q\<rparr>) rq = (u', rq') \<Longrightarrow> I u' rq'"
  shows "\<exists>s3 rq. sched_tick s = Some ((requeue_all rq s3)\<lparr>s_tick := s_tick s + 1\<rparr>) \<and> I s3 rq \<and>
    s_toSubmit s3 = s_toSubmit s \<and> sched_inv ((requeue_all rq s3)\<lparr>s_tick := s_tick s + 1\<rparr>) \<and>
    queue_bag (s_queue (requeue_all rq s3)) = image_mset unindexed (mset rq)"
proof -
  let ?t = "s_tick s"
  define J where "J u rq \<longleftrightarrow> I u rq \<and> core_inv (?t + 1) (?t + 1) u rq \<and> s_tick u = ?t \<and>
    s_toSubmit u = s_toSubmit s" for u rq
  have "core_inv (?t + 1) (?t + 1) s2 []"
    using phase_complete_inv [of "?t + 1" "phase_submit s" "[]"] phase_submit_inv [of s ?t] inv
    by (simp add: sched_inv_def s2)
  then have J0: "J s2 []" using I by (simp add: J_def s2)
  have Jstep: "J u' rq'" if "J u rq" "queue_Pop (s_queue u) = (Some j, q)"
      "place_one j (u\<lparr>s_queue := q\<rparr>) rq = (u', rq')" for u rq j q u' rq'
  proof -
    have c: "core_inv (?t + 1) (?t + 1) u rq" and t: "s_tick u = ?t" using that(1) by (simp_all add: J_def)
    note p = core_inv_popped [OF c that(2)]
    have "core_inv (?t + 1) (?t + 1) u' rq' \<and> s_tick u' = ?t"
      using place_one_inv [OF p(1) _ that(3)] t by simp
    then show ?thesis
      using step [OF _ p that(3)] that(1) place_one_toSubmit [OF that(3)] by (simp add: J_def)
  qed
  have "\<exists>s3 rq. phase_place s2 = Some (requeue_all rq s3) \<and> J s3 rq \<and>
      core_inv (?t + 1) (?t + 1) (requeue_all rq s3) [] \<and>
      queue_bag (s_queue (requeue_all rq s3)) = image_mset unindexed (mset rq)"
    by (rule phase_place_rule [of J, OF J0]) (simp add: J_def, rule Jstep)
  then obtain s3 rq where p: "phase_place s2 = Some (requeue_all rq s3)" "J s3 rq"
      "core_inv (?t + 1) (?t + 1) (requeue_all rq s3) []"
      "queue_bag (s_queue (requeue_all rq s3)) = image_mset unindexed (mset rq)" by blast
  then have "sched_tick s = Some ((requeue_all rq s3)\<lparr>s_tick := ?t + 1\<rparr>)"
    by (simp add: sched_tick_def J_def flip: s2)
  then show ?thesis using p by (auto simp: J_def sched_inv_def)
qed

lemma sched_tick_inv:
  assumes "sched_inv s"
  shows "\<exists>s'. sched_tick s = Some s' \<and> sched_inv s' \<and> s_tick s' = s_tick s + 1 \<and>
    s_toSubmit s' = s_toSubmit s \<and> (accounts s \<longrightarrow> accounts s')"
proof -
  let ?I = "\<lambda>u rq. accounts s \<longrightarrow> accounts u"
  have c: "core_inv (s_tick s + 1) (s_tick s) (phase_submit s) []"
    using phase_submit_inv [of s "s_tick s"] assms by (simp add: sched_inv_def)
  have "\<exists>s3 rq. sched_tick s = Some ((requeue_all rq s3)\<lparr>s_tick := s_tick s + 1\<rparr>) \<and> ?I s3 rq \<and>
      s_toSubmit s3 = s_toSubmit s \<and> sched_inv ((requeue_all rq s3)\<lparr>s_tick := s_tick s + 1\<rparr>) \<and>
      queue_bag (s_queue (requeue_all rq s3)) = image_mset unindexed (mset rq)"
  proof (rule sched_tick_rule [OF assms refl])
    show "?I (phase_complete (phase_submit s)) []"
      using phase_complete_nodes [OF c] by (simp add: accounts_def)
    show "?I u' rq'" if "?I u rq" "core_inv (s_tick s + 1) (s_tick s + 1) (u\<lparr>s_queue := q\<rparr>) (j # rq)"
        "place_one j (u\<lparr>s_queue := q\<rparr>) rq = (u', rq')" for u rq j q u' rq'
      using place_one_nodes [OF that(2,3)] that(1) by (simp add: accounts_def)
  qed
  then show ?thesis by (auto simp: accounts_def)
qed

lemma sched_ticks_inv:
  "sched_inv s \<Longrightarrow> \<exists>s'. sched_ticks n s = Some s' \<and> sched_inv s' \<and> s_tick s' = s_tick s + int n \<and>
     s_toSubmit s' = s_toSubmit s \<and> (accounts s \<longrightarrow> accounts s')"
proof (induction n arbitrary: s)
  case 0
  then show ?case by simp
next
  case (Suc n)
  obtain s1 where s1: "sched_tick s = Some s1" "sched_inv s1" "s_tick s1 = s_tick s + 1"
      "s_toSubmit s1 = s_toSubmit s" "accounts s \<longrightarrow> accounts s1"
    using sched_tick_inv [OF Suc.prems] by blast
  from Suc.IH [OF s1(2)] s1 show ?case by auto
qed

section \<open>The start\<close>

definition job_name :: "nat \<Rightarrow> string" where
  "job_name i = ''job-'' @ pad3 i"

lemma batchSizes_range: "0 \<le> r \<Longrightarrow> r < 4 \<Longrightarrow> batchSizes ! nat r \<in> {1, 8, 16, 32}"
proof -
  assume "0 \<le> r" "r < 4"
  then have "nat r \<in> {0, 1, 2, 3}" by auto
  then show ?thesis by (auto simp: batchSizes_def)
qed

lemma gen_job_ok:
  "\<exists>p g'. gen_job seed i g = (Inr p, g') \<and> generated (ps_job p) \<and> j_ID (ps_job p) = job_name i \<and>
     0 \<le> ps_arrivalTick p \<and> ps_arrivalTick p < 30"
proof -
  define r2 where "r2 = fst (rng_Intn 4 (snd (rng_Intn 5 g)))"
  have "r2 = rg_raw g (Suc (rg_pos g)) mod 4" by (simp add: r2_def rng_Intn_def)
  then have b: "batchSizes ! nat r2 \<in> {1, 8, 16, 32}" using batchSizes_range [of r2] by simp
  define pr where "pr = (if fst (rng_Intn 2 (snd (rng_Intn 4 (snd (rng_Intn 5 g))))) = 0 then ''fp16'' else ''fp32'')"
  have "snd (NewResNet50Batch (batchSizes ! nat r2) pr (go_add seed (int i))) = None \<and>
      valid_batch (fst (NewResNet50Batch (batchSizes ! nat r2) pr (go_add seed (int i))))"
    using b by (intro NewResNet50Batch_ok) (auto simp: pr_def)
  then obtain bt where nb: "NewResNet50Batch (batchSizes ! nat r2) pr (go_add seed (int i)) = (bt, None)" "valid_batch bt"
    by (cases "NewResNet50Batch (batchSizes ! nat r2) pr (go_add seed (int i))") auto
  have "length batchSizes = 4" by (simp add: batchSizes_def)
  then show ?thesis using nb b
    by (auto simp: gen_job_def generated_def job_name_def Let_def rng_Intn_def r2_def pr_def)
qed

lemma gen_jobs_ok:
  "\<exists>ps g'. gen_jobs seed is g = (Inr ps, g') \<and> map (j_ID \<circ> ps_job) ps = map job_name is \<and>
     (\<forall>p \<in> set ps. generated (ps_job p) \<and> 0 \<le> ps_arrivalTick p \<and> ps_arrivalTick p < 30)"
proof (induction "is" arbitrary: g)
  case Nil
  then show ?case by simp
next
  case (Cons i "is")
  obtain p g1 where p: "gen_job seed i g = (Inr p, g1)" "generated (ps_job p)" "j_ID (ps_job p) = job_name i"
      "0 \<le> ps_arrivalTick p" "ps_arrivalTick p < 30"
    using gen_job_ok by blast
  obtain ps g2 where "gen_jobs seed is g1 = (Inr ps, g2)" "map (j_ID \<circ> ps_job) ps = map job_name is"
      "\<forall>p \<in> set ps. generated (ps_job p) \<and> 0 \<le> ps_arrivalTick p \<and> ps_arrivalTick p < 30"
    using Cons.IH by blast
  with p show ?case by (simp add: comp_def)
qed

lemma sched_start_ok:
  assumes "sched_start numJobs seed spec rec base g orders = Inr s"
  shows "sched_inv s" and "all_ids s = map job_name [0..<nat numJobs]" and "s_tick s = 0"
    and "parseNodes spec = Inr (s_nodes s)" and "s_running s = []" and "s_rec s = the rec"
proof -
  obtain nodes r where nr: "parseNodes spec = Inr nodes" "rec = Some r"
    using assms by (auto simp: sched_start_def split: sum.splits option.splits)
  obtain ps g1 where ps: "gen_jobs seed [0..<nat numJobs] g = (Inr ps, g1)"
      "map (j_ID \<circ> ps_job) ps = map job_name [0..<nat numJobs]"
      "\<forall>p \<in> set ps. generated (ps_job p) \<and> 0 \<le> ps_arrivalTick p \<and> ps_arrivalTick p < 30"
    using gen_jobs_ok by blast
  have s: "s = \<lparr>s_nodes = nodes, s_queue = queue_New, s_running = [], s_rec = r, s_toSubmit = ps,
      s_completed = [], s_tick = 0, s_baseTime = base, s_rng = g1, s_orders = orders, s_ranges = 0\<rparr>"
    using assms by (simp add: sched_start_def nr ps(1))
  show "parseNodes spec = Inr (s_nodes s)" "s_tick s = 0" "s_running s = []" "s_rec s = the rec"
    by (simp_all add: s nr)
  show ids: "all_ids s = map job_name [0..<nat numJobs]" using ps(2) by (simp add: all_ids_def s)
  have "distinct (all_ids s)" unfolding ids by (simp add: distinct_map inj_on_def job_name_def pad3_inj)
  moreover have "filter (\<lambda>p. 0 \<le> ps_arrivalTick p) ps = ps" using ps(3) by (intro filter_True) simp
  then have "held_ids 0 s [] = mset (all_ids s)"
    using queue_bag_New by (simp add: held_ids_def future_ids_def all_ids_def s)
  ultimately show "sched_inv s"
    using queue_inv_New queue_bag_New ps(3) by (simp add: sched_inv_def core_inv_def s running_ok_def)
qed

end
