(* ===== verification/SchedulerPriority.thy ===== *)
theory SchedulerPriority
  imports SchedulerRun
begin

text \<open>
  What preemption achieves on a cluster like the default one. A node is roomy when its GPUs run
  out before its cores and its memory do, whatever generated jobs it runs (5 cores and 6144 MB
  per GPU). There a preemption always makes room, so at the end of a tick no job waits while one
  of lower priority runs.
\<close>

definition roomy :: "node \<Rightarrow> bool" where
  "roomy n \<longleftrightarrow> 5 * n_TotalGPUs n \<le> n_TotalCPU n \<and> 6144 * n_TotalGPUs n \<le> n_TotalMemMB n"

lemma roomy_simps [simp]: "roomy (node_Reserve n r) = roomy n" "roomy (node_Release n r) = roomy n"
  by (simp_all add: roomy_def)

section \<open>On roomy nodes only GPUs matter\<close>

lemma load_bound:
  assumes "\<forall>rj \<in># map_vals m. f (j_Resources (rj_job rj)) \<le> c * g (j_Resources (rj_job rj))"
  shows "load f name m \<le> c * load g name m"
proof -
  have "(\<Sum>j \<in># M. f (j_Resources j)) \<le> c * (\<Sum>j \<in># M. g (j_Resources j))"
    if "\<forall>j \<in># M. f (j_Resources j) \<le> c * g (j_Resources j)" for M :: "job multiset"
    using that by (induction M) (auto simp: distrib_left intro: add_mono)
  moreover have "\<forall>j \<in># on_node name m. f (j_Resources j) \<le> c * g (j_Resources j)"
    using assms by (auto simp: on_node_def simp del: map_vals_simps)
  ultimately show ?thesis by (simp add: load_def)
qed

lemma running_generated: "running_ok f m \<Longrightarrow> rj \<in># map_vals m \<Longrightarrow> generated (rj_job rj)"
  by (fastforce simp: running_ok_def)

lemma roomy_fits:
  assumes acc: "node_accounts m n" and run: "running_ok f m" and roomy: "roomy n" and gen: "generated j"
  shows "node_Fits n (j_Resources j) \<longleftrightarrow> n_usedGPUs n < n_TotalGPUs n"
proof -
  have c: "\<forall>rj \<in># map_vals m. rq_CPUCores (j_Resources (rj_job rj)) \<le> 5 * rq_GPUs (j_Resources (rj_job rj))"
    and m: "\<forall>rj \<in># map_vals m. rq_MemoryMB (j_Resources (rj_job rj)) \<le> 6144 * rq_GPUs (j_Resources (rj_job rj))"
    using running_generated [OF run] by (simp_all add: generated_def del: map_vals_simps)
  have "n_usedCPU n \<le> 5 * n_usedGPUs n" "n_usedMemMB n \<le> 6144 * n_usedGPUs n"
    using load_bound [OF c, of "n_Name n"] load_bound [OF m, of "n_Name n"] acc
    by (simp_all add: node_accounts_def)
  then show ?thesis
    using gen roomy acc node_Fits_ok [of n "j_Resources j"]
    by (auto simp: node_accounts_def generated_def roomy_def)
qed

definition saturated :: "node list \<Rightarrow> bool" where
  "saturated nodes \<longleftrightarrow> (\<forall>n \<in> set nodes. n_TotalGPUs n \<le> n_usedGPUs n)"

lemma roomy_find:
  assumes "nodes_account nodes m" and "running_ok f m" and "\<forall>n \<in> set nodes. roomy n" and "generated j"
  shows "pool_FindFit nodes (j_Resources j) = None \<longleftrightarrow> saturated nodes"
  unfolding pool_FindFit_None saturated_def
  using assms roomy_fits [of m _ f j] by (auto simp: nodes_account_def not_less)

lemma roomy_release: "\<forall>n \<in> set nodes. roomy n \<Longrightarrow> \<forall>n \<in> set (release_named name r nodes). roomy n"
  by (induction nodes) auto

lemma roomy_reserve: "\<forall>n \<in> set nodes. roomy n \<Longrightarrow> i < length nodes \<Longrightarrow>
   \<forall>n \<in> set (nodes[i := node_Reserve (nodes ! i) r]). roomy n"
  using set_update_subset_insert by fastforce

text \<open>Releasing a running job frees a GPU.\<close>

lemma release_frees:
  assumes acc: "nodes_account nodes m" and run: "running_ok f m" and m: "distinct_keys m" "map_of m k = Some rj"
  shows "\<not> saturated (release_named (j_Node (rj_job rj)) (j_Resources (rj_job rj)) nodes)"
proof -
  let ?v = "rj_job rj" and ?m = "map_del k m"
  have ok: "\<forall>rj \<in># map_vals m. req_ok (j_Resources (rj_job rj))" using running_ok_req [OF run] .
  obtain n where n: "n \<in> set nodes" "n_Name n = j_Node ?v"
    using acc map_vals_lookup [OF m(2)] by (auto simp: nodes_account_def)
  have an: "node_accounts m n" using acc n(1) by (simp add: nodes_account_def)
  have "node_accounts ?m (node_Release n (j_Resources ?v))"
    using node_accounts_Release [OF an m ok] n(2) by simp
  moreover have "rq_GPUs (j_Resources ?v) = 1"
    using running_generated [OF run map_vals_lookup [OF m(2)]] by (simp add: generated_def)
  ultimately have "n_usedGPUs (node_Release n (j_Resources ?v)) < n_TotalGPUs n"
    using an load_del [OF m, of rq_GPUs "n_Name n"] n(2)
    by (simp add: node_accounts_def node_ok_def)
  moreover have "node_Release n (j_Resources ?v) \<in> set (release_named (j_Node ?v) (j_Resources ?v) nodes)"
  proof -
    have "distinct (map n_Name nodes)" using acc by (simp add: nodes_account_def)
    from release_named_map [OF this] show ?thesis using n by force
  qed
  ultimately show ?thesis by (force simp: saturated_def)
qed

section \<open>The placement loop on a roomy cluster\<close>

definition roomy_cluster :: "scheduler \<Rightarrow> bool" where
  "roomy_cluster s \<longleftrightarrow> accounts s \<and> (\<forall>n \<in> set (s_nodes s). roomy n)"

text \<open>
  The jobs put aside (\<open>rq\<close>) are at least as urgent as those still queued, at most as urgent as
  every running job, and there are none unless every GPU is taken.
\<close>

definition ranked :: "scheduler \<Rightarrow> job list \<Rightarrow> bool" where
  "ranked s rq \<longleftrightarrow> (\<forall>j \<in> set rq. generated j \<and> (\<forall>k \<in># queue_bag (s_queue s). j_Priority k \<le> j_Priority j) \<and>
     (\<forall>e \<in> set (s_running s). j_Priority j \<le> j_Priority (rj_job (snd e)))) \<and>
     (rq \<noteq> [] \<longrightarrow> saturated (s_nodes s))"

lemma place_one_ranked:
  assumes I: "roomy_cluster u" "ranked u rq"
    and inv: "core_inv a f (u\<lparr>s_queue := q\<rparr>) (j # rq)"
    and bag: "queue_bag (s_queue u) = add_mset j (queue_bag q)"
    and top: "\<forall>k \<in># queue_bag q. j_Priority k \<le> j_Priority j"
    and po: "place_one j (u\<lparr>s_queue := q\<rparr>) rq = (u', rq')"
  shows "roomy_cluster u' \<and> ranked u' rq'"
proof -
  let ?u = "u\<lparr>s_queue := q\<rparr>"
  have acc: "nodes_account (s_nodes ?u) (s_running ?u)" and roomy: "\<forall>n \<in> set (s_nodes ?u). roomy n"
    using I(1) by (simp_all add: roomy_cluster_def accounts_def)
  have run: "running_ok f (s_running ?u)" and gen: "generated j" using inv by (simp_all add: core_inv_def)
  note find = roomy_find [OF acc run roomy gen]
  obtain r s1 where mr: "make_room j ?u = (r, s1)" by fastforce
  have acc': "accounts u'" using place_one_nodes [OF inv po acc] by (simp add: accounts_def)
  have started: "roomy_cluster u' \<and> ranked u' rq'" if i: "r = Some i" and rq: "rq = []"
      and r1: "\<forall>n \<in> set (s_nodes s1). roomy n" for i
  proof -
    have "pool_FindFit (s_nodes s1) (j_Resources j) = Some i" using make_room_nodes [OF inv mr acc] i by blast
    then have "i < length (s_nodes s1)" by (auto dest!: pool_FindFit_Some simp: best_fit_def)
    moreover have "u' = start_on i j s1" "rq' = []" using po i rq by (simp_all add: place_one_def mr)
    ultimately show ?thesis using acc' roomy_reserve [OF r1] by (simp add: roomy_cluster_def ranked_def)
  qed
  show ?thesis using mr
  proof (cases rule: make_room_cases)
    case (fits i)
    then have "\<not> saturated (s_nodes u)" using find by simp
    then have "rq = []" using I(2) by (auto simp: ranked_def)
    then show ?thesis using started fits roomy by simp
  next
    case no_victim
    then have "u' = wait_for_room j s1" "rq' = rq @ [j]" using po by (simp_all add: place_one_def mr)
    moreover have "saturated (s_nodes u)" using find no_victim(3) by simp
    ultimately show ?thesis using no_victim I acc' top gen roomy
      by (auto simp: roomy_cluster_def ranked_def bag)
  next
    case (victim k rj)
    have rq: "rq = []"
    proof (rule ccontr)
      assume "rq \<noteq> []"
      then obtain h where h: "h \<in> set rq" by (cases rq) auto
      then have "j_Priority j \<le> j_Priority h" "\<forall>e \<in> set (s_running u). j_Priority h \<le> j_Priority (rj_job (snd e))"
        using I(2) by (simp_all add: ranked_def bag)
      then have "j_Priority j \<le> j_Priority (rj_job rj)" using victim(3) by fastforce
      with victim(4) show False by simp
    qed
    note look = core_inv_lookup [OF inv victim(3)]
    have nodes1: "s_nodes s1 = release_named (j_Node (rj_job rj)) (j_Resources (rj_job rj)) (s_nodes ?u)"
      by (simp add: victim(1))
    have free: "\<not> saturated (s_nodes s1)"
      unfolding nodes1
      by (rule release_frees [OF acc run core_inv_keys [OF inv], of "j_ID (rj_job rj)"]) (use look in blast)
    have r1: "\<forall>n \<in> set (s_nodes s1). roomy n" unfolding nodes1 by (rule roomy_release [OF roomy])
    have "nodes_account (s_nodes s1) (s_running s1)" "running_ok f (s_running s1)"
      using make_room_nodes [OF inv mr acc] make_room_inv [OF inv mr] by (simp_all add: core_inv_def)
    from roomy_find [OF this r1 gen] free obtain i where "r = Some i" using victim(6) by auto
    then show ?thesis using started rq r1 by blast
  qed
qed

lemma roomy_complete:
  "\<forall>n \<in> set (s_nodes s). roomy n \<Longrightarrow> \<forall>n \<in> set (s_nodes (fold complete_one es s)). roomy n"
proof (induction es arbitrary: s)
  case (Cons e es)
  have "\<forall>n \<in> set (s_nodes (complete_one e s)). roomy n"
    using Cons.prems roomy_release by (simp add: complete_one_def Let_def split: prod.split)
  then show ?case using Cons.IH by simp
qed simp

text \<open>One tick of a roomy cluster: nobody waits below a lower priority, nobody waits for a free GPU.\<close>

definition fair :: "scheduler \<Rightarrow> bool" where
  "fair s \<longleftrightarrow> (\<forall>j \<in># queue_bag (s_queue s).
     (\<forall>e \<in> set (s_running s). j_Priority j \<le> j_Priority (rj_job (snd e))) \<and>
     pool_FindFit (s_nodes s) (j_Resources j) = None)"

lemma sched_tick_fair:
  assumes inv: "sched_inv s" and cl: "roomy_cluster s"
  shows "\<exists>s'. sched_tick s = Some s' \<and> sched_inv s' \<and> roomy_cluster s' \<and> fair s'"
proof -
  let ?t = "s_tick s" and ?s2 = "phase_complete (phase_submit s)"
  let ?I = "\<lambda>u rq. roomy_cluster u \<and> ranked u rq"
  have c: "core_inv (?t + 1) ?t (phase_submit s) []"
    using phase_submit_inv [of s ?t] inv by (simp add: sched_inv_def)
  have "\<exists>s3 rq. sched_tick s = Some ((requeue_all rq s3)\<lparr>s_tick := ?t + 1\<rparr>) \<and> ?I s3 rq \<and>
      s_toSubmit s3 = s_toSubmit s \<and> sched_inv ((requeue_all rq s3)\<lparr>s_tick := ?t + 1\<rparr>) \<and>
      queue_bag (s_queue (requeue_all rq s3)) = image_mset unindexed (mset rq)"
  proof (rule sched_tick_rule [OF inv refl])
    have "accounts ?s2" using phase_complete_nodes [OF c] cl by (simp add: accounts_def roomy_cluster_def)
    moreover have "\<forall>n \<in> set (s_nodes ?s2). roomy n"
      unfolding phase_complete_def range_running_def prod.case
      by (rule roomy_complete) (use cl in \<open>simp add: roomy_cluster_def\<close>)
    ultimately show "?I ?s2 []" by (simp add: roomy_cluster_def ranked_def)
  qed (use place_one_ranked in blast)
  then obtain s3 rq where t: "sched_tick s = Some ((requeue_all rq s3)\<lparr>s_tick := ?t + 1\<rparr>)"
    and I: "roomy_cluster s3" "ranked s3 rq" and inv': "sched_inv ((requeue_all rq s3)\<lparr>s_tick := ?t + 1\<rparr>)"
    and bag: "queue_bag (s_queue (requeue_all rq s3)) = image_mset unindexed (mset rq)" by blast
  let ?s' = "(requeue_all rq s3)\<lparr>s_tick := ?t + 1\<rparr>"
  have cl': "roomy_cluster ?s'" using I(1) by (simp add: roomy_cluster_def accounts_def)
  have "pool_FindFit (s_nodes s3) (j_Resources j) = None" if "j \<in> set rq" for j
  proof -
    have "saturated (s_nodes s3)" "generated j" using that I(2) by (auto simp: ranked_def)
    then show ?thesis
      using roomy_find [of "s_nodes s3" "s_running s3" "?t + 1" j] cl' inv'
      by (simp add: roomy_cluster_def accounts_def sched_inv_def core_inv_def)
  qed
  then have "fair ?s'" using I(2) by (simp add: fair_def bag ranked_def) 
  then show ?thesis using t inv' cl' by blast
qed

lemma sched_ticks_fair:
  "sched_inv s \<Longrightarrow> roomy_cluster s \<Longrightarrow> sched_ticks (Suc n) s = Some s' \<Longrightarrow> fair s'"
proof (induction n arbitrary: s)
  case 0
  then show ?case using sched_tick_fair [of s] by auto
next
  case (Suc n)
  obtain s1 where "sched_tick s = Some s1" "sched_inv s1" "roomy_cluster s1"
    using sched_tick_fair [OF Suc.prems(1,2)] by blast
  then show ?case using Suc.IH [of s1] Suc.prems(3) by simp
qed

end
