(* ===== verification/SchedulerProps.thy ===== *)
theory SchedulerProps
  imports SchedulerPriority
begin

text \<open>
  The properties of the simulation: runs return, keep every job, keep the books of every node,
  never miss a completion, and on a roomy cluster never leave a job waiting below a lower
  priority; the choice of a victim; the node specification; and two surprises.
\<close>

section \<open>Runs\<close>

lemma sched_main_run:
  assumes "sched_main numJobs seed maxTicks spec rec base g orders = Some (Inr s)"
  obtains s0 where "sched_start numJobs seed spec rec base g orders = Inr s0"
    and "sched_ticks (nat maxTicks) s0 = Some s"
  using assms by (auto simp: sched_main_def split: sum.splits)

lemma sched_main_inv:
  assumes "sched_main numJobs seed maxTicks spec rec base g orders = Some (Inr s)"
  shows "sched_inv s" and "s_tick s = int (nat maxTicks)" and "all_ids s = map job_name [0..<nat numJobs]"
    and "parseNodes spec = Inr nodes \<Longrightarrow> fresh_pool nodes \<Longrightarrow> accounts s"
proof -
  obtain s0 where s0: "sched_start numJobs seed spec rec base g orders = Inr s0" "sched_ticks (nat maxTicks) s0 = Some s"
    using sched_main_run [OF assms] .
  note st = sched_start_ok [OF s0(1)]
  have t: "sched_inv s \<and> s_tick s = s_tick s0 + int (nat maxTicks) \<and> s_toSubmit s = s_toSubmit s0 \<and>
      (accounts s0 \<longrightarrow> accounts s)"
    using sched_ticks_inv [OF st(1), of "nat maxTicks"] s0(2) by auto
  then show "sched_inv s" and "s_tick s = int (nat maxTicks)" using st(3) by simp_all
  show "all_ids s = map job_name [0..<nat numJobs]" using t st(2) by (simp add: all_ids_def)
  show "accounts s" if "parseNodes spec = Inr nodes" "fresh_pool nodes"
    using t st(4,5) that fresh_pool_accounts by (simp add: accounts_def)
qed

lemma core_invD:
  "core_inv a f s rq \<Longrightarrow> held_ids a s rq = mset (all_ids s)"
  "core_inv a f s rq \<Longrightarrow> running_ok f (s_running s)"
  by (simp_all add: core_inv_def)

section \<open>A run\<close>

definition demo_rec :: recorder where
  "demo_rec = \<lparr>r_file = [], r_db = None, r_calls = 0, r_stderr = 0, r_write_ok = \<lambda>_. True, r_exec_ok = \<lambda>_. True\<rparr>"

definition demo_rng :: rng where
  "demo_rng = \<lparr>rg_raw = \<lambda>k. int k, rg_pos = 0\<rparr>"

definition demo_main :: "int \<Rightarrow> int \<Rightarrow> (sched_fatal + scheduler) option" where
  "demo_main numJobs maxTicks =
     sched_main numJobs 42 maxTicks defaultNodeSpec (Some demo_rec) 0 demo_rng (\<lambda>_ _. 0)"

definition default_pool :: "node list" where
  "default_pool = [NewNode ''node-a'' 16 65536 2, NewNode ''node-b'' 16 65536 2, NewNode ''node-c'' 32 131072 4]"

lemma default_spec: "parseNodes defaultNodeSpec = Inr default_pool"
  by (simp add: parseNodes_def defaultNodeSpec_def parse_node_def atoi_def atoi_sign_def is_digit_def
      int64_range_def default_pool_def)

lemma default_fresh: "fresh_pool default_pool"
  by code_simp

lemma default_roomy: "\<forall>n \<in> set default_pool. roomy n"
  by code_simp

lemma demo_returns: "\<exists>s. demo_main 2 6 = Some (Inr s)"
proof -
  obtain ps g' where "gen_jobs 42 [0..<nat 2] demo_rng = (Inr ps, g')" using gen_jobs_ok by blast
  then obtain s where s: "sched_start 2 42 defaultNodeSpec (Some demo_rec) 0 demo_rng (\<lambda>_ _. 0) = Inr s"
    by (simp add: sched_start_def default_spec)
  from sched_ticks_inv [OF sched_start_ok(1) [OF s], of "nat 6"] show ?thesis
    using s by (auto simp: demo_main_def sched_main_def)
qed

section \<open>Properties\<close>

text \<open>
  C27: every run returns. Whatever the flags, the random numbers and the iteration orders, the
  placement loop of every tick ends, so \<open>main\<close> reaches its summary or a fatal error of its
  inputs; the workload generator never makes an invalid batch.
\<close>

theorem sched_main_returns:
  "\<exists>r. sched_main numJobs seed maxTicks spec rec base g orders = Some r \<and>
     (case r of Inr s \<Rightarrow> True | Inl (BadNodeSpec e) \<Rightarrow> parseNodes spec = Inl e
      | Inl RecorderFailed \<Rightarrow> rec = None | Inl (BadBatch e) \<Rightarrow> False)"
proof (cases "sched_start numJobs seed spec rec base g orders")
  case (Inl e)
  obtain ps g' where "gen_jobs seed [0..<nat numJobs] g = (Inr ps, g')" using gen_jobs_ok by blast
  with Inl show ?thesis
    by (auto simp: sched_main_def sched_start_def split: sum.splits option.splits sched_fatal.splits)
next
  case (Inr s)
  obtain s' where "sched_ticks (nat maxTicks) s = Some s'"
    using sched_ticks_inv [OF sched_start_ok(1) [OF Inr], of "nat maxTicks"] by blast
  with Inr show ?thesis by (simp add: sched_main_def)
qed

text \<open>
  C13: no job is lost or duplicated. When a run stops, the jobs not yet arrived, queued, running
  and completed are together the generated jobs, each exactly once, through any number of
  preemptions.
\<close>

theorem sched_conserves_jobs:
  assumes "sched_main numJobs seed maxTicks spec rec base g orders = Some (Inr s)"
  shows "future_ids (s_tick s) s + image_mset j_ID (queue_bag (s_queue s)) + mset (map fst (s_running s)) +
      mset (map j_ID (s_completed s)) = mset (map job_name [0..<nat numJobs]) \<and>
    distinct (map fst (s_running s) @ map j_ID (s_completed s))"
proof -
  note inv = sched_main_inv(1) [OF assms, unfolded sched_inv_def]
  have h: "held_ids (s_tick s) s [] = mset (all_ids s)" and d: "distinct (all_ids s)"
    using inv by (simp_all add: core_inv_def)
  have "mset (all_ids s) = mset (map fst (s_running s) @ map j_ID (s_completed s)) +
      (future_ids (s_tick s) s + image_mset j_ID (queue_bag (s_queue s)))"
    using h by (simp add: held_ids_def ac_simps)
  from distinct_mset_sub [OF d this] show ?thesis
    using h sched_main_inv(3) [OF assms] by (simp add: held_ids_def)
qed

theorem sched_conserves_jobs_witness:
  "\<exists>s. demo_main 2 6 = Some (Inr s) \<and>
    future_ids (s_tick s) s + image_mset j_ID (queue_bag (s_queue s)) + mset (map fst (s_running s)) +
      mset (map j_ID (s_completed s)) = mset [''job-000'', ''job-001'']"
proof -
  obtain s where s: "demo_main 2 6 = Some (Inr s)" using demo_returns by blast
  have names: "map job_name [0..<nat 2] = [''job-000'', ''job-001'']" by code_simp
  have "future_ids (s_tick s) s + image_mset j_ID (queue_bag (s_queue s)) + mset (map fst (s_running s)) +
      mset (map j_ID (s_completed s)) = mset (map job_name [0..<nat 2])"
    using sched_conserves_jobs [OF s [unfolded demo_main_def]] by blast
  with s show ?thesis unfolding names by blast
qed





text \<open>
  No completion is missed. Jobs complete at the tick that equals their \<open>finishTick\<close>; when a
  run stops, every job still running has a finish tick that has not passed, so the test for
  equality never skips one.
\<close>

theorem sched_never_overdue:
  assumes "sched_main numJobs seed maxTicks spec rec base g orders = Some (Inr s)"
  shows "\<forall>(k, rj) \<in> set (s_running s). max 0 maxTicks \<le> rj_finishTick rj \<and> k = j_ID (rj_job rj)"
proof -
  have "int (nat maxTicks) = max 0 maxTicks" by simp
  then have "running_ok (max 0 maxTicks) (s_running s)"
    using core_invD(2) [OF sched_main_inv(1) [OF assms, unfolded sched_inv_def]] sched_main_inv(2) [OF assms] by metis
  then show ?thesis by (fastforce simp: running_ok_def)
qed

theorem sched_never_overdue_witness:
  "\<exists>s. demo_main 2 6 = Some (Inr s) \<and> (\<forall>(k, rj) \<in> set (s_running s). 6 \<le> rj_finishTick rj)"
proof -
  obtain s where s: "demo_main 2 6 = Some (Inr s)" using demo_returns by blast
  from sched_never_overdue [OF s [unfolded demo_main_def]] have "\<forall>(k, rj) \<in> set (s_running s). 6 \<le> rj_finishTick rj" by auto
  with s show ?thesis by blast
qed

text \<open>
  C2: no priority inversion. On a pool whose nodes run out of GPUs before cores and memory (the
  default pool is one), after every tick a waiting job has no more priority than any running job,
  and no node has room for it.
\<close>

theorem sched_no_priority_inversion:
  assumes "sched_main numJobs seed maxTicks spec rec base g orders = Some (Inr s)" and "0 < maxTicks"
    and "parseNodes spec = Inr nodes" and "fresh_pool nodes" and "\<forall>n \<in> set nodes. roomy n"
  shows "\<forall>j \<in># queue_bag (s_queue s).
    (\<forall>(k, rj) \<in> set (s_running s). j_Priority j \<le> j_Priority (rj_job rj)) \<and>
    (\<forall>n \<in> set (s_nodes s). \<not> node_Fits n (j_Resources j))"
proof -
  obtain s0 where s0: "sched_start numJobs seed spec rec base g orders = Inr s0" "sched_ticks (nat maxTicks) s0 = Some s"
    using sched_main_run [OF assms(1)] .
  note st = sched_start_ok [OF s0(1)]
  have "roomy_cluster s0"
    using st(4,5) assms(3-5) fresh_pool_accounts by (simp add: roomy_cluster_def accounts_def)
  moreover obtain n where "nat maxTicks = Suc n" using assms(2) by (cases "nat maxTicks") auto
  ultimately have "fair s" using sched_ticks_fair [OF st(1)] s0(2) by simp
  then show ?thesis by (fastforce simp: fair_def pool_FindFit_None)
qed

theorem sched_no_priority_inversion_witness:
  "\<exists>s. demo_main 2 6 = Some (Inr s) \<and> (\<forall>j \<in># queue_bag (s_queue s). \<forall>n \<in> set (s_nodes s). \<not> node_Fits n (j_Resources j))"
proof -
  obtain s where s: "demo_main 2 6 = Some (Inr s)" using demo_returns by blast
  have "(0::int) < 6" by simp
  with s sched_no_priority_inversion [OF s [unfolded demo_main_def] _ default_spec default_fresh default_roomy]
  show ?thesis by blast
qed


section \<open>Node specifications\<close>

text \<open>How a pool is written as a specification.\<close>

definition node_spec :: "node \<Rightarrow> string" where
  "node_spec n = join_with (CHR '':'')
     [n_Name n, itoa (n_TotalCPU n), itoa (n_TotalMemMB n), itoa (n_TotalGPUs n)]"

definition nodes_spec :: "node list \<Rightarrow> string" where
  "nodes_spec nodes = join_with (CHR '','') (map node_spec nodes)"

definition writable :: "node \<Rightarrow> bool" where
  "writable n \<longleftrightarrow> CHR '','' \<notin> set (n_Name n) \<and> CHR '':'' \<notin> set (n_Name n) \<and>
     int64_range (n_TotalCPU n) \<and> int64_range (n_TotalMemMB n) \<and> int64_range (n_TotalGPUs n)"

definition emptied :: "node \<Rightarrow> node" where
  "emptied n = NewNode (n_Name n) (n_TotalCPU n) (n_TotalMemMB n) (n_TotalGPUs n)"

lemma itoa_separators: "CHR '':'' \<notin> set (itoa i)" "CHR '','' \<notin> set (itoa i)"
  using set_itoa [of "CHR '':''" i] set_itoa [of "CHR '',''" i] by (auto simp: is_digit_def)

lemma parse_node_spec: "writable n \<Longrightarrow> parse_node (node_spec n) = Inr (emptied n)"
  unfolding parse_node_def node_spec_def
  by (subst split_on_join) (simp_all add: writable_def itoa_separators atoi_itoa emptied_def)

lemma node_spec_separator: "writable n \<Longrightarrow> CHR '','' \<notin> set (node_spec n)"
  by (simp add: node_spec_def writable_def itoa_separators)

lemma parse_parts_specs:
  "\<forall>n \<in> set nodes. writable n \<Longrightarrow> parse_parts acc (map node_spec nodes) = Inr (acc @ map emptied nodes)"
  by (induction nodes arbitrary: acc) (simp_all add: parse_node_spec)

text \<open>
  C38: the node specification round-trips. Writing any non-empty pool whose names hold no
  separator and whose capacities fit 64 bits, negative ones included, and parsing it back gives
  the pool with nothing reserved.
\<close>

theorem parseNodes_roundtrip:
  assumes "nodes \<noteq> []" and "\<forall>n \<in> set nodes. writable n"
  shows "parseNodes (nodes_spec nodes) = Inr (map emptied nodes)"
proof -
  have "split_on (CHR '','') (nodes_spec nodes) = map node_spec nodes"
    unfolding nodes_spec_def by (rule split_on_join) (use assms node_spec_separator in auto)
  then show ?thesis using parse_parts_specs [OF assms(2), of "[]"] by (simp add: parseNodes_def)
qed

theorem parseNodes_roundtrip_witness:
  "parseNodes ''n:-1:16:0'' = Inr [NewNode ''n'' (- 1) 16 0]"
proof -
  have spec: "nodes_spec [NewNode ''n'' (- 1) 16 0] = ''n:-1:16:0''"
    by (simp add: nodes_spec_def node_spec_def NewNode_def itoa_def nat_digits.simps digit_char_def
        char_of_eq_iff take_bit_eq_mod)
  have "parseNodes (nodes_spec [NewNode ''n'' (- 1) 16 0]) = Inr (map emptied [NewNode ''n'' (- 1) 16 0])"
    by (rule parseNodes_roundtrip) (simp_all add: writable_def NewNode_def int64_range_def)
  then show ?thesis unfolding spec by (simp add: emptied_def NewNode_def)
qed

section \<open>Two surprises\<close>

definition demo_job :: "string \<Rightarrow> int \<Rightarrow> int \<Rightarrow> string \<Rightarrow> job" where
  "demo_job i p cpu node = (sample_job i p 0)
     \<lparr>j_Resources := \<lparr>rq_CPUCores = cpu, rq_MemoryMB = 2048, rq_GPUs = 1\<rparr>, j_Node := node\<rparr>"

definition demo_sched :: "node list \<Rightarrow> (string \<times> running_job) list \<Rightarrow> scheduler" where
  "demo_sched nodes running =
     \<lparr>s_nodes = nodes, s_queue = queue_New, s_running = running, s_rec = demo_rec, s_toSubmit = [],
      s_completed = [], s_tick = 3, s_baseTime = 0, s_rng = demo_rng, s_orders = \<lambda>_ _. 0, s_ranges = 0\<rparr>"

text \<open>
  A preemption need not make room. The comment on \<open>findPreemptionVictim\<close> promises a victim
  whose removal lets the candidate fit; the code does not check it. Here a candidate for 5 cores
  evicts a job of 2 cores from the only node, of 4 cores, and still finds no room.
\<close>

theorem preemption_in_vain:
  "(let low = demo_job ''low'' 1 2 ''n''; high = demo_job ''high'' 5 5 [];
        node = node_Reserve (NewNode ''n'' 4 65536 2) (j_Resources low);
        s = demo_sched [node] [(''low'', \<lparr>rj_job = low, rj_finishTick = 9\<rparr>)]
    in case make_room high s of (r, s') \<Rightarrow>
      r = None \<and> s_running s' = [] \<and> map j_ID (q_heap (s_queue s')) = [''low''])"
  by code_simp

text \<open>A pool with one name twice, and a job on the second node of it.\<close>

definition dup_node :: node where
  "dup_node = NewNode ''n'' 8 65536 2"

definition dup_sched :: scheduler where
  "dup_sched = (let j = demo_job ''a'' 3 8 ''n''
     in demo_sched [dup_node, node_Reserve dup_node (j_Resources j)] [(''a'', \<lparr>rj_job = j, rj_finishTick = 3\<rparr>)])"

lemma dup_parsed: "parseNodes ''n:8:65536:2,n:8:65536:2'' = Inr [dup_node, dup_node]"
  by (simp add: parseNodes_def parse_node_def atoi_def atoi_sign_def is_digit_def int64_range_def dup_node_def)

lemma dup_completed: "map n_usedCPU (s_nodes (phase_complete dup_sched)) = [- 8, 8]"
  by code_simp

lemma dup_fits: "node_Fits (s_nodes (phase_complete dup_sched) ! 0) \<lparr>rq_CPUCores = 16, rq_MemoryMB = 2048, rq_GPUs = 1\<rparr>"
  by code_simp

text \<open>
  Nodes of one name corrupt the books. \<open>parseNodes\<close> accepts a repeated name, and \<open>Release\<close>
  goes to the first node of the name: when the job on the second node completes, the first node
  has given out a negative amount, and a request of twice its capacity fits.
\<close>

theorem duplicate_names_corrupt:
  "parseNodes ''n:8:65536:2,n:8:65536:2'' = Inr [dup_node, dup_node] \<and>
   map n_usedCPU (s_nodes (phase_complete dup_sched)) = [- 8, 8] \<and>
   node_Fits (s_nodes (phase_complete dup_sched) ! 0) \<lparr>rq_CPUCores = 16, rq_MemoryMB = 2048, rq_GPUs = 1\<rparr>"
  using dup_parsed dup_completed dup_fits by blast

end
