(* ===== verification/Tracer.thy ===== *)
theory Tracer
  imports GoRuntime "HOL-Library.List_Lexorder" "HOL-Library.Char_ord"
begin

text \<open>
  \<^verbatim>\<open>cmd/tracer/main.go\<close>: the reader of event logs. A line of the log is turned into an event
  by the JSON decoder, which is a parameter; what the program prints is kept as a value
  (\<open>job_trace\<close>, \<open>wait_summary\<close>, the rows of devices) instead of a text. The order in which a
  map is visited and in which \<open>sort.Slice\<close> leaves equal elements are inputs.
\<close>

section \<open>Events\<close>

record trace_event =
  te_Timestamp :: time
  te_JobID :: string
  te_EventType :: string
  te_NodeName :: string
  te_Priority :: int
  te_Attempt :: int
  te_Version :: int
  te_Detail :: string

text \<open>
  The file as the scanner sees it: it may fail to open (\<^term>\<open>Inl\<close>), and it yields lines until the
  end or an error, such as a line above one megabyte. Malformed lines are skipped.
\<close>

fun decode_lines :: "(string \<Rightarrow> trace_event option) \<Rightarrow> string list \<Rightarrow> trace_event list" where
  "decode_lines decode [] = []"
| "decode_lines decode (line # rest) =
     (case decode line of None \<Rightarrow> decode_lines decode rest | Some e \<Rightarrow> e # decode_lines decode rest)"

definition loadEvents ::
  "(string \<Rightarrow> trace_event option) \<Rightarrow> string + string list \<times> string option \<Rightarrow> trace_event list \<times> string option" where
  "loadEvents decode file =
     (case file of Inl e \<Rightarrow> ([], Some e) | Inr (lines, err) \<Rightarrow> (decode_lines decode lines, err))"

section \<open>One job\<close>

datatype verdict = Waited time time duration nat | NeverStarted time | NoVerdict

datatype job_trace = NoEvents string | Timeline string "trace_event list" verdict

record trace_scan =
  tc_submitted :: time
  tc_started :: time
  tc_waitReasons :: nat

definition scan_event :: "trace_event \<Rightarrow> trace_scan \<Rightarrow> trace_scan" where
  "scan_event e c =
     (if te_EventType e = ''submitted'' then c\<lparr>tc_submitted := te_Timestamp e\<rparr>
      else if te_EventType e = ''started'' then c\<lparr>tc_started := te_Timestamp e\<rparr>
      else if te_EventType e = ''wait_reason'' then c\<lparr>tc_waitReasons := Suc (tc_waitReasons c)\<rparr>
      else c)"

definition traceJob :: "(nat \<Rightarrow> nat) \<Rightarrow> trace_event list \<Rightarrow> string \<Rightarrow> job_trace" where
  "traceJob order events jobID =
     (let timeline = filter (\<lambda>e. te_JobID e = jobID) events in
      if timeline = [] then NoEvents jobID
      else (let sorted_line = sort_slice order te_Timestamp timeline;
                c = fold scan_event sorted_line
                      \<lparr>tc_submitted = zero_time, tc_started = zero_time, tc_waitReasons = 0\<rparr>
            in Timeline jobID sorted_line
                 (if \<not> time_is_zero (tc_submitted c) \<and> \<not> time_is_zero (tc_started c)
                  then Waited (tc_submitted c) (tc_started c) (time_sub (tc_started c) (tc_submitted c)) (tc_waitReasons c)
                  else if \<not> time_is_zero (tc_submitted c) then NeverStarted (tc_submitted c)
                  else NoVerdict)))"

section \<open>All jobs\<close>

record job_times =
  jt_submitted :: time
  jt_started :: time

definition times_event :: "trace_event \<Rightarrow> (string \<times> job_times) list \<Rightarrow> (string \<times> job_times) list" where
  "times_event e jobs =
     (let jt = (case map_of jobs (te_JobID e) of
                  None \<Rightarrow> \<lparr>jt_submitted = zero_time, jt_started = zero_time\<rparr> | Some jt \<Rightarrow> jt);
          jt1 = (if te_EventType e = ''submitted'' then jt\<lparr>jt_submitted := te_Timestamp e\<rparr>
                 else if te_EventType e = ''started'' then jt\<lparr>jt_started := te_Timestamp e\<rparr> else jt)
      in map_put (te_JobID e) jt1 jobs)"

definition waits_of :: "(string \<times> job_times) list \<Rightarrow> duration list" where
  "waits_of jobs =
     map (\<lambda>(_, jt). time_sub (jt_started jt) (jt_submitted jt))
       (filter (\<lambda>(_, jt). \<not> time_is_zero (jt_submitted jt) \<and> \<not> time_is_zero (jt_started jt)) jobs)"

record wait_summary =
  ws_jobs :: nat
  ws_min :: duration
  ws_median :: duration
  ws_max :: duration
  ws_mean :: duration

definition summary :: "(nat \<Rightarrow> nat) \<Rightarrow> (nat \<Rightarrow> nat) \<Rightarrow> trace_event list \<Rightarrow> wait_summary option" where
  "summary map_stream sort_stream events =
     (let waits0 = waits_of (map_order map_stream (fold times_event events []))
      in if waits0 = [] then None
         else (let waits = sort_slice sort_stream (\<lambda>w. w) waits0;
                   total = fold (\<lambda>w t. go_add t w) waits 0;
                   n = length waits
               in Some \<lparr>ws_jobs = n, ws_min = waits ! 0, ws_median = waits ! (n div 2), ws_max = waits ! (n - 1),
                        ws_mean = wrap64 (total sdiv int n)\<rparr>))"

section \<open>Devices\<close>

record device_row =
  dr_id :: string
  dr_desired :: int
  dr_acked :: int
  dr_attempts :: int
  dr_failedAt :: int
  dr_timeouts :: nat
  dr_dupIgnored :: nat
  dr_staleAcks :: nat

definition new_row :: "string \<Rightarrow> device_row" where
  "new_row i = \<lparr>dr_id = i, dr_desired = 0, dr_acked = 0, dr_attempts = 0, dr_failedAt = 0,
     dr_timeouts = 0, dr_dupIgnored = 0, dr_staleAcks = 0\<rparr>"

definition row_state :: "device_row \<Rightarrow> string" where
  "row_state r =
     (if dr_desired r = 0 then ''idle''
      else if dr_acked r \<ge> dr_desired r then ''acked''
      else if dr_failedAt r = dr_desired r then ''failed''
      else ''pending'')"

definition row_event :: "trace_event \<Rightarrow> device_row \<Rightarrow> device_row" where
  "row_event e r =
     (if te_EventType e = ''config_set'' then r\<lparr>dr_desired := te_Version e, dr_attempts := 0\<rparr>
      else if te_EventType e = ''push'' then
        (if te_Version e = dr_desired r then r\<lparr>dr_attempts := te_Attempt e\<rparr> else r)
      else if te_EventType e = ''acked'' then
        (if te_Version e > dr_acked r then r\<lparr>dr_acked := te_Version e\<rparr> else r)
      else if te_EventType e = ''push_failed'' then r\<lparr>dr_failedAt := te_Version e\<rparr>
      else if te_EventType e = ''ack_timeout'' then r\<lparr>dr_timeouts := Suc (dr_timeouts r)\<rparr>
      else if te_EventType e = ''duplicate_ignored_by_device'' then r\<lparr>dr_dupIgnored := Suc (dr_dupIgnored r)\<rparr>
      else if te_EventType e = ''stale_ack_ignored'' then r\<lparr>dr_staleAcks := Suc (dr_staleAcks r)\<rparr>
      else r)"

text \<open>The body of the loop: \<open>rows\<close> is the map, \<open>order\<close> the keys in the order of insertion.\<close>

definition device_event ::
  "trace_event \<Rightarrow> (string \<times> device_row) list \<times> string list \<Rightarrow> (string \<times> device_row) list \<times> string list" where
  "device_event e acc =
     (case acc of (rows, order) \<Rightarrow>
        if \<not> has_prefix (te_JobID e) ''device:'' then (rows, order)
        else (let i = trim_prefix (te_JobID e) ''device:'' in
              case map_of rows i of
                None \<Rightarrow> (map_put i (row_event e (new_row i)) rows, order @ [i])
              | Some r \<Rightarrow> (map_put i (row_event e r) rows, order)))"

definition deviceStatus :: "trace_event list \<Rightarrow> device_row list" where
  "deviceStatus events =
     (case fold device_event (sort_key te_Timestamp events) ([], []) of (rows, order) \<Rightarrow>
        map (\<lambda>i. the (map_of rows i)) (sort order))"

section \<open>The command\<close>

datatype trace_output =
    LoadFailed string
  | DeviceTable "(device_row \<times> string) list"
  | Summary "wait_summary option"
  | Usage
  | JobTrace job_trace

definition tracer_main ::
  "(nat \<Rightarrow> nat) \<Rightarrow> (nat \<Rightarrow> nat) \<Rightarrow> (string \<Rightarrow> trace_event option) \<Rightarrow> string + string list \<times> string option \<Rightarrow>
   string \<Rightarrow> bool \<Rightarrow> bool \<Rightarrow> trace_output" where
  "tracer_main map_stream sort_stream decode file jobID showSummary showDevices =
     (case loadEvents decode file of
        (_, Some e) \<Rightarrow> LoadFailed e
      | (events, None) \<Rightarrow>
          (if showDevices then DeviceTable (map (\<lambda>r. (r, row_state r)) (deviceStatus events))
           else if showSummary then Summary (summary map_stream sort_stream events)
           else if jobID = [] then Usage
           else JobTrace (traceJob sort_stream events jobID)))"

end
