(* ===== verification/Devices.thy ===== *)
theory Devices
  imports GoRuntime Telemetry "HOL-Library.List_Lexorder" "HOL-Library.Char_ord"
begin

text \<open>
  \<^verbatim>\<open>internal/devices\<close>: the registry (\<^verbatim>\<open>devices.go\<close>), the simulated network and
  devices (\<^verbatim>\<open>sim.go\<close>) and the HTTP handler (\<^verbatim>\<open>http.go\<close>). Every method that holds the
  lock is a function on the registry; \<open>pushLoop\<close>, which takes the lock twice in each round, is
  the two critical sections \<open>loop_top\<close> and \<open>loop_result\<close>, with \<open>Send\<close> and \<open>sleep\<close> between
  them. \<open>SetConfig\<close> and \<open>Retry\<close> return whether they started a push loop. \<open>time.Now()\<close> is an
  argument, and what the context and the fault injection decide for one \<open>Send\<close> is its
  \<open>send_world\<close>.
\<close>

section \<open>Messages and state\<close>

text \<open>A \<open>map[string]string\<close> that may be nil.\<close>

type_synonym config = "(string \<times> string) list option"

definition copyMap :: "config \<Rightarrow> config" where
  "copyMap m = (case m of None \<Rightarrow> None | Some kvs \<Rightarrow> Some (fold (\<lambda>(k, v). map_put k v) kvs []))"

definition config_len :: "config \<Rightarrow> nat" where
  "config_len m = (case m of None \<Rightarrow> 0 | Some kvs \<Rightarrow> length kvs)"

record push =
  p_DeviceID :: string
  p_Version :: int
  p_Config :: config
  p_Attempt :: int

record ack =
  a_DeviceID :: string
  a_Version :: int
  a_Applied :: bool

datatype dev_state = StateIdle | StatePending | StateAcked | StateFailed

record status =
  sx_ID :: string
  sx_DesiredVersion :: int
  sx_AckedVersion :: int
  sx_State :: dev_state
  sx_Attempts :: int
  sx_LastError :: string
  sx_Config :: config

record options =
  o_AckTimeout :: duration
  o_MaxAttempts :: int
  o_Backoff :: duration

definition options_defaults :: "options \<Rightarrow> options" where
  "options_defaults o0 =
     (let o1 = (if o_AckTimeout o0 \<le> 0 then o0\<lparr>o_AckTimeout := 500 * millisecond\<rparr> else o0);
          o2 = (if o_MaxAttempts o1 \<le> 0 then o1\<lparr>o_MaxAttempts := 4\<rparr> else o1)
      in (if o_Backoff o2 \<le> 0 then o2\<lparr>o_Backoff := 100 * millisecond\<rparr> else o2))"

record entry = status +
  en_loopRunning :: bool
  en_pushedFor :: int

record registry =
  rg_opts :: options
  rg_rec :: "recorder option"
  rg_devs :: "(string \<times> entry) list"
  rg_cancelled :: bool

definition NewRegistry :: "recorder option \<Rightarrow> options \<Rightarrow> registry" where
  "NewRegistry rec opts =
     \<lparr>rg_opts = options_defaults opts, rg_rec = rec, rg_devs = [], rg_cancelled = False\<rparr>"

datatype registry_error = AlreadyRegistered string | ErrUnknownDevice

section \<open>Registry operations\<close>

definition registry_event ::
  "time \<Rightarrow> string \<Rightarrow> string \<Rightarrow> int \<Rightarrow> int \<Rightarrow> detail \<Rightarrow> registry \<Rightarrow> registry" where
  "registry_event now did typ version attempt detail r =
     r\<lparr>rg_rec := record_event
        (zero_event\<lparr>ev_Timestamp := now, ev_JobID := ''device:'' @ did, ev_EventType := typ,
           ev_Version := version, ev_Attempt := attempt, ev_Detail := detail\<rparr>) (rg_rec r)\<rparr>"

definition put_entry :: "string \<Rightarrow> entry \<Rightarrow> registry \<Rightarrow> registry" where
  "put_entry did e r = r\<lparr>rg_devs := map_put did e (rg_devs r)\<rparr>"

definition new_entry :: "string \<Rightarrow> entry" where
  "new_entry did = \<lparr>sx_ID = did, sx_DesiredVersion = 0, sx_AckedVersion = 0, sx_State = StateIdle,
     sx_Attempts = 0, sx_LastError = [], sx_Config = None, en_loopRunning = False, en_pushedFor = 0\<rparr>"

definition registry_Register :: "string \<Rightarrow> registry \<Rightarrow> registry_error option \<times> registry" where
  "registry_Register did r =
     (case map_of (rg_devs r) did of
        Some _ \<Rightarrow> (Some (AlreadyRegistered did), r)
      | None \<Rightarrow> (None, put_entry did (new_entry did) r))"

definition registry_SetConfig ::
  "time \<Rightarrow> string \<Rightarrow> config \<Rightarrow> registry \<Rightarrow> (registry_error + int) \<times> bool \<times> registry" where
  "registry_SetConfig now did cfg r =
     (case map_of (rg_devs r) did of
        None \<Rightarrow> (Inl ErrUnknownDevice, False, r)
      | Some e \<Rightarrow>
          (let e1 = e\<lparr>sx_DesiredVersion := sx_DesiredVersion e + 1, sx_Config := copyMap cfg,
                      sx_State := StatePending, sx_LastError := []\<rparr>;
               r1 = registry_event now did ''config_set'' (sx_DesiredVersion e1) 0
                      (Sprintf ''desired config v%d (%d keys)''
                         [FInt (sx_DesiredVersion e1), FInt (int (config_len cfg))]) r
           in (Inr (sx_DesiredVersion e1), \<not> en_loopRunning e1,
               put_entry did (e1\<lparr>en_loopRunning := True\<rparr>) r1)))"

definition registry_Retry :: "string \<Rightarrow> registry \<Rightarrow> registry_error option \<times> bool \<times> registry" where
  "registry_Retry did r =
     (case map_of (rg_devs r) did of
        None \<Rightarrow> (Some ErrUnknownDevice, False, r)
      | Some e \<Rightarrow>
          (if sx_State e \<noteq> StateFailed then (None, False, r)
           else (let e1 = e\<lparr>sx_State := StatePending, en_pushedFor := 0, sx_LastError := []\<rparr>
                 in (None, \<not> en_loopRunning e1, put_entry did (e1\<lparr>en_loopRunning := True\<rparr>) r))))"

text \<open>\<open>Close\<close> cancels the context; that it then waits for the loops changes nothing.\<close>

definition registry_Close :: "registry \<Rightarrow> registry" where
  "registry_Close r = r\<lparr>rg_cancelled := True\<rparr>"

definition registry_Status :: "string \<Rightarrow> registry \<Rightarrow> status option" where
  "registry_Status did r =
     map_option (\<lambda>e. (status.truncate e)\<lparr>sx_Config := copyMap (sx_Config e)\<rparr>) (map_of (rg_devs r) did)"

definition registry_List :: "registry \<Rightarrow> status list" where
  "registry_List r =
     sort_key sx_ID (map (\<lambda>(_, e). (status.truncate e)\<lparr>sx_Config := copyMap (sx_Config e)\<rparr>) (rg_devs r))"

text \<open>One poll of \<open>WaitSettled\<close>: it returns nil when no listed device is pending.\<close>

definition registry_settled :: "registry \<Rightarrow> bool" where
  "registry_settled r \<longleftrightarrow> \<not> list_ex (\<lambda>s. sx_State s = StatePending) (registry_List r)"

section \<open>The push loop\<close>

text \<open>
  Where a push loop is: about to take the lock (\<open>AtTop\<close>), in \<open>Send\<close> (\<open>Sending\<close>), back from it
  with the lock to take (\<open>Got\<close>), sleeping before the next attempt, or in \<open>finish\<close>. A loop that
  returned is gone.
\<close>

datatype loop_state =
    AtTop
  | Sending push
  | Got int int "string + ack"
  | Sleeping int
  | Finishing

definition loop_top :: "time \<Rightarrow> string \<Rightarrow> registry \<Rightarrow> loop_state option \<times> registry" where
  "loop_top now did r =
     (case map_of (rg_devs r) did of
        None \<Rightarrow> (None, r)
      | Some e \<Rightarrow>
          (if rg_cancelled r \<or> sx_AckedVersion e \<ge> sx_DesiredVersion e
           then (None, put_entry did (e\<lparr>en_loopRunning := False\<rparr>) r)
           else
             (let version = sx_DesiredVersion e; cfg = copyMap (sx_Config e);
                  e1 = (if en_pushedFor e \<noteq> version then e\<lparr>en_pushedFor := version, sx_Attempts := 0\<rparr> else e)
              in if sx_Attempts e1 \<ge> o_MaxAttempts (rg_opts r) then
                   (None, registry_event now did ''push_failed'' version (sx_Attempts e1)
                      (Sprintf ''no ack for v%d after %d attempts; giving up''
                         [FInt version, FInt (sx_Attempts e1)])
                      (put_entry did (e1\<lparr>sx_State := StateFailed, en_loopRunning := False\<rparr>) r))
                 else
                   (let attempt = sx_Attempts e1 + 1
                    in (Some (Sending \<lparr>p_DeviceID = sx_ID e1, p_Version = version, p_Config = cfg, p_Attempt = attempt\<rparr>),
                        registry_event now did ''push'' version attempt
                          (Sprintf ''push v%d attempt %d/%d''
                             [FInt version, FInt attempt, FInt (o_MaxAttempts (rg_opts r))])
                          (put_entry did (e1\<lparr>sx_Attempts := attempt\<rparr>) r))))))"

definition loop_result ::
  "time \<Rightarrow> string \<Rightarrow> int \<Rightarrow> int \<Rightarrow> string + ack \<Rightarrow> registry \<Rightarrow> loop_state \<times> registry" where
  "loop_result now did version attempt reply r =
     (case map_of (rg_devs r) did of
        None \<Rightarrow> (AtTop, r)
      | Some e \<Rightarrow>
          (case reply of
             Inl err \<Rightarrow>
               (Sleeping attempt,
                registry_event now did ''ack_timeout'' version attempt
                  (Sprintf ''no ack for v%d within %s'' [FInt version, FDur (o_AckTimeout (rg_opts r))])
                  (put_entry did (e\<lparr>sx_LastError := err\<rparr>) r))
           | Inr a \<Rightarrow>
               (if a_Version a \<noteq> sx_DesiredVersion e then
                  (AtTop, registry_event now did ''stale_ack_ignored'' (a_Version a) attempt
                    (Sprintf ''ack v%d != desired v%d'' [FInt (a_Version a), FInt (sx_DesiredVersion e)]) r)
                else
                  (let r1 = (if \<not> a_Applied a then
                               registry_event now did ''duplicate_ignored_by_device'' version attempt
                                 (Sprintf ''device already ran v%d; idempotent re-ack'' [FInt version]) r
                             else r)
                   in if a_Version a > sx_AckedVersion e then
                        (AtTop, registry_event now did ''acked'' (a_Version a) attempt
                          (Sprintf ''device acked v%d after %d attempt(s)'' [FInt (a_Version a), FInt attempt])
                          (put_entry did (e\<lparr>sx_AckedVersion := a_Version a, sx_State := StateAcked,
                                            sx_LastError := []\<rparr>) r1))
                      else (AtTop, r1)))))"

text \<open>The argument of \<open>sleep\<close>, and \<open>sleep\<close> itself: \<open>elapsed\<close> says which branch of the select ran.\<close>

definition backoff_delay :: "options \<Rightarrow> int \<Rightarrow> duration" where
  "backoff_delay opts attempt = go_shl (o_Backoff opts) (nat (attempt - 1))"

definition loop_sleep :: "bool \<Rightarrow> loop_state" where
  "loop_sleep elapsed = (if elapsed then AtTop else Finishing)"

definition loop_finish :: "string \<Rightarrow> registry \<Rightarrow> registry" where
  "loop_finish did r =
     (case map_of (rg_devs r) did of
        None \<Rightarrow> r
      | Some e \<Rightarrow> put_entry did (e\<lparr>en_loopRunning := False\<rparr>) r)"

end
