(* ===== verification/DevicesSim.thy ===== *)
theory DevicesSim
  imports Devices
begin

text \<open>
  \<^verbatim>\<open>internal/devices/sim.go\<close>: the simulated device and the lossy network. \<open>Send\<close> is one
  step: between its sections nothing else touches the addressed device, since a device has at
  most one push loop (a theorem about the registry). The locale \<open>transport\<close> is the contract of
  the source's \<open>Transport\<close> interface that the registry relies on; \<open>SimNetwork\<close> is shown to keep it.
\<close>

section \<open>Simulated devices\<close>

record sim_device =
  sd_ID :: string
  sd_version :: int
  sd_config :: config
  sd_applies :: int
  sd_received :: int

definition sim_Receive :: "push \<Rightarrow> sim_device \<Rightarrow> ack \<times> sim_device" where
  "sim_Receive p d0 =
     (let d = d0\<lparr>sd_received := sd_received d0 + 1\<rparr>
      in if p_Version p \<le> sd_version d
         then (\<lparr>a_DeviceID = sd_ID d, a_Version = sd_version d, a_Applied = False\<rparr>, d)
         else (let d1 = d\<lparr>sd_version := p_Version p, sd_config := copyMap (p_Config p)\<rparr>;
                   d2 = d1\<lparr>sd_applies := sd_applies d1 + 1\<rparr>
               in (\<lparr>a_DeviceID = sd_ID d2, a_Version = sd_version d2, a_Applied = True\<rparr>, d2)))"

section \<open>The network\<close>

text \<open>
  What one \<open>Send\<close> meets: whether its context ends before the latency has passed, the error the
  context then carries, and a number for the fault-injection functions that draw one.
\<close>

record send_world =
  w_late :: bool
  w_ctxErr :: string
  w_roll :: int

record network =
  nt_devices :: "(string \<times> sim_device) list"
  nt_sends :: "(string \<times> int) list"
  nt_DropPush :: "(send_world \<Rightarrow> string \<Rightarrow> int \<Rightarrow> int \<Rightarrow> bool) option"
  nt_DropAck :: "(send_world \<Rightarrow> string \<Rightarrow> int \<Rightarrow> int \<Rightarrow> bool) option"
  nt_Latency :: duration

definition NewSimNetwork :: network where
  "NewSimNetwork = \<lparr>nt_devices = [], nt_sends = [], nt_DropPush = None, nt_DropAck = None, nt_Latency = 0\<rparr>"

definition network_AddDevice :: "string \<Rightarrow> network \<Rightarrow> network" where
  "network_AddDevice did n =
     n\<lparr>nt_devices := map_put did
        \<lparr>sd_ID = did, sd_version = 0, sd_config = None, sd_applies = 0, sd_received = 0\<rparr> (nt_devices n)\<rparr>"

definition drops ::
  "(send_world \<Rightarrow> string \<Rightarrow> int \<Rightarrow> int \<Rightarrow> bool) option \<Rightarrow> send_world \<Rightarrow> push \<Rightarrow> int \<Rightarrow> bool" where
  "drops f w p nthSend = (case f of None \<Rightarrow> False | Some g \<Rightarrow> g w (p_DeviceID p) (p_Version p) nthSend)"

text \<open>The counter of one (device, version), and \<open>Send\<close>.\<close>

definition count_send :: "push \<Rightarrow> network \<Rightarrow> int \<times> network" where
  "count_send p n =
     (let key = p_DeviceID p @ ''@'' @ itoa (p_Version p);
          k = (case map_of (nt_sends n) key of None \<Rightarrow> 0 | Some c \<Rightarrow> c) + 1
      in (k, n\<lparr>nt_sends := map_put key k (nt_sends n)\<rparr>))"

definition sim_Send :: "send_world \<Rightarrow> push \<Rightarrow> network \<Rightarrow> (string + ack) \<times> network" where
  "sim_Send w p n0 =
     (case count_send p n0 of (k, n) \<Rightarrow>
        (case map_of (nt_devices n) (p_DeviceID p) of
           None \<Rightarrow> (Inl (''device '' @ quote (p_DeviceID p) @ '' unreachable''), n)
         | Some dev \<Rightarrow>
             (if nt_Latency n > 0 \<and> w_late w then (Inl (w_ctxErr w), n)
              else if drops (nt_DropPush n) w p k then (Inl (w_ctxErr w), n)
              else (case sim_Receive p dev of (a, dev1) \<Rightarrow>
                let n1 = n\<lparr>nt_devices := map_put (p_DeviceID p) dev1 (nt_devices n)\<rparr>
                in if drops (nt_DropAck n1) w p k then (Inl (w_ctxErr w), n1) else (Inr a, n1)))))"

section \<open>The contract of a transport\<close>

text \<open>
  \<open>ver n id\<close> and \<open>cfg n id\<close> are the version and the configuration device \<open>id\<close> runs. A push
  reaches no device but its own; the device either stays as it was or takes over the pushed
  version and configuration, when that version is newer; an acknowledgement carries the version
  the device then runs, which is not older than the pushed one.
\<close>

locale transport =
  fixes send :: "'w \<Rightarrow> push \<Rightarrow> 'n \<Rightarrow> (string + ack) \<times> 'n"
    and ver :: "'n \<Rightarrow> string \<Rightarrow> int"
    and cfg :: "'n \<Rightarrow> string \<Rightarrow> config"
  assumes send_other: "send w p n = (r, n') \<Longrightarrow> i \<noteq> p_DeviceID p \<Longrightarrow> ver n' i = ver n i \<and> cfg n' i = cfg n i"
    and send_own: "send w p n = (r, n') \<Longrightarrow>
      (ver n' (p_DeviceID p) = ver n (p_DeviceID p) \<and> cfg n' (p_DeviceID p) = cfg n (p_DeviceID p)) \<or>
      (ver n (p_DeviceID p) < p_Version p \<and> ver n' (p_DeviceID p) = p_Version p \<and>
       cfg n' (p_DeviceID p) = copyMap (p_Config p))"
    and send_ack: "send w p n = (Inr a, n') \<Longrightarrow>
      a_Version a = ver n' (p_DeviceID p) \<and> p_Version p \<le> a_Version a"
begin

lemma send_monotone: "send w p n = (r, n') \<Longrightarrow> ver n i \<le> ver n' i"
  using send_other [of w p n r n' i] send_own [of w p n r n'] by (cases "i = p_DeviceID p") auto

text \<open>Sending a version again never changes the device: redelivery is idempotent.\<close>

lemma resend_idempotent:
  "p_Version p \<le> ver n (p_DeviceID p) \<Longrightarrow> send w p n = (r, n') \<Longrightarrow> ver n' i = ver n i \<and> cfg n' i = cfg n i"
  using send_other [of w p n r n' i] send_own [of w p n r n'] by (cases "i = p_DeviceID p") auto

end

definition sim_version :: "network \<Rightarrow> string \<Rightarrow> int" where
  "sim_version n i = (case map_of (nt_devices n) i of None \<Rightarrow> 0 | Some d \<Rightarrow> sd_version d)"

definition sim_config :: "network \<Rightarrow> string \<Rightarrow> config" where
  "sim_config n i = (case map_of (nt_devices n) i of None \<Rightarrow> None | Some d \<Rightarrow> sd_config d)"

lemma sim_Receive_cases:
  "sim_Receive p d = (a, d') \<Longrightarrow> a_Version a = sd_version d' \<and> p_Version p \<le> a_Version a \<and>
     ((\<not> a_Applied a \<and> sd_version d' = sd_version d \<and> sd_config d' = sd_config d \<and> sd_applies d' = sd_applies d) \<or>
      (a_Applied a \<and> sd_version d < p_Version p \<and> sd_version d' = p_Version p \<and>
       sd_config d' = copyMap (p_Config p) \<and> sd_applies d' = sd_applies d + 1)) \<and>
     sd_received d' = sd_received d + 1 \<and> sd_ID d' = sd_ID d"
  by (auto simp: sim_Receive_def Let_def split: if_splits)

lemma sim_Send_cases:
  assumes "sim_Send w p n = (r, n')"
  obtains (lost) e where "r = Inl e" "nt_devices n' = nt_devices n"
  | (reached) d a d' where "map_of (nt_devices n) (p_DeviceID p) = Some d" "sim_Receive p d = (a, d')"
      "nt_devices n' = map_put (p_DeviceID p) d' (nt_devices n)" "(\<exists>e. r = Inl e) \<or> r = Inr a"
proof -
  obtain k n1 where c: "count_send p n = (k, n1)" by fastforce
  have n1: "nt_devices n1 = nt_devices n" using c by (auto simp: count_send_def Let_def)
  show ?thesis
  proof (cases "map_of (nt_devices n) (p_DeviceID p)")
    case None
    then show ?thesis using assms lost n1 by (auto simp: sim_Send_def c)
  next
    case (Some d)
    obtain a d' where rec: "sim_Receive p d = (a, d')" by fastforce
    have "(\<exists>e. r = Inl e) \<and> nt_devices n' = nt_devices n \<or>
        nt_devices n' = map_put (p_DeviceID p) d' (nt_devices n) \<and> ((\<exists>e. r = Inl e) \<or> r = Inr a)"
      using assms n1 Some by (auto simp: sim_Send_def c rec Let_def split: if_splits)
    then show ?thesis using lost reached [OF Some rec] by blast
  qed
qed

lemma sim_version_put: "nt_devices n' = map_put k d (nt_devices n) \<Longrightarrow>
   sim_version n' i = (if i = k then sd_version d else sim_version n i)"
  "nt_devices n' = map_put k d (nt_devices n) \<Longrightarrow>
   sim_config n' i = (if i = k then sd_config d else sim_config n i)"
  by (simp_all add: sim_version_def sim_config_def)

lemma sim_lost: "nt_devices n' = nt_devices n \<Longrightarrow> sim_version n' i = sim_version n i \<and> sim_config n' i = sim_config n i"
  by (simp add: sim_version_def sim_config_def)

interpretation sim: transport sim_Send sim_version sim_config
proof unfold_locales
  fix w p n r n' and i :: string and a
  show "sim_version n' i = sim_version n i \<and> sim_config n' i = sim_config n i"
    if "sim_Send w p n = (r, n')" "i \<noteq> p_DeviceID p"
    using that(1)
  proof (cases rule: sim_Send_cases)
    case (lost e)
    then show ?thesis using sim_lost [OF lost(2)] by simp
  next
    case (reached d b d')
    then show ?thesis using that(2) by (simp add: sim_version_put [OF reached(3)])
  qed
  show "(sim_version n' (p_DeviceID p) = sim_version n (p_DeviceID p) \<and>
        sim_config n' (p_DeviceID p) = sim_config n (p_DeviceID p)) \<or>
      (sim_version n (p_DeviceID p) < p_Version p \<and> sim_version n' (p_DeviceID p) = p_Version p \<and>
       sim_config n' (p_DeviceID p) = copyMap (p_Config p))"
    if "sim_Send w p n = (r, n')"
    using that
  proof (cases rule: sim_Send_cases)
    case (reached d b d')
    then have "sim_version n (p_DeviceID p) = sd_version d" "sim_config n (p_DeviceID p) = sd_config d"
      by (simp_all add: sim_version_def sim_config_def)
    then show ?thesis using sim_Receive_cases [OF reached(2)] by (auto simp: sim_version_put [OF reached(3)])
  next
    case (lost e)
    then show ?thesis using sim_lost [OF lost(2)] by simp
  qed
  show "a_Version a = sim_version n' (p_DeviceID p) \<and> p_Version p \<le> a_Version a"
    if "sim_Send w p n = (Inr a, n')"
    using that
  proof (cases rule: sim_Send_cases)
    case (reached d b d')
    then show ?thesis using sim_Receive_cases [OF reached(2)] by (auto simp: sim_version_put [OF reached(3)])
  qed simp
qed

end
