(* ===== verification/DevicesSystem.thy ===== *)
theory DevicesSystem
  imports DevicesSim
begin

text \<open>
  The registry with its concurrent callers and push loops, over any transport: the state is the
  registry, the network and the loops, and a step is one critical section, one \<open>Send\<close> or one
  end of a sleep. The invariant relates, device by device, what the registry believes, what the
  loop has in flight and what the device runs. It is proved for every transport that keeps the
  contract.
\<close>

section \<open>States and steps\<close>

record 'n dev_sys =
  dy_reg :: registry
  dy_net :: 'n
  dy_loops :: "(string \<times> loop_state) list"

definition init_devs :: "recorder option \<Rightarrow> options \<Rightarrow> 'n \<Rightarrow> 'n dev_sys" where
  "init_devs rec opts net = \<lparr>dy_reg = NewRegistry rec opts, dy_net = net, dy_loops = []\<rparr>"

definition start_loop :: "bool \<Rightarrow> string \<Rightarrow> (string \<times> loop_state) list \<Rightarrow> (string \<times> loop_state) list" where
  "start_loop started did ls = (if started then ls @ [(did, AtTop)] else ls)"

definition next_loop :: "string \<Rightarrow> loop_state option \<Rightarrow> (string \<times> loop_state) list" where
  "next_loop did nx = (case nx of None \<Rightarrow> [] | Some l \<Rightarrow> [(did, l)])"

text \<open>\<open>Client\<close> steps are calls of the registry, \<open>Loop\<close> steps are those of push loops.\<close>

datatype dev_label = Client | Loop

inductive dev_step ::
  "('w \<Rightarrow> push \<Rightarrow> 'n \<Rightarrow> (string + ack) \<times> 'n) \<Rightarrow> 'n dev_sys \<Rightarrow> dev_label \<Rightarrow> 'n dev_sys \<Rightarrow> bool"
  for send where
  register: "registry_Register did (dy_reg s) = (err, r) \<Longrightarrow> dev_step send s Client (s\<lparr>dy_reg := r\<rparr>)"
| set_config: "registry_SetConfig now did cfg (dy_reg s) = (res, started, r) \<Longrightarrow>
     dev_step send s Client (s\<lparr>dy_reg := r, dy_loops := start_loop started did (dy_loops s)\<rparr>)"
| retry: "registry_Retry did (dy_reg s) = (err, started, r) \<Longrightarrow>
     dev_step send s Client (s\<lparr>dy_reg := r, dy_loops := start_loop started did (dy_loops s)\<rparr>)"
| close: "dev_step send s Client (s\<lparr>dy_reg := registry_Close (dy_reg s)\<rparr>)"
| top: "dy_loops s = xs @ (did, AtTop) # ys \<Longrightarrow> loop_top now did (dy_reg s) = (nx, r) \<Longrightarrow>
     dev_step send s Loop (s\<lparr>dy_reg := r, dy_loops := xs @ next_loop did nx @ ys\<rparr>)"
| send: "dy_loops s = xs @ (did, Sending p) # ys \<Longrightarrow> send w p (dy_net s) = (reply, net) \<Longrightarrow>
     dev_step send s Loop (s\<lparr>dy_net := net, dy_loops := xs @ (did, Got (p_Version p) (p_Attempt p) reply) # ys\<rparr>)"
| result: "dy_loops s = xs @ (did, Got version attempt reply) # ys \<Longrightarrow>
     loop_result now did version attempt reply (dy_reg s) = (l, r) \<Longrightarrow>
     dev_step send s Loop (s\<lparr>dy_reg := r, dy_loops := xs @ (did, l) # ys\<rparr>)"
| sleep: "dy_loops s = xs @ (did, Sleeping attempt) # ys \<Longrightarrow> (elapsed \<or> rg_cancelled (dy_reg s)) \<Longrightarrow>
     dev_step send s Loop (s\<lparr>dy_loops := xs @ (did, loop_sleep elapsed) # ys\<rparr>)"
| finish: "dy_loops s = xs @ (did, Finishing) # ys \<Longrightarrow>
     dev_step send s Loop (s\<lparr>dy_reg := loop_finish did (dy_reg s), dy_loops := xs @ ys\<rparr>)"

inductive dev_reachable ::
  "('w \<Rightarrow> push \<Rightarrow> 'n \<Rightarrow> (string + ack) \<times> 'n) \<Rightarrow> 'n dev_sys \<Rightarrow> 'n dev_sys \<Rightarrow> bool" for send s0 where
  start: "dev_reachable send s0 s0"
| step: "dev_reachable send s0 s \<Longrightarrow> dev_step send s l s' \<Longrightarrow> dev_reachable send s0 s'"

section \<open>One device\<close>

definition loops_of :: "string \<Rightarrow> (string \<times> loop_state) list \<Rightarrow> loop_state list" where
  "loops_of i ls = map snd (filter (\<lambda>l. fst l = i) ls)"

lemma loops_of_simps [simp]:
  "loops_of i [] = []" "loops_of i (xs @ ys) = loops_of i xs @ loops_of i ys"
  "loops_of i ((j, l) # ls) = (if i = j then l # loops_of i ls else loops_of i ls)"
  "loops_of i (start_loop b j ls) = loops_of i ls @ (if b \<and> i = j then [AtTop] else [])"
  "loops_of i (next_loop j nx) = (if i = j then (case nx of None \<Rightarrow> [] | Some l \<Rightarrow> [l]) else [])"
  by (auto simp: loops_of_def start_loop_def next_loop_def split: option.splits)

text \<open>
  What a loop may hold for a device: \<open>m\<close> is the attempt limit, \<open>c\<close> says the registry is closed,
  \<open>v\<close> is the version the device runs.
\<close>

fun loop_ok :: "int \<Rightarrow> bool \<Rightarrow> entry \<Rightarrow> int \<Rightarrow> loop_state \<Rightarrow> bool" where
  "loop_ok m c e v AtTop = True"
| "loop_ok m c e v (Sending p) = (p_DeviceID p = sx_ID e \<and> 1 \<le> p_Version p \<and> p_Version p \<le> sx_DesiredVersion e \<and>
     (p_Version p = sx_DesiredVersion e \<longrightarrow> p_Config p = sx_Config e \<and> en_pushedFor e = p_Version p \<and>
        sx_Attempts e = p_Attempt p) \<and> 1 \<le> p_Attempt p \<and> p_Attempt p \<le> m)"
| "loop_ok m c e v (Got version attempt reply) = (1 \<le> attempt \<and> attempt \<le> m \<and>
     (case reply of Inl _ \<Rightarrow> True | Inr a \<Rightarrow> a_Version a \<le> v))"
| "loop_ok m c e v (Sleeping attempt) = (1 \<le> attempt \<and> attempt \<le> m)"
| "loop_ok m c e v Finishing = c"

definition state_ok :: "int \<Rightarrow> bool \<Rightarrow> entry \<Rightarrow> bool" where
  "state_ok m c e \<longleftrightarrow> (case sx_State e of
       StateIdle \<Rightarrow> sx_DesiredVersion e = 0
     | StatePending \<Rightarrow> sx_AckedVersion e < sx_DesiredVersion e \<and> (en_loopRunning e \<or> c)
     | StateAcked \<Rightarrow> sx_AckedVersion e = sx_DesiredVersion e \<and> 0 < sx_DesiredVersion e
     | StateFailed \<Rightarrow> sx_AckedVersion e < sx_DesiredVersion e \<and> \<not> en_loopRunning e \<and>
         en_pushedFor e = sx_DesiredVersion e \<and> sx_Attempts e = m)"

definition entry_inv ::
  "int \<Rightarrow> bool \<Rightarrow> string \<Rightarrow> entry \<Rightarrow> loop_state list \<Rightarrow> int \<Rightarrow> config \<Rightarrow> bool" where
  "entry_inv m c did e ls v k \<longleftrightarrow> sx_ID e = did \<and> 0 \<le> sx_AckedVersion e \<and> sx_AckedVersion e \<le> v \<and>
     v \<le> sx_DesiredVersion e \<and> (v = sx_DesiredVersion e \<and> 0 < v \<longrightarrow> k = sx_Config e) \<and>
     copyMap (sx_Config e) = sx_Config e \<and> length ls = (if en_loopRunning e then 1 else 0) \<and>
     0 \<le> sx_Attempts e \<and> sx_Attempts e \<le> m \<and> en_pushedFor e \<le> sx_DesiredVersion e \<and>
     state_ok m c e \<and> (\<forall>l \<in> set ls. loop_ok m c e v l)"

definition device_inv ::
  "int \<Rightarrow> bool \<Rightarrow> string \<Rightarrow> entry option \<Rightarrow> loop_state list \<Rightarrow> int \<Rightarrow> config \<Rightarrow> bool" where
  "device_inv m c did eo ls v k =
     (case eo of None \<Rightarrow> ls = [] \<and> v = 0 | Some e \<Rightarrow> entry_inv m c did e ls v k)"

lemma distinct_keys_fold_put: "distinct_keys acc \<Longrightarrow> distinct_keys (fold (\<lambda>(k, v). map_put k v) kvs acc)"
  by (induction kvs arbitrary: acc) (auto simp: distinct_update)

lemma fold_put_fresh: "distinct_keys (acc @ kvs) \<Longrightarrow> fold (\<lambda>(k, v). map_put k v) kvs acc = acc @ kvs"
proof (induction kvs arbitrary: acc)
  case (Cons p kvs)
  then have "map_of acc (fst p) = None" by (auto simp: map_of_eq_None_iff)
  then show ?case using Cons.IH [of "acc @ [p]"] Cons.prems by (simp add: map_put_fresh split_beta)
qed simp

lemma copyMap_idem [simp]: "copyMap (copyMap m) = copyMap m"
proof (cases m)
  case (Some kvs)
  then show ?thesis
    using fold_put_fresh [of "[]" "fold (\<lambda>(k, v). map_put k v) kvs []"] distinct_keys_fold_put [of "[]" kvs]
    by (simp add: copyMap_def)
qed (simp add: copyMap_def)

lemma copyMap_None [simp]: "copyMap None = None"
  by (simp add: copyMap_def)

section \<open>The operations on one device\<close>

lemma registry_event_simps [simp]:
  "rg_devs (registry_event now did typ ver att d r) = rg_devs r"
  "rg_opts (registry_event now did typ ver att d r) = rg_opts r"
  "rg_cancelled (registry_event now did typ ver att d r) = rg_cancelled r"
  by (simp_all add: registry_event_def)

lemma put_entry_simps [simp]:
  "rg_devs (put_entry did e r) = map_put did e (rg_devs r)"
  "rg_opts (put_entry did e r) = rg_opts r" "rg_cancelled (put_entry did e r) = rg_cancelled r"
  by (simp_all add: put_entry_def)

text \<open>What an operation on device \<open>did\<close> leaves alone.\<close>

definition only_touches :: "string \<Rightarrow> registry \<Rightarrow> registry \<Rightarrow> bool" where
  "only_touches did r r' \<longleftrightarrow> rg_opts r' = rg_opts r \<and> rg_cancelled r' = rg_cancelled r \<and>
     (\<forall>i. i \<noteq> did \<longrightarrow> map_of (rg_devs r') i = map_of (rg_devs r) i)"

lemma only_touches_refl [simp]: "only_touches did r r"
  by (simp add: only_touches_def)

lemma Register_touches: "registry_Register did r = (err, r') \<Longrightarrow> only_touches did r r'"
  by (auto simp: registry_Register_def only_touches_def split: option.splits)

lemma SetConfig_touches: "registry_SetConfig now did cfg r = (res, st, r') \<Longrightarrow> only_touches did r r'"
  by (auto simp: registry_SetConfig_def only_touches_def Let_def split: option.splits)

lemma Retry_touches: "registry_Retry did r = (err, st, r') \<Longrightarrow> only_touches did r r'"
  by (auto simp: registry_Retry_def only_touches_def Let_def split: option.splits if_splits)

lemma top_touches: "loop_top now did r = (nx, r') \<Longrightarrow> only_touches did r r'"
  by (auto simp: loop_top_def only_touches_def Let_def split: option.splits if_splits)

lemma result_touches: "loop_result now did ver att reply r = (l, r') \<Longrightarrow> only_touches did r r'"
  by (auto simp: loop_result_def only_touches_def Let_def split: option.splits if_splits sum.splits)

lemma finish_touches: "only_touches did r (loop_finish did r)"
  by (auto simp: loop_finish_def only_touches_def split: option.splits)

lemma Register_device:
  "registry_Register did r = (err, r') \<Longrightarrow> device_inv m c did (map_of (rg_devs r) did) ls v k \<Longrightarrow> 1 \<le> m \<Longrightarrow>
   device_inv m c did (map_of (rg_devs r') did) ls v k"
  by (auto simp: registry_Register_def device_inv_def entry_inv_def state_ok_def new_entry_def split: option.splits)

lemma loop_ok_new_desired:
  "loop_ok m c e v l \<Longrightarrow> sx_DesiredVersion e' = sx_DesiredVersion e + 1 \<Longrightarrow> sx_ID e' = sx_ID e \<Longrightarrow> loop_ok m c e' v l"
  by (cases l) auto

lemma SetConfig_device:
  assumes op: "registry_SetConfig now did cfg r = (res, st, r')"
    and inv: "device_inv m c did (map_of (rg_devs r) did) ls v k"
  shows "device_inv m c did (map_of (rg_devs r') did) (ls @ (if st then [AtTop] else [])) v k"
proof (cases "map_of (rg_devs r) did")
  case None
  then show ?thesis using op inv by (simp add: registry_SetConfig_def)
next
  case (Some e)
  let ?e = "e\<lparr>sx_DesiredVersion := sx_DesiredVersion e + 1, sx_Config := copyMap cfg,
      sx_State := StatePending, sx_LastError := [], en_loopRunning := True\<rparr>"
  have r': "map_of (rg_devs r') did = Some ?e" and st: "st \<longleftrightarrow> \<not> en_loopRunning e"
    using op Some by (auto simp: registry_SetConfig_def Let_def)
  have e: "entry_inv m c did e ls v k" using inv Some by (simp add: device_inv_def)
  then have "\<forall>l \<in> set ls. loop_ok m c ?e v l"
    by (auto simp: entry_inv_def intro: loop_ok_new_desired [of m c e])
  with e show ?thesis
    by (auto simp: r' st device_inv_def entry_inv_def state_ok_def)
qed

lemma Retry_device:
  assumes op: "registry_Retry did r = (err, st, r')"
    and inv: "device_inv m c did (map_of (rg_devs r) did) ls v k"
  shows "device_inv m c did (map_of (rg_devs r') did) (ls @ (if st then [AtTop] else [])) v k"
proof (cases "map_of (rg_devs r) did")
  case None
  then show ?thesis using op inv by (simp add: registry_Retry_def)
next
  case (Some e)
  then show ?thesis using op inv
    by (auto simp: registry_Retry_def Let_def device_inv_def entry_inv_def state_ok_def split: if_splits)
qed

lemma top_device:
  assumes op: "loop_top now did r = (nx, r')" and m: "m = o_MaxAttempts (rg_opts r)" "c = rg_cancelled r" "1 \<le> m"
    and inv: "device_inv m c did (map_of (rg_devs r) did) [AtTop] v k"
  shows "device_inv m c did (map_of (rg_devs r') did) (case nx of None \<Rightarrow> [] | Some l \<Rightarrow> [l]) v k"
proof (cases "map_of (rg_devs r) did")
  case None
  then show ?thesis using inv by (simp add: device_inv_def)
next
  case (Some e)
  then have e: "entry_inv m c did e [AtTop] v k" using inv by (simp add: device_inv_def)
  then have run: "en_loopRunning e" and st: "state_ok m c e" and id: "sx_ID e = did"
    by (auto simp: entry_inv_def split: if_splits)
  show ?thesis
  proof (cases "rg_cancelled r \<or> sx_AckedVersion e \<ge> sx_DesiredVersion e")
    case True
    then have "nx = None" "map_of (rg_devs r') did = Some (e\<lparr>en_loopRunning := False\<rparr>)"
      using op Some by (auto simp: loop_top_def)
    then show ?thesis using e m(2) st True
      by (auto simp: device_inv_def entry_inv_def state_ok_def split: dev_state.splits)
  next
    case False
    then have pend: "sx_State e = StatePending" using st run e
      by (auto simp: state_ok_def entry_inv_def split: dev_state.splits)
    define e1 where "e1 = (if en_pushedFor e \<noteq> sx_DesiredVersion e
      then e\<lparr>en_pushedFor := sx_DesiredVersion e, sx_Attempts := 0\<rparr> else e)"
    have e1: "entry_inv m c did e1 [AtTop] v k" "en_pushedFor e1 = sx_DesiredVersion e1"
      "sx_AckedVersion e1 < sx_DesiredVersion e1" "sx_State e1 = StatePending" "en_loopRunning e1"
      "sx_DesiredVersion e1 = sx_DesiredVersion e" "sx_Config e1 = sx_Config e"
      using e pend False m(3) run by (auto simp: e1_def entry_inv_def state_ok_def)
    show ?thesis
    proof (cases "sx_Attempts e1 \<ge> m")
      case full: True
      then have "nx = None" "map_of (rg_devs r') did = Some (e1\<lparr>sx_State := StateFailed, en_loopRunning := False\<rparr>)"
        using op Some False m(1) by (auto simp: loop_top_def Let_def e1_def split: if_splits)
      then show ?thesis using e1 full
        by (auto simp: device_inv_def entry_inv_def state_ok_def)
    next
      case room: False
      then have "map_of (rg_devs r') did = Some (e1\<lparr>sx_Attempts := sx_Attempts e1 + 1\<rparr>)"
        "nx = Some (Sending \<lparr>p_DeviceID = sx_ID e1, p_Version = sx_DesiredVersion e1,
           p_Config = copyMap (sx_Config e1), p_Attempt = sx_Attempts e1 + 1\<rparr>)"
        using op Some False m(1) by (auto simp: loop_top_def Let_def e1_def split: if_splits)
      then show ?thesis using e1 room
        by (auto simp: device_inv_def entry_inv_def state_ok_def)
    qed
  qed
qed

lemma acked_entry:
  assumes e: "entry_inv m c did e [Got ver att reply] v k" and run: "en_loopRunning e"
    and r: "v = sx_DesiredVersion e" "av = sx_DesiredVersion e" "0 < sx_DesiredVersion e"
  shows "entry_inv m c did (e\<lparr>sx_AckedVersion := av, sx_State := StateAcked, sx_LastError := []\<rparr>) [AtTop] v k"
  using e run r unfolding entry_inv_def by (simp add: state_ok_def)

lemma result_device:
  assumes op: "loop_result now did ver att reply r = (l, r')"
    and inv: "device_inv m c did (map_of (rg_devs r) did) [Got ver att reply] v k"
  shows "device_inv m c did (map_of (rg_devs r') did) [l] v k"
proof (cases "map_of (rg_devs r) did")
  case None
  then show ?thesis using inv by (simp add: device_inv_def)
next
  case (Some e)
  then have e: "entry_inv m c did e [Got ver att reply] v k" using inv by (simp add: device_inv_def)
  then have ok: "loop_ok m c e v (Got ver att reply)" and run: "en_loopRunning e"
    by (auto simp: entry_inv_def split: if_splits)
  show ?thesis
  proof (cases reply)
    case (Inl err)
    then have "l = Sleeping att" "map_of (rg_devs r') did = Some (e\<lparr>sx_LastError := err\<rparr>)"
      using op Some by (auto simp: loop_result_def)
    then show ?thesis using e ok
      by (auto simp: device_inv_def entry_inv_def state_ok_def split: dev_state.splits)
  next
    case (Inr a)
    then have av: "a_Version a \<le> v" using ok by simp
    show ?thesis
    proof (cases "a_Version a = sx_DesiredVersion e \<and> sx_AckedVersion e < a_Version a")
      case True
      then have "l = AtTop" "map_of (rg_devs r') did =
          Some (e\<lparr>sx_AckedVersion := a_Version a, sx_State := StateAcked, sx_LastError := []\<rparr>)"
        using op Some Inr by (auto simp: loop_result_def Let_def)
      moreover have "v = sx_DesiredVersion e" "a_Version a = sx_DesiredVersion e" "0 < sx_DesiredVersion e"
        using e av True by (simp_all add: entry_inv_def)
      ultimately show ?thesis using acked_entry [OF e run, of "a_Version a"]
        by (simp only: device_inv_def option.case)
    next
      case False
      then have "l = AtTop" "map_of (rg_devs r') did = Some e"
        using op Some Inr by (auto simp: loop_result_def Let_def split: if_splits)
      then show ?thesis using e by (auto simp: device_inv_def entry_inv_def)
    qed
  qed
qed

lemma finish_device:
  assumes "device_inv m c did (map_of (rg_devs r) did) [Finishing] v k"
  shows "device_inv m c did (map_of (rg_devs (loop_finish did r)) did) [] v k"
proof (cases "map_of (rg_devs r) did")
  case None
  then show ?thesis using assms by (simp add: device_inv_def)
next
  case (Some e)
  then have "entry_inv m c did e [Finishing] v k" using assms by (simp add: device_inv_def)
  then have "entry_inv m c did (e\<lparr>en_loopRunning := False\<rparr>) [] v k"
    by (simp add: entry_inv_def state_ok_def split: dev_state.splits)
  then show ?thesis using Some by (simp add: loop_finish_def device_inv_def)
qed

end
