(* ===== verification/TracerInv.thy ===== *)
theory TracerInv
  imports Tracer DevicesSystem
begin

text \<open>
  What the tracer reconstructs of a device from the registry's events: the rows it computes are
  one fold per device, and the invariant that ties such a row to the registry's entry along
  every step. Nothing is assumed of the transport.
\<close>

section \<open>Rows as folds\<close>

definition events_of :: "string \<Rightarrow> trace_event list \<Rightarrow> trace_event list" where
  "events_of i es = filter (\<lambda>e. te_JobID e = ''device:'' @ i) es"

definition row_for :: "string \<Rightarrow> trace_event list \<Rightarrow> device_row" where
  "row_for i es = fold row_event (events_of i es) (new_row i)"

lemma events_of_append [simp]: "events_of i (es @ es') = events_of i es @ events_of i es'"
  by (simp add: events_of_def)

lemma row_for_append: "row_for i (es @ es') = fold row_event (events_of i es') (row_for i es)"
  by (simp add: row_for_def)

definition rows_ok :: "trace_event list \<Rightarrow> (string \<times> device_row) list \<times> string list \<Rightarrow> bool" where
  "rows_ok es acc \<longleftrightarrow> distinct (snd acc) \<and>
     (\<forall>i. (i \<in> set (snd acc) \<longleftrightarrow> events_of i es \<noteq> []) \<and>
        map_of (fst acc) i = (if i \<in> set (snd acc) then Some (row_for i es) else None))"

lemma rows_okD:
  assumes "rows_ok es acc"
  shows "distinct (snd acc)" and "i \<in> set (snd acc) \<longleftrightarrow> events_of i es \<noteq> []"
    and "map_of (fst acc) i = (if events_of i es \<noteq> [] then Some (row_for i es) else None)"
  using assms by (auto simp: rows_ok_def)

lemma rows_ok_event:
  assumes ok: "rows_ok es (rows, order)"
  shows "rows_ok (es @ [e]) (device_event e (rows, order))"
proof (cases "has_prefix (te_JobID e) ''device:''")
  case False
  then have "events_of i [e] = []" for i by (auto simp: events_of_def has_prefix_iff)
  then show ?thesis using ok False by (simp add: rows_ok_def device_event_def row_for_append)
next
  case True
  then obtain k where k: "te_JobID e = ''device:'' @ k" by (auto simp: has_prefix_iff)
  have own: "events_of i [e] = (if i = k then [e] else [])" for i by (simp add: events_of_def k)
  have "trim_prefix (te_JobID e) ''device:'' = k" unfolding k by (rule trim_prefix_append)
  then have step: "device_event e (rows, order) =
      (case map_of rows k of None \<Rightarrow> (map_put k (row_event e (new_row k)) rows, order @ [k])
       | Some r \<Rightarrow> (map_put k (row_event e r) rows, order))"
    using True by (simp add: device_event_def)
  note d = rows_okD [OF ok, unfolded fst_conv snd_conv]
  have row: "row_for i (es @ [e]) = (if i = k then row_event e (row_for k es) else row_for i es)" for i
    by (simp add: row_for_append own)
  show ?thesis
  proof (cases "events_of k es = []")
    case empty: True
    then have "row_for k es = new_row k" by (simp add: row_for_def)
    then show ?thesis using d empty unfolding step by (auto simp: rows_ok_def row own)
  next
    case False
    then show ?thesis using d unfolding step by (auto simp: rows_ok_def row own)
  qed
qed

lemma rows_ok_fold: "rows_ok es (fold device_event es ([], []))"
proof (induction es rule: rev_induct)
  case Nil
  then show ?case by (simp add: rows_ok_def events_of_def)
next
  case (snoc e es)
  then show ?case using rows_ok_event [of es _ _ e] by (cases "fold device_event es ([], [])") simp
qed

text \<open>The rows of a log whose events are in the order of time.\<close>

lemma deviceStatus_rows:
  assumes "sorted (map te_Timestamp es)"
  shows "\<exists>ids. deviceStatus es = map (\<lambda>i. row_for i es) ids \<and> sorted ids \<and> distinct ids \<and>
    (\<forall>i. i \<in> set ids \<longleftrightarrow> events_of i es \<noteq> [])"
proof -
  obtain rows order where f: "fold device_event es ([], []) = (rows, order)" by fastforce
  note d = rows_okD [OF rows_ok_fold [of es], unfolded f fst_conv snd_conv]
  have "deviceStatus es = map (\<lambda>i. the (map_of rows i)) (sort order)"
    using assms by (simp add: deviceStatus_def sort_key_id_if_sorted f)
  also have "\<dots> = map (\<lambda>i. row_for i es) (sort order)"
    using d(2,3) by (intro map_cong) auto
  finally show ?thesis using d(1,2) by (intro exI [of _ "sort order"]) simp
qed

section \<open>The registry's log\<close>

text \<open>What the JSON round trip leaves of an event; \<open>print\<close> is what \<open>fmt\<close> made of the detail.\<close>

definition trace_of :: "(detail \<Rightarrow> string) \<Rightarrow> event \<Rightarrow> trace_event" where
  "trace_of print e = \<lparr>te_Timestamp = ev_Timestamp e, te_JobID = ev_JobID e, te_EventType = ev_EventType e,
     te_NodeName = ev_NodeName e, te_Priority = ev_Priority e, te_Attempt = ev_Attempt e,
     te_Version = ev_Version e, te_Detail = print (ev_Detail e)\<rparr>"

definition recording :: "registry \<Rightarrow> bool" where
  "recording r \<longleftrightarrow> (case rg_rec r of None \<Rightarrow> False | Some rec \<Rightarrow> sink_ok rec)"

definition log_of :: "(detail \<Rightarrow> string) \<Rightarrow> registry \<Rightarrow> trace_event list" where
  "log_of print r = (case rg_rec r of None \<Rightarrow> [] | Some rec \<Rightarrow> map (trace_of print) (r_file rec))"

lemma recording_event [simp]: "recording (registry_event now did ty ver att d r) = recording r"
  by (simp add: recording_def registry_event_def record_event_def split: option.splits)

lemma put_entry_rec [simp]:
  "recording (put_entry did e r) = recording r" "log_of print (put_entry did e r) = log_of print r"
  by (simp_all add: recording_def log_of_def put_entry_def)

lemma log_event:
  assumes "recording r"
  shows "\<exists>e. log_of print (registry_event now did ty ver att d r) = log_of print r @ [e] \<and>
    te_JobID e = ''device:'' @ did \<and> te_EventType e = ty \<and> te_Version e = ver \<and> te_Attempt e = att"
  using assms
  by (auto simp: recording_def log_of_def registry_event_def record_event_def recorder_Record_file_ok
      trace_of_def zero_event_def split: option.splits)

section \<open>The invariant of a device\<close>

definition row_ok :: "entry \<Rightarrow> device_row \<Rightarrow> bool" where
  "row_ok e w \<longleftrightarrow> dr_desired w = sx_DesiredVersion e \<and> dr_acked w = sx_AckedVersion e \<and>
     0 \<le> sx_AckedVersion e \<and> sx_AckedVersion e \<le> sx_DesiredVersion e \<and>
     0 \<le> dr_failedAt w \<and> dr_failedAt w \<le> sx_DesiredVersion e \<and>
     (case sx_State e of
        StateIdle \<Rightarrow> sx_DesiredVersion e = 0
      | StatePending \<Rightarrow> sx_AckedVersion e < sx_DesiredVersion e
      | StateAcked \<Rightarrow> 0 < sx_DesiredVersion e \<and> sx_AckedVersion e = sx_DesiredVersion e
      | StateFailed \<Rightarrow> sx_AckedVersion e < sx_DesiredVersion e \<and> dr_failedAt w = sx_DesiredVersion e)"

definition device_logged :: "string \<Rightarrow> entry option \<Rightarrow> trace_event list \<Rightarrow> bool" where
  "device_logged i eo es \<longleftrightarrow>
     (case eo of None \<Rightarrow> events_of i es = []
      | Some e \<Rightarrow> row_ok e (row_for i es) \<and> (events_of i es = [] \<longleftrightarrow> sx_DesiredVersion e = 0))"

lemma device_logged_snoc:
  assumes "te_JobID x = ''device:'' @ i" and "row_ok e (row_event x (row_for i es))" and "0 < sx_DesiredVersion e"
  shows "device_logged i (Some e) (es @ [x])"
  using assms by (simp add: device_logged_def row_for_append events_of_def)

lemma device_logged_other:
  "te_JobID x = ''device:'' @ k \<Longrightarrow> i \<noteq> k \<Longrightarrow> device_logged i eo (es @ [x]) = device_logged i eo es"
  by (simp add: device_logged_def row_for_append events_of_def split: option.splits)

definition all_logged :: "(detail \<Rightarrow> string) \<Rightarrow> registry \<Rightarrow> bool" where
  "all_logged print r \<longleftrightarrow> recording r \<and> (\<forall>i. device_logged i (map_of (rg_devs r) i) (log_of print r))"

lemma all_logged_entry:
  assumes "all_logged print r"
  shows "map_of (rg_devs r) i = None \<Longrightarrow> events_of i (log_of print r) = []"
    and "map_of (rg_devs r) i = Some e \<Longrightarrow> row_ok e (row_for i (log_of print r))"
    and "map_of (rg_devs r) i = Some e \<Longrightarrow> events_of i (log_of print r) = [] \<longleftrightarrow> sx_DesiredVersion e = 0"
proof -
  have "device_logged i (map_of (rg_devs r) i) (log_of print r)" using assms by (simp add: all_logged_def)
  then show "map_of (rg_devs r) i = None \<Longrightarrow> events_of i (log_of print r) = []"
    "map_of (rg_devs r) i = Some e \<Longrightarrow> row_ok e (row_for i (log_of print r))"
    "map_of (rg_devs r) i = Some e \<Longrightarrow> events_of i (log_of print r) = [] \<longleftrightarrow> sx_DesiredVersion e = 0"
    by (auto simp: device_logged_def)
qed

text \<open>An operation that changes one entry and writes no event, or one.\<close>

lemma all_logged_put:
  assumes "all_logged print r" and "map_of (rg_devs r) did = Some e"
    and "sx_DesiredVersion e' = sx_DesiredVersion e" and "row_ok e (row_for did (log_of print r)) \<Longrightarrow> row_ok e' (row_for did (log_of print r))"
  shows "all_logged print (put_entry did e' r)"
  using assms by (auto simp: all_logged_def device_logged_def split: option.splits)

lemma all_logged_event:
  assumes l: "all_logged print r" and "map_of (rg_devs r) did = Some e" and "0 < sx_DesiredVersion e'"
    and row: "\<And>x. row_ok e (row_for did (log_of print r)) \<Longrightarrow> te_EventType x = ty \<Longrightarrow> te_Version x = ver \<Longrightarrow>
      te_Attempt x = att \<Longrightarrow> row_ok e' (row_event x (row_for did (log_of print r)))"
    and r': "rg_devs r' = map_put did e' (rg_devs r)" "rg_rec r' = rg_rec (registry_event now did ty ver att d r)"
  shows "all_logged print r'"
proof -
  have rec: "recording r" using l by (simp add: all_logged_def)
  from log_event [OF rec] obtain x where x: "log_of print (registry_event now did ty ver att d r) = log_of print r @ [x]"
    "te_JobID x = ''device:'' @ did" "te_EventType x = ty" "te_Version x = ver" "te_Attempt x = att" by blast
  have log: "log_of print r' = log_of print r @ [x]" using x(1) r'(2) by (simp add: log_of_def)
  have "row_ok e (row_for did (log_of print r))"
    using all_logged_entry(2) [OF l assms(2)] .
  from device_logged_snoc [OF x(2) row [OF this x(3-5)] assms(3)]
  have "device_logged did (Some e') (log_of print r')" by (simp add: log)
  moreover have "device_logged i (map_of (rg_devs r) i) (log_of print r')" if "i \<noteq> did" for i
    using l device_logged_other [OF x(2) that] by (simp add: all_logged_def log)
  moreover have "recording r'" using rec r'(2) recording_event by (simp add: recording_def registry_event_def record_event_def split: option.splits)
  ultimately show ?thesis by (simp add: all_logged_def r'(1))
qed

section \<open>Every step keeps it\<close>

definition grows :: "registry \<Rightarrow> registry \<Rightarrow> bool" where
  "grows r r' \<longleftrightarrow> (\<forall>i e. map_of (rg_devs r) i = Some e \<longrightarrow>
     (\<exists>e'. map_of (rg_devs r') i = Some e' \<and> sx_DesiredVersion e \<le> sx_DesiredVersion e'))"

lemma row_state_fields [simp]:
  "row_ok (e\<lparr>en_loopRunning := b\<rparr>) w = row_ok e w" "row_ok (e\<lparr>sx_LastError := err\<rparr>) w = row_ok e w"
  "row_ok (e\<lparr>sx_Attempts := n\<rparr>) w = row_ok e w" "row_ok (e\<lparr>en_pushedFor := n\<rparr>) w = row_ok e w"
  "row_ok (e\<lparr>en_pushedFor := n, sx_Attempts := n'\<rparr>) w = row_ok e w"
  by (simp_all add: row_ok_def split: dev_state.split)

lemma row_counters [simp]:
  "row_ok e (w\<lparr>dr_attempts := n\<rparr>) = row_ok e w" "row_ok e (w\<lparr>dr_timeouts := k\<rparr>) = row_ok e w"
  "row_ok e (w\<lparr>dr_dupIgnored := k\<rparr>) = row_ok e w" "row_ok e (w\<lparr>dr_staleAcks := k\<rparr>) = row_ok e w"
  by (simp_all add: row_ok_def split: dev_state.split)

lemma Register_logged:
  assumes op: "registry_Register did r = (err, r')" and l: "all_logged print r"
  shows "all_logged print r' \<and> grows r r'"
proof (cases "map_of (rg_devs r) did")
  case None
  then have r': "r' = put_entry did (new_entry did) r" using op by (simp add: registry_Register_def)
  have "events_of did (log_of print r) = []" using all_logged_entry(1) [OF l None] .
  then have "device_logged did (Some (new_entry did)) (log_of print r)"
    by (simp add: device_logged_def row_for_def new_entry_def new_row_def row_ok_def)
  then show ?thesis using l None by (auto simp: r' all_logged_def grows_def)
qed (use op l in \<open>auto simp: registry_Register_def grows_def\<close>)

lemma SetConfig_logged:
  assumes op: "registry_SetConfig now did cfg r = (res, st, r')" and l: "all_logged print r"
  shows "all_logged print r' \<and> grows r r' \<and> (st \<longrightarrow> (\<exists>e. map_of (rg_devs r') did = Some e \<and> 0 < sx_DesiredVersion e))"
proof (cases "map_of (rg_devs r) did")
  case None
  then show ?thesis using op l by (simp add: registry_SetConfig_def grows_def)
next
  case (Some e)
  let ?e = "e\<lparr>sx_DesiredVersion := sx_DesiredVersion e + 1, sx_Config := copyMap cfg,
    sx_State := StatePending, sx_LastError := [], en_loopRunning := True\<rparr>"
  have d: "rg_devs r' = map_put did ?e (rg_devs r)" using op Some by (auto simp: registry_SetConfig_def Let_def)
  have pos: "0 \<le> sx_DesiredVersion e"
    using all_logged_entry(2) [OF l Some] by (simp add: row_ok_def)
  have "\<exists>d. rg_rec r' = rg_rec (registry_event now did ''config_set'' (sx_DesiredVersion e + 1) 0 d r)"
    using op Some by (auto simp: registry_SetConfig_def Let_def registry_event_def put_entry_def)
  then obtain dt where rec: "rg_rec r' = rg_rec (registry_event now did ''config_set'' (sx_DesiredVersion e + 1) 0 dt r)"
    by blast
  have "all_logged print r'"
    by (rule all_logged_event [OF l Some _ _ d rec]) (use pos in \<open>auto simp: row_ok_def row_event_def\<close>)
  then show ?thesis using Some pos by (auto simp: d grows_def)
qed

lemma Retry_logged:
  assumes op: "registry_Retry did r = (err, st, r')" and l: "all_logged print r"
  shows "all_logged print r' \<and> grows r r' \<and> (st \<longrightarrow> (\<exists>e. map_of (rg_devs r') did = Some e \<and> 0 < sx_DesiredVersion e))"
proof (cases "map_of (rg_devs r) did")
  case None
  then show ?thesis using op l by (simp add: registry_Retry_def grows_def)
next
  case (Some e)
  show ?thesis
  proof (cases "sx_State e = StateFailed")
    case False
    then show ?thesis using op l Some by (simp add: registry_Retry_def grows_def)
  next
    case True
    let ?e = "e\<lparr>sx_State := StatePending, en_pushedFor := 0, sx_LastError := [], en_loopRunning := True\<rparr>"
    have r': "r' = put_entry did ?e r" using op Some True by (simp add: registry_Retry_def Let_def)
    have row: "row_ok e (row_for did (log_of print r))"
      using all_logged_entry(2) [OF l Some] .
    then have "0 < sx_DesiredVersion e" using True by (simp add: row_ok_def)
    moreover have "all_logged print r'" unfolding r'
      by (rule all_logged_put [OF l Some]) (use True in \<open>simp_all add: row_ok_def\<close>)
    ultimately show ?thesis using Some by (simp add: r' grows_def)
  qed
qed

lemma top_logged:
  assumes op: "loop_top now did r = (nx, r')" and l: "all_logged print r"
    and known: "map_of (rg_devs r) did = Some e" "0 < sx_DesiredVersion e"
  shows "all_logged print r' \<and> grows r r'"
proof (cases "rg_cancelled r \<or> sx_AckedVersion e \<ge> sx_DesiredVersion e")
  case True
  then have r': "r' = put_entry did (e\<lparr>en_loopRunning := False\<rparr>) r" using op known by (auto simp: loop_top_def)
  show ?thesis unfolding r' using all_logged_put [OF l known(1)] known(1) by (simp add: grows_def)
next
  case False
  define e1 where "e1 = (if en_pushedFor e \<noteq> sx_DesiredVersion e
    then e\<lparr>en_pushedFor := sx_DesiredVersion e, sx_Attempts := 0\<rparr> else e)"
  have e1: "row_ok e1 w = row_ok e w" "sx_DesiredVersion e1 = sx_DesiredVersion e" "sx_AckedVersion e1 = sx_AckedVersion e" for w
    by (simp_all add: e1_def)
  show ?thesis
  proof (cases "sx_Attempts e1 \<ge> o_MaxAttempts (rg_opts r)")
    case full: True
    have d: "rg_devs r' = map_put did (e1\<lparr>sx_State := StateFailed, en_loopRunning := False\<rparr>) (rg_devs r)"
      and r: "\<exists>d. rg_rec r' = rg_rec (registry_event now did ''push_failed'' (sx_DesiredVersion e) (sx_Attempts e1) d r)"
      using op known False full by (auto simp: loop_top_def Let_def e1_def registry_event_def put_entry_def split: if_splits)
    then obtain d where rec: "rg_rec r' = rg_rec (registry_event now did ''push_failed'' (sx_DesiredVersion e) (sx_Attempts e1) d r)" by blast
    have "all_logged print r'"
      by (rule all_logged_event [OF l known(1) _ _ d rec]) (use known False e1 in \<open>auto simp: row_ok_def row_event_def\<close>)
    then show ?thesis using known(1) e1(2) by (auto simp: d grows_def)
  next
    case room: False
    have d: "rg_devs r' = map_put did (e1\<lparr>sx_Attempts := sx_Attempts e1 + 1\<rparr>) (rg_devs r)"
      and r: "\<exists>d. rg_rec r' = rg_rec (registry_event now did ''push'' (sx_DesiredVersion e) (sx_Attempts e1 + 1) d r)"
      using op known False room by (auto simp: loop_top_def Let_def e1_def registry_event_def put_entry_def split: if_splits)
    then obtain d where rec: "rg_rec r' = rg_rec (registry_event now did ''push'' (sx_DesiredVersion e) (sx_Attempts e1 + 1) d r)" by blast
    have "all_logged print r'"
      by (rule all_logged_event [OF l known(1) _ _ d rec]) (use known e1 in \<open>auto simp: row_event_def\<close>)
    then show ?thesis using known(1) e1(2) by (auto simp: d grows_def)
  qed
qed

lemma result_logged:
  assumes op: "loop_result now did ver att reply r = (l1, r')" and l: "all_logged print r"
    and known: "map_of (rg_devs r) did = Some e" "0 < sx_DesiredVersion e"
  shows "all_logged print r' \<and> grows r r'"
proof -
  have same: "map_put did e (rg_devs r) = rg_devs r" using known(1) by (rule update_triv)
  have silent: "all_logged print (registry_event now did ty v att d q)"
    if "all_logged print q" "rg_devs q = rg_devs r" "ty \<in> {''stale_ack_ignored'', ''duplicate_ignored_by_device''}" for ty v d q
  proof (rule all_logged_event [OF that(1) _ known(2), of did e ty v att])
    show "map_of (rg_devs q) did = Some e" using that(2) known(1) by simp
    show "rg_devs (registry_event now did ty v att d q) = map_put did e (rg_devs q)" by (simp add: that(2) same)
    show "row_ok e (row_event x (row_for did (log_of print q)))"
      if "row_ok e (row_for did (log_of print q))" "te_EventType x = ty" for x
      using that \<open>ty \<in> _\<close> by (auto simp: row_event_def)
  qed simp
  show ?thesis
  proof (cases reply)
    case (Inl err)
    then have r': "r' = registry_event now did ''ack_timeout'' ver att
        (Sprintf ''no ack for v%d within %s'' [FInt ver, FDur (o_AckTimeout (rg_opts r))])
        (put_entry did (e\<lparr>sx_LastError := err\<rparr>) r)"
      using op known(1) by (simp add: loop_result_def)
    have "all_logged print r'"
      by (rule all_logged_event [OF l known(1), where e' = "e\<lparr>sx_LastError := err\<rparr>" and ver = ver])
        (use known(2) in \<open>auto simp: r' row_event_def registry_event_def put_entry_def\<close>)
    then show ?thesis using known(1) by (simp add: r' grows_def)
  next
    case (Inr a)
    define r1 where "r1 = (if a_Applied a then r else registry_event now did ''duplicate_ignored_by_device'' ver att
      (Sprintf ''device already ran v%d; idempotent re-ack'' [FInt ver]) r)"
    have l1: "all_logged print r1" "rg_devs r1 = rg_devs r" using silent [OF l] l by (auto simp: r1_def)
    show ?thesis
    proof (cases "a_Version a \<noteq> sx_DesiredVersion e")
      case True
      then have "\<exists>d. r' = registry_event now did ''stale_ack_ignored'' (a_Version a) att d r"
        using op known(1) Inr by (auto simp: loop_result_def)
      then show ?thesis using silent [OF l] by (auto simp: grows_def)
    next
      case eq: False
      show ?thesis
      proof (cases "a_Version a > sx_AckedVersion e")
        case False
        then have "r' = r1" using op known(1) Inr eq by (auto simp: loop_result_def Let_def r1_def split: if_splits)
        then show ?thesis using l1 by (simp add: grows_def)
      next
        case True
        let ?e = "e\<lparr>sx_AckedVersion := a_Version a, sx_State := StateAcked, sx_LastError := []\<rparr>"
        obtain d where r': "r' = registry_event now did ''acked'' (a_Version a) att d (put_entry did ?e r1)"
          using op known(1) Inr eq True by (auto simp: loop_result_def Let_def r1_def split: if_splits)
        have "all_logged print r'"
          by (rule all_logged_event [OF l1(1), where e = e and e' = ?e and ver = "a_Version a"])
            (use known l1(2) eq True in \<open>auto simp: r' row_event_def row_ok_def registry_event_def put_entry_def\<close>)
        then show ?thesis using known(1) l1(2) by (simp add: r' grows_def)
      qed
    qed
  qed
qed

lemma finish_logged: "all_logged print r \<Longrightarrow> all_logged print (loop_finish did r) \<and> grows r (loop_finish did r)"
  by (auto simp: loop_finish_def grows_def intro: all_logged_put split: option.splits)

definition dev_logged :: "(detail \<Rightarrow> string) \<Rightarrow> 'n dev_sys \<Rightarrow> bool" where
  "dev_logged print s \<longleftrightarrow> all_logged print (dy_reg s) \<and>
     (\<forall>(i, l) \<in> set (dy_loops s). \<exists>e. map_of (rg_devs (dy_reg s)) i = Some e \<and> 0 < sx_DesiredVersion e)"

lemma dev_logged_step_of:
  assumes "dev_logged print s" and "all_logged print r" and "grows (dy_reg s) r"
    and new: "\<And>i l. (i, l) \<in> set ls \<Longrightarrow> (\<exists>l1. (i, l1) \<in> set (dy_loops s)) \<or>
      (\<exists>e. map_of (rg_devs r) i = Some e \<and> 0 < sx_DesiredVersion e)"
  shows "dev_logged print (s\<lparr>dy_reg := r, dy_loops := ls\<rparr>)"
proof -
  have "\<exists>e. map_of (rg_devs r) i = Some e \<and> 0 < sx_DesiredVersion e" if "(i, l) \<in> set ls" for i l
    using new [OF that]
  proof
    assume "\<exists>l1. (i, l1) \<in> set (dy_loops s)"
    then obtain e where "map_of (rg_devs (dy_reg s)) i = Some e" "0 < sx_DesiredVersion e"
      using assms(1) by (fastforce simp: dev_logged_def)
    then show ?thesis using assms(3) unfolding grows_def by fastforce
  qed
  then show ?thesis using assms(2) by (auto simp: dev_logged_def)
qed

lemma dev_logged_known:
  "dev_logged print s \<Longrightarrow> (i, l) \<in> set (dy_loops s) \<Longrightarrow>
   \<exists>e. map_of (rg_devs (dy_reg s)) i = Some e \<and> 0 < sx_DesiredVersion e"
  by (fastforce simp: dev_logged_def)

lemma dev_step_logged:
  assumes "dev_step send s lab s'" and l: "dev_logged print s"
  shows "dev_logged print s'"
proof -
  have a: "all_logged print (dy_reg s)" using l by (simp add: dev_logged_def)
  show ?thesis using assms(1)
  proof cases
    case (register did err r)
    have "dev_logged print (s\<lparr>dy_reg := r, dy_loops := dy_loops s\<rparr>)"
      by (rule dev_logged_step_of [OF l]) (use Register_logged [OF register(3) a] in blast)+
    then show ?thesis by (simp add: register(2))
  next
    case (set_config now did k res st r)
    show ?thesis unfolding set_config(2)
      by (rule dev_logged_step_of [OF l]) (use SetConfig_logged [OF set_config(3) a] in \<open>auto simp: start_loop_def split: if_splits\<close>)
  next
    case (retry did err st r)
    show ?thesis unfolding retry(2)
      by (rule dev_logged_step_of [OF l]) (use Retry_logged [OF retry(3) a] in \<open>auto simp: start_loop_def split: if_splits\<close>)
  next
    case close
    then show ?thesis using l
      by (simp add: dev_logged_def all_logged_def recording_def log_of_def registry_Close_def)
  next
    case (top xs did ys now nx r)
    obtain e where e: "map_of (rg_devs (dy_reg s)) did = Some e" "0 < sx_DesiredVersion e"
      using dev_logged_known [OF l, of did AtTop] top(3) by auto
    show ?thesis unfolding top(2)
      by (rule dev_logged_step_of [OF l])
        (use top_logged [OF top(4) a e] top(3) in \<open>auto simp: next_loop_def split: option.splits\<close>)
  next
    case (send xs did p ys w reply net)
    then show ?thesis using l by (auto simp: dev_logged_def)
  next
    case (result xs did version att reply ys now l1 r)
    obtain e where e: "map_of (rg_devs (dy_reg s)) did = Some e" "0 < sx_DesiredVersion e"
      using dev_logged_known [OF l, of did] result(3) by fastforce
    show ?thesis unfolding result(2)
      by (rule dev_logged_step_of [OF l]) (use result_logged [OF result(4) a e] result(3) in auto)
  next
    case (sleep xs did att ys elapsed)
    then show ?thesis using l by (auto simp: dev_logged_def)
  next
    case (finish xs did ys)
    show ?thesis unfolding finish(2)
      by (rule dev_logged_step_of [OF l]) (use finish_logged [OF a] finish(3) in auto)
  qed
qed

lemma dev_logged_init:
  assumes "sink_ok rec" and "r_file rec = []"
  shows "dev_logged print (init_devs (Some rec) opts net)"
  using assms by (simp add: dev_logged_def init_devs_def NewRegistry_def all_logged_def recording_def log_of_def
      device_logged_def events_of_def)

lemma dev_reachable_logged:
  assumes "dev_reachable send (init_devs (Some rec) opts net) s" and "sink_ok rec" and "r_file rec = []"
  shows "dev_logged print s"
  using assms(1) by induction (rule dev_logged_init [OF assms(2,3)], erule (1) dev_step_logged [rotated])

text \<open>The state the tracer shows, for the state the registry has.\<close>

definition shows_as :: "dev_state \<Rightarrow> string \<Rightarrow> bool" where
  "shows_as st w \<longleftrightarrow>
     (case st of StateIdle \<Rightarrow> w = ''idle'' | StateAcked \<Rightarrow> w = ''acked'' | StateFailed \<Rightarrow> w = ''failed''
      | StatePending \<Rightarrow> w = ''pending'' \<or> w = ''failed'')"

lemma row_ok_shows: "row_ok e w \<Longrightarrow> shows_as (sx_State e) (row_state w)"
  by (auto simp: row_ok_def shows_as_def row_state_def split: dev_state.splits)

lemma row_id: "dr_id (row_for i es) = i"
proof -
  have "dr_id (fold row_event xs w) = dr_id w" for xs w
    by (induction xs arbitrary: w) (simp_all add: row_event_def)
  then show ?thesis by (simp add: row_for_def new_row_def)
qed

end
