(* ===== verification/DevicesInv.thy ===== *)
theory DevicesInv
  imports DevicesSystem
begin

text \<open>
  The invariant of the registry over a transport that keeps its contract, and the potential by
  which the push loops come to rest when no client calls. Both are proved once in the locale
  \<open>transport\<close> and used for the simulated network through its interpretation.
\<close>

section \<open>The invariant\<close>

definition dev_inv ::
  "('n \<Rightarrow> string \<Rightarrow> int) \<Rightarrow> ('n \<Rightarrow> string \<Rightarrow> config) \<Rightarrow> 'n dev_sys \<Rightarrow> bool" where
  "dev_inv ver cfg s \<longleftrightarrow> 1 \<le> o_MaxAttempts (rg_opts (dy_reg s)) \<and>
     (\<forall>i. device_inv (o_MaxAttempts (rg_opts (dy_reg s))) (rg_cancelled (dy_reg s)) i
        (map_of (rg_devs (dy_reg s)) i) (loops_of i (dy_loops s)) (ver (dy_net s) i) (cfg (dy_net s) i))"

lemma dev_invD:
  "dev_inv ver cfg s \<Longrightarrow> device_inv (o_MaxAttempts (rg_opts (dy_reg s))) (rg_cancelled (dy_reg s)) i
     (map_of (rg_devs (dy_reg s)) i) (loops_of i (dy_loops s)) (ver (dy_net s) i) (cfg (dy_net s) i)"
  by (simp add: dev_inv_def)

lemma device_inv_single:
  "device_inv m c i eo (xs @ l # ys) v k \<Longrightarrow> xs = [] \<and> ys = [] \<and> (\<exists>e. eo = Some e \<and> en_loopRunning e)"
  by (auto simp: device_inv_def entry_inv_def split: option.splits if_splits)

text \<open>An operation on one device keeps the invariant of the others.\<close>

lemma dev_inv_local:
  assumes inv: "dev_inv ver cfg s" and t: "only_touches did (dy_reg s) r"
    and own: "device_inv (o_MaxAttempts (rg_opts (dy_reg s))) (rg_cancelled (dy_reg s)) did
      (map_of (rg_devs r) did) (loops_of did ls) (ver (dy_net s) did) (cfg (dy_net s) did)"
    and others: "\<And>i. i \<noteq> did \<Longrightarrow> loops_of i ls = loops_of i (dy_loops s)"
  shows "dev_inv ver cfg (s\<lparr>dy_reg := r, dy_loops := ls\<rparr>)"
  unfolding dev_inv_def
proof (intro conjI allI)
  show "1 \<le> o_MaxAttempts (rg_opts (dy_reg (s\<lparr>dy_reg := r, dy_loops := ls\<rparr>)))"
    using inv t by (simp add: dev_inv_def only_touches_def)
  fix i
  show "device_inv (o_MaxAttempts (rg_opts (dy_reg (s\<lparr>dy_reg := r, dy_loops := ls\<rparr>))))
      (rg_cancelled (dy_reg (s\<lparr>dy_reg := r, dy_loops := ls\<rparr>))) i
      (map_of (rg_devs (dy_reg (s\<lparr>dy_reg := r, dy_loops := ls\<rparr>))) i) (loops_of i (dy_loops (s\<lparr>dy_reg := r, dy_loops := ls\<rparr>)))
      (ver (dy_net (s\<lparr>dy_reg := r, dy_loops := ls\<rparr>)) i) (cfg (dy_net (s\<lparr>dy_reg := r, dy_loops := ls\<rparr>)) i)"
  proof (cases "i = did")
    case True
    then show ?thesis using own t by (simp add: only_touches_def)
  next
    case False
    then show ?thesis using dev_invD [OF inv, of i] t others by (simp add: only_touches_def)
  qed
qed

lemma device_inv_mono_closed: "device_inv m c i eo ls v k \<Longrightarrow> device_inv m True i eo ls v k"
proof (cases eo)
  case (Some e)
  assume "device_inv m c i eo ls v k"
  moreover have "loop_ok m c e v l \<Longrightarrow> loop_ok m True e v l" for l by (cases l) auto
  ultimately show ?thesis
    using Some by (auto simp: device_inv_def entry_inv_def state_ok_def split: dev_state.splits)
qed (simp add: device_inv_def)

lemma send_entry:
  assumes "entry_inv m c did e [Sending p] v k"
    and "(v' = v \<and> k' = k) \<or> (v < p_Version p \<and> v' = p_Version p \<and> k' = copyMap (p_Config p))"
    and "case reply of Inl _ \<Rightarrow> True | Inr a \<Rightarrow> a_Version a \<le> v'"
  shows "entry_inv m c did e [Got (p_Version p) (p_Attempt p) reply] v' k'"
  using assms by (auto simp: entry_inv_def)

context transport
begin

lemma send_device:
  assumes inv: "device_inv m c (p_DeviceID p) eo [Sending p] (ver n (p_DeviceID p)) (cfg n (p_DeviceID p))"
    and snd: "send w p n = (reply, n')"
  shows "device_inv m c (p_DeviceID p) eo [Got (p_Version p) (p_Attempt p) reply]
    (ver n' (p_DeviceID p)) (cfg n' (p_DeviceID p))"
proof (cases eo)
  case None
  then show ?thesis using inv by (simp add: device_inv_def)
next
  case (Some e)
  then have e: "entry_inv m c (p_DeviceID p) e [Sending p] (ver n (p_DeviceID p)) (cfg n (p_DeviceID p))"
    using inv by (simp add: device_inv_def)
  have ack: "case reply of Inl _ \<Rightarrow> True | Inr a \<Rightarrow> a_Version a \<le> ver n' (p_DeviceID p)"
    using send_ack [of w p n _ n'] snd by (simp split: sum.splits)
  show ?thesis using send_entry [OF e send_own [OF snd] ack] by (simp add: device_inv_def Some)
qed

lemma dev_step_inv:
  assumes "dev_step send s lab s'" and inv: "dev_inv ver cfg s"
  shows "dev_inv ver cfg s'"
  using assms(1)
proof cases
  case (register did err r)
  have m: "1 \<le> o_MaxAttempts (rg_opts (dy_reg s))" using inv by (simp add: dev_inv_def)
  have "dev_inv ver cfg (s\<lparr>dy_reg := r, dy_loops := dy_loops s\<rparr>)"
    by (rule dev_inv_local [OF inv Register_touches [OF register(3)] Register_device [OF register(3) dev_invD [OF inv] m]]) simp
  then show ?thesis by (simp add: register)
next
  case (set_config now did k res st r)
  have "dev_inv ver cfg (s\<lparr>dy_reg := r, dy_loops := start_loop st did (dy_loops s)\<rparr>)"
    by (rule dev_inv_local [OF inv SetConfig_touches [OF set_config(3)]])
      (use SetConfig_device [OF set_config(3) dev_invD [OF inv]] in simp_all)
  then show ?thesis by (simp add: set_config)
next
  case (retry did err st r)
  have "dev_inv ver cfg (s\<lparr>dy_reg := r, dy_loops := start_loop st did (dy_loops s)\<rparr>)"
    by (rule dev_inv_local [OF inv Retry_touches [OF retry(3)]])
      (use Retry_device [OF retry(3) dev_invD [OF inv]] in simp_all)
  then show ?thesis by (simp add: retry)
next
  case close
  then show ?thesis using inv device_inv_mono_closed by (fastforce simp: dev_inv_def registry_Close_def)
next
  case (top xs did ys now nx r)
  have d: "device_inv (o_MaxAttempts (rg_opts (dy_reg s))) (rg_cancelled (dy_reg s)) did
      (map_of (rg_devs (dy_reg s)) did) (loops_of did xs @ AtTop # loops_of did ys) (ver (dy_net s) did) (cfg (dy_net s) did)"
    using dev_invD [OF inv, of did] by (simp add: top(3))
  note one = device_inv_single [OF d]
  have m: "1 \<le> o_MaxAttempts (rg_opts (dy_reg s))" using inv by (simp add: dev_inv_def)
  have "dev_inv ver cfg (s\<lparr>dy_reg := r, dy_loops := xs @ next_loop did nx @ ys\<rparr>)"
    by (rule dev_inv_local [OF inv top_touches [OF top(4)]])
      (use top_device [OF top(4) refl refl m] d one top(3) in simp_all)
  then show ?thesis by (simp add: top)
next
  case (send xs did p ys w reply net)
  have d: "device_inv (o_MaxAttempts (rg_opts (dy_reg s))) (rg_cancelled (dy_reg s)) did
      (map_of (rg_devs (dy_reg s)) did) (loops_of did xs @ Sending p # loops_of did ys) (ver (dy_net s) did) (cfg (dy_net s) did)"
    using dev_invD [OF inv, of did] by (simp add: send(3))
  note one = device_inv_single [OF d]
  then have did: "p_DeviceID p = did" using d by (auto simp: device_inv_def entry_inv_def)
  have own: "device_inv (o_MaxAttempts (rg_opts (dy_reg s))) (rg_cancelled (dy_reg s)) did
      (map_of (rg_devs (dy_reg s)) did) [Got (p_Version p) (p_Attempt p) reply] (ver net did) (cfg net did)"
    using send_device [of _ _ p, OF _ send(4)] d one did by simp
  have other: "ver net i = ver (dy_net s) i \<and> cfg net i = cfg (dy_net s) i" if "i \<noteq> did" for i
    using send_other [OF send(4)] that did by blast
  show ?thesis unfolding dev_inv_def
  proof (intro conjI allI)
    show "1 \<le> o_MaxAttempts (rg_opts (dy_reg s'))" using inv by (simp add: dev_inv_def send(2))
    fix i
    show "device_inv (o_MaxAttempts (rg_opts (dy_reg s'))) (rg_cancelled (dy_reg s')) i
        (map_of (rg_devs (dy_reg s')) i) (loops_of i (dy_loops s')) (ver (dy_net s') i) (cfg (dy_net s') i)"
      using own other [of i] one dev_invD [OF inv, of i] by (cases "i = did") (simp_all add: send(2,3))
  qed
next
  case (result xs did version att reply ys now l r)
  have d: "device_inv (o_MaxAttempts (rg_opts (dy_reg s))) (rg_cancelled (dy_reg s)) did
      (map_of (rg_devs (dy_reg s)) did) (loops_of did xs @ Got version att reply # loops_of did ys) (ver (dy_net s) did) (cfg (dy_net s) did)"
    using dev_invD [OF inv, of did] by (simp add: result(3))
  note one = device_inv_single [OF d]
  have "dev_inv ver cfg (s\<lparr>dy_reg := r, dy_loops := xs @ (did, l) # ys\<rparr>)"
    by (rule dev_inv_local [OF inv result_touches [OF result(4)]])
      (use result_device [OF result(4)] d one result(3) in simp_all)
  then show ?thesis by (simp add: result)
next
  case (sleep xs did att ys elapsed)
  have d: "device_inv (o_MaxAttempts (rg_opts (dy_reg s))) (rg_cancelled (dy_reg s)) did
      (map_of (rg_devs (dy_reg s)) did) (loops_of did xs @ Sleeping att # loops_of did ys) (ver (dy_net s) did) (cfg (dy_net s) did)"
    using dev_invD [OF inv, of did] by (simp add: sleep(3))
  note one = device_inv_single [OF d]
  have "dev_inv ver cfg (s\<lparr>dy_reg := dy_reg s, dy_loops := xs @ (did, loop_sleep elapsed) # ys\<rparr>)"
    by (rule dev_inv_local [OF inv only_touches_refl])
      (use d one sleep(3,4) in \<open>auto simp: device_inv_def entry_inv_def loop_sleep_def\<close>)
  then show ?thesis by (simp add: sleep)
next
  case (finish xs did ys)
  have d: "device_inv (o_MaxAttempts (rg_opts (dy_reg s))) (rg_cancelled (dy_reg s)) did
      (map_of (rg_devs (dy_reg s)) did) (loops_of did xs @ Finishing # loops_of did ys) (ver (dy_net s) did) (cfg (dy_net s) did)"
    using dev_invD [OF inv, of did] by (simp add: finish(3))
  note one = device_inv_single [OF d]
  have "dev_inv ver cfg (s\<lparr>dy_reg := loop_finish did (dy_reg s), dy_loops := xs @ ys\<rparr>)"
    by (rule dev_inv_local [OF inv finish_touches]) (use finish_device d one finish(3) in simp_all)
  then show ?thesis by (simp add: finish)
qed

lemma init_inv:
  assumes "\<And>i. ver net i = 0"
  shows "dev_inv ver cfg (init_devs rec opts net)"
proof -
  have "1 \<le> o_MaxAttempts (options_defaults opts)" by (simp add: options_defaults_def Let_def)
  then show ?thesis using assms by (simp add: dev_inv_def init_devs_def NewRegistry_def device_inv_def)
qed

lemma reachable_inv:
  assumes "dev_reachable send (init_devs rec opts net) s" and "\<And>i. ver net i = 0"
  shows "dev_inv ver cfg s"
  using assms(1) by induction (use init_inv [OF assms(2)] dev_step_inv in auto)

end

section \<open>Coming to rest\<close>

text \<open>
  How many more steps a loop can take when no client calls: four per attempt left for the
  desired version (top, send, result, sleep), plus those of the current round.
\<close>

fun attempts_left :: "int \<Rightarrow> entry option \<Rightarrow> nat" where
  "attempts_left m None = 0"
| "attempts_left m (Some e) =
     nat (if en_pushedFor e = sx_DesiredVersion e then m - sx_Attempts e else m)"

fun loop_potential :: "int \<Rightarrow> entry option \<Rightarrow> loop_state \<Rightarrow> nat" where
  "loop_potential m eo AtTop = 4 * attempts_left m eo + 3"
| "loop_potential m eo (Sending p) = 4 * attempts_left m eo + 6"
| "loop_potential m eo (Got ver att reply) = 4 * attempts_left m eo + 5"
| "loop_potential m eo (Sleeping att) = 4 * attempts_left m eo + 4"
| "loop_potential m eo Finishing = 1"

definition loops_potential :: "registry \<Rightarrow> (string \<times> loop_state) list \<Rightarrow> nat" where
  "loops_potential r ls =
     sum_list (map (\<lambda>(i, l). loop_potential (o_MaxAttempts (rg_opts r)) (map_of (rg_devs r) i) l) ls)"

definition dev_potential :: "'n dev_sys \<Rightarrow> nat" where
  "dev_potential s = loops_potential (dy_reg s) (dy_loops s)"

lemma loops_potential_append [simp]:
  "loops_potential r (xs @ ys) = loops_potential r xs + loops_potential r ys"
  "loops_potential r ((i, l) # ys) =
     loop_potential (o_MaxAttempts (rg_opts r)) (map_of (rg_devs r) i) l + loops_potential r ys"
  "loops_potential r [] = 0"
  by (simp_all add: loops_potential_def)

lemma loops_potential_other:
  "only_touches did r r' \<Longrightarrow> loops_of did ls = [] \<Longrightarrow> loops_potential r' ls = loops_potential r ls"
proof (induction ls)
  case (Cons l ls)
  then show ?case by (cases l) (auto simp: only_touches_def split: if_splits)
qed simp

lemma top_potential:
  assumes op: "loop_top now did r = (nx, r')" and m: "1 \<le> o_MaxAttempts (rg_opts r)"
  shows "loops_potential r' (next_loop did nx) < loop_potential (o_MaxAttempts (rg_opts r)) (map_of (rg_devs r) did) AtTop"
  using op m by (auto simp: loop_top_def next_loop_def Let_def split: option.splits if_splits)

lemma result_potential:
  "loop_result now did ver att reply r = (l, r') \<Longrightarrow>
   loop_potential (o_MaxAttempts (rg_opts r')) (map_of (rg_devs r') did) l <
   loop_potential (o_MaxAttempts (rg_opts r)) (map_of (rg_devs r) did) (Got ver att reply)"
  by (auto simp: loop_result_def Let_def split: option.splits sum.splits if_splits)

context transport
begin

lemma loop_alone:
  assumes "dev_inv ver cfg s" and "dy_loops s = xs @ (did, l) # ys"
  shows "loops_of did xs = []" and "loops_of did ys = []"
  using dev_invD [OF assms(1), of did] device_inv_single by (auto simp: assms(2))

text \<open>Every step of a loop uses up potential, whatever the network does.\<close>

lemma loop_step_potential:
  assumes "dev_step send s Loop s'" and inv: "dev_inv ver cfg s"
  shows "dev_potential s' < dev_potential s"
  using assms(1)
proof cases
  case (top xs did ys now nx r)
  note alone = loop_alone [OF inv top(2)]
  have "1 \<le> o_MaxAttempts (rg_opts (dy_reg s))" using inv by (simp add: dev_inv_def)
  from top_potential [OF top(3) this] show ?thesis
    using loops_potential_other [OF top_touches [OF top(3)]] alone
    by (simp add: dev_potential_def top(1,2))
next
  case (result xs did version att reply ys now l r)
  note alone = loop_alone [OF inv result(2)]
  from result_potential [OF result(3)] show ?thesis
    using loops_potential_other [OF result_touches [OF result(3)]] alone
    by (simp add: dev_potential_def result(1,2))
next
  case (sleep xs did att ys elapsed)
  then show ?thesis by (cases elapsed) (simp_all add: dev_potential_def loop_sleep_def)
next
  case (finish xs did ys)
  note alone = loop_alone [OF inv finish(2)]
  show ?thesis
    using loops_potential_other [OF finish_touches [of did "dy_reg s"]] alone
    by (simp add: dev_potential_def finish(1,2))
qed (simp_all add: dev_potential_def)

text \<open>While a loop lives, some loop step is possible.\<close>

lemma loop_progress:
  assumes "dy_loops s = (did, l) # ys"
  shows "\<exists>s'. dev_step send s Loop s'"
proof -
  have ls: "dy_loops s = [] @ (did, l) # ys" using assms by simp
  show ?thesis
  proof (cases l)
    case AtTop
    obtain nx r where "loop_top 0 did (dy_reg s) = (nx, r)" by fastforce
    then show ?thesis using dev_step.top [OF ls [unfolded AtTop]] by blast
  next
    case (Sending p)
    obtain reply net where r: "send undefined p (dy_net s) = (reply, net)" by fastforce
    show ?thesis by (rule exI) (rule dev_step.send [of _ _ _ _ _ send, OF ls [unfolded Sending] r])
  next
    case (Got version att reply)
    obtain l' r where "loop_result 0 did version att reply (dy_reg s) = (l', r)" by fastforce
    then show ?thesis using dev_step.result [OF ls [unfolded Got]] by blast
  next
    case (Sleeping att)
    show ?thesis using dev_step.sleep [OF ls [unfolded Sleeping], of True] by blast
  next
    case Finishing
    show ?thesis using dev_step.finish [OF ls [unfolded Finishing]] by blast
  qed
qed

text \<open>At rest no device is pending, unless the registry was closed.\<close>

lemma at_rest:
  assumes "dev_inv ver cfg s" and "dy_loops s = []" and "map_of (rg_devs (dy_reg s)) did = Some e"
  shows "sx_State e \<noteq> StatePending \<or> rg_cancelled (dy_reg s)"
  using dev_invD [OF assms(1), of did] assms(2,3)
  by (auto simp: device_inv_def entry_inv_def state_ok_def split: if_splits)

end

text \<open>Runs of the push loops alone.\<close>

inductive loop_run ::
  "('w \<Rightarrow> push \<Rightarrow> 'n \<Rightarrow> (string + ack) \<times> 'n) \<Rightarrow> nat \<Rightarrow> 'n dev_sys \<Rightarrow> 'n dev_sys \<Rightarrow> bool" for send where
  none: "loop_run send 0 s s"
| more: "dev_step send s Loop s1 \<Longrightarrow> loop_run send n s1 s' \<Longrightarrow> loop_run send (Suc n) s s'"

context transport
begin

lemma loop_run_inv:
  "loop_run send n s s' \<Longrightarrow> dev_inv ver cfg s \<Longrightarrow> dev_inv ver cfg s' \<and> n + dev_potential s' \<le> dev_potential s"
proof (induction rule: loop_run.induct)
  case (more s s1 n s')
  then show ?case using dev_step_inv [OF more.hyps(1) more.prems] loop_step_potential [OF more.hyps(1) more.prems]
    by simp
qed simp

lemma runs_to_rest: "dev_inv ver cfg s \<Longrightarrow> \<exists>n s'. loop_run send n s s' \<and> dy_loops s' = []"
proof (induction "dev_potential s" arbitrary: s rule: less_induct)
  case less
  show ?case
  proof (cases "dy_loops s")
    case Nil
    then show ?thesis using loop_run.none by blast
  next
    case (Cons l ys)
    then obtain s1 where s1: "dev_step send s Loop s1" using loop_progress [of s "fst l" "snd l" ys] by auto
    from less.hyps [OF loop_step_potential [OF s1 less.prems] dev_step_inv [OF s1 less.prems]]
    show ?thesis using loop_run.more [OF s1] by blast
  qed
qed

end

end
