(* ===== verification/DevicesHTTP.thy ===== *)
theory DevicesHTTP
  imports Devices
begin

text \<open>
  \<^verbatim>\<open>internal/devices/http.go\<close>: the handler as a function from a request to the response, the
  device whose push loop was started, if any, and the registry. The body of a request is what
  the JSON decoder makes of it: \<^term>\<open>None\<close> when it reports an error.
\<close>

record dev_request =
  dq_Method :: string
  dq_Path :: string
  dq_Body :: "config option"

datatype dev_body = EmptyBody | ErrorText string | StatusList "status list" | OneStatus status | VersionJSON int

record dev_response =
  dr_Code :: nat
  dr_Body :: dev_body

definition respond :: "nat \<Rightarrow> dev_body \<Rightarrow> dev_response" where
  "respond code body = \<lparr>dr_Code = code, dr_Body = body\<rparr>"

fun registry_error_text :: "registry_error \<Rightarrow> string" where
  "registry_error_text ErrUnknownDevice = ''unknown device''"
| "registry_error_text (AlreadyRegistered did) = ''device '' @ quote did @ '' already registered''"

definition device_route ::
  "time \<Rightarrow> dev_request \<Rightarrow> registry \<Rightarrow> dev_response \<times> string option \<times> registry" where
  "device_route now q r =
     (let rest = trim_prefix (dq_Path q) ''/devices/''
      in case cut (CHR ''/'') rest of (did, sub, _) \<Rightarrow>
        if dq_Method q = ''GET'' \<and> sub = [] then
          (case registry_Status did r of
             None \<Rightarrow> (respond 404 (ErrorText ''unknown device''), None, r)
           | Some s \<Rightarrow> (respond 200 (OneStatus s), None, r))
        else if dq_Method q = ''PUT'' \<and> sub = ''config'' then
          (case dq_Body q of
             None \<Rightarrow> (respond 400 (ErrorText ''body must be a JSON object of string values''), None, r)
           | Some cfg \<Rightarrow>
               (case registry_SetConfig now did cfg r of
                  (Inl e, _, r1) \<Rightarrow> (respond 404 (ErrorText (registry_error_text e)), None, r1)
                | (Inr v, started, r1) \<Rightarrow>
                    (respond 202 (VersionJSON v), (if started then Some did else None), r1)))
        else if dq_Method q = ''POST'' \<and> sub = ''retry'' then
          (case registry_Retry did r of
             (Some e, _, r1) \<Rightarrow> (respond 404 (ErrorText (registry_error_text e)), None, r1)
           | (None, started, r1) \<Rightarrow> (respond 202 EmptyBody, (if started then Some did else None), r1))
        else (respond 404 (ErrorText ''not found''), None, r))"

definition dev_Handler ::
  "time \<Rightarrow> dev_request \<Rightarrow> registry \<Rightarrow> dev_response \<times> string option \<times> registry" where
  "dev_Handler now q r =
     (if dq_Path q = ''/devices'' then
        (if dq_Method q \<noteq> ''GET'' then (respond 405 (ErrorText ''method not allowed''), None, r)
         else (respond 200 (StatusList (registry_List r)), None, r))
      else if has_prefix (dq_Path q) ''/devices/'' then device_route now q r
      else (respond 404 (ErrorText ''404 page not found''), None, r))"

section \<open>Routing\<close>

lemma cut_found: "sep \<notin> set a \<Longrightarrow> cut sep (a @ sep # b) = (a, b, True)"
  by (induction a) auto

lemma cut_absent: "sep \<notin> set a \<Longrightarrow> cut sep a = (a, [], False)"
  by (induction a) auto

lemma route_device:
  "dq_Path q = ''/devices/'' @ p \<Longrightarrow> dev_Handler now q r = device_route now q r"
  by (simp add: dev_Handler_def)

definition device_request :: "string \<Rightarrow> string \<Rightarrow> config option \<Rightarrow> dev_request" where
  "device_request meth p body = \<lparr>dq_Method = meth, dq_Path = ''/devices/'' @ p, dq_Body = body\<rparr>"

lemma handle_put:
  assumes "CHR ''/'' \<notin> set did"
  shows "dev_Handler now (device_request ''PUT'' (did @ ''/config'') (Some cfg)) r =
    (case registry_SetConfig now did cfg r of
       (Inl e, _, r1) \<Rightarrow> (respond 404 (ErrorText (registry_error_text e)), None, r1)
     | (Inr v, started, r1) \<Rightarrow> (respond 202 (VersionJSON v), (if started then Some did else None), r1))"
proof -
  have "dev_Handler now (device_request ''PUT'' (did @ ''/config'') (Some cfg)) r =
      device_route now (device_request ''PUT'' (did @ ''/config'') (Some cfg)) r"
    by (rule route_device) (simp add: device_request_def)
  moreover have "trim_prefix (''/devices/'' @ did @ ''/config'') ''/devices/'' = did @ CHR ''/'' # ''config''"
    using trim_prefix_append [of "''/devices/''" "did @ ''/config''"] by simp
  ultimately show ?thesis
    using cut_found [OF assms, of "''config''"] by (simp add: device_route_def device_request_def Let_def)
qed

lemma handle_get:
  assumes "CHR ''/'' \<notin> set did"
  shows "dev_Handler now (device_request ''GET'' did None) r =
    (case registry_Status did r of
       None \<Rightarrow> (respond 404 (ErrorText ''unknown device''), None, r)
     | Some s \<Rightarrow> (respond 200 (OneStatus s), None, r))"
proof -
  have "dev_Handler now (device_request ''GET'' did None) r = device_route now (device_request ''GET'' did None) r"
    by (rule route_device) (simp add: device_request_def)
  moreover have "trim_prefix (''/devices/'' @ did) ''/devices/'' = did" by (rule trim_prefix_append)
  ultimately show ?thesis
    using cut_absent [OF assms] by (simp add: device_route_def device_request_def Let_def)
qed

end
