(* ===== verification/DevicesProps.thy ===== *)
theory DevicesProps
  imports DevicesInv DevicesHTTP
begin

text \<open>
  The properties of the device registry over the simulated network: what an acknowledged state
  means, the discipline of the push loops, that they come to rest, redelivery, the HTTP round
  trip, and the range of the backoff. A small run supplies the concrete instances.
\<close>

section \<open>A run\<close>

definition cam :: string where
  "cam = ''cam-01''"

definition cam_cfg :: config where
  "cam_cfg = Some [(''fps'', ''30'')]"

definition demo_net :: network where
  "demo_net = network_AddDevice cam NewSimNetwork"

definition demo_opts :: options where
  "demo_opts = \<lparr>o_AckTimeout = 0, o_MaxAttempts = 0, o_Backoff = 0\<rparr>"

definition demo_world :: send_world where
  "demo_world = \<lparr>w_late = False, w_ctxErr = [], w_roll = 0\<rparr>"

definition cam0 :: "network dev_sys" where
  "cam0 = init_devs None demo_opts demo_net"

definition cam1 :: "network dev_sys" where
  "cam1 = cam0\<lparr>dy_reg := snd (registry_Register cam (dy_reg cam0))\<rparr>"

definition cam2 :: "network dev_sys" where
  "cam2 = cam1\<lparr>dy_reg := snd (snd (registry_SetConfig 5 cam cam_cfg (dy_reg cam1))), dy_loops := [(cam, AtTop)]\<rparr>"

definition cam_push :: push where
  "cam_push = \<lparr>p_DeviceID = cam, p_Version = 1, p_Config = cam_cfg, p_Attempt = 1\<rparr>"

definition cam3 :: "network dev_sys" where
  "cam3 = cam2\<lparr>dy_reg := snd (loop_top 6 cam (dy_reg cam2)), dy_loops := [(cam, Sending cam_push)]\<rparr>"

definition cam_ack :: "string + ack" where
  "cam_ack = Inr \<lparr>a_DeviceID = cam, a_Version = 1, a_Applied = True\<rparr>"

definition cam4 :: "network dev_sys" where
  "cam4 = cam3\<lparr>dy_net := snd (sim_Send demo_world cam_push (dy_net cam3)), dy_loops := [(cam, Got 1 1 cam_ack)]\<rparr>"

definition cam5 :: "network dev_sys" where
  "cam5 = cam4\<lparr>dy_reg := snd (loop_result 7 cam 1 1 cam_ack (dy_reg cam4)), dy_loops := [(cam, AtTop)]\<rparr>"

lemma fresh_net: "sim_version demo_net i = 0"
  by (simp add: demo_net_def network_AddDevice_def NewSimNetwork_def sim_version_def)

lemma cam_step1: "dev_step sim_Send cam0 Client cam1"
  unfolding cam1_def by (rule dev_step.register [where err = "fst (registry_Register cam (dy_reg cam0))"]) simp

lemma cam_step2: "dev_step sim_Send cam1 Client cam2"
proof -
  have loops: "start_loop (fst (snd (registry_SetConfig 5 cam cam_cfg (dy_reg cam1)))) cam (dy_loops cam1) = [(cam, AtTop)]"
    by code_simp
  have "dev_step sim_Send cam1 Client (cam1\<lparr>dy_reg := snd (snd (registry_SetConfig 5 cam cam_cfg (dy_reg cam1))),
      dy_loops := start_loop (fst (snd (registry_SetConfig 5 cam cam_cfg (dy_reg cam1)))) cam (dy_loops cam1)\<rparr>)"
    by (rule dev_step.set_config [where res = "fst (registry_SetConfig 5 cam cam_cfg (dy_reg cam1))"]) simp
  then show ?thesis by (simp add: loops cam2_def)
qed

lemma cam_step3: "dev_step sim_Send cam2 Loop cam3"
proof -
  have nx: "fst (loop_top 6 cam (dy_reg cam2)) = Some (Sending cam_push)" by code_simp
  have "dev_step sim_Send cam2 Loop (cam2\<lparr>dy_reg := snd (loop_top 6 cam (dy_reg cam2)),
      dy_loops := [] @ next_loop cam (Some (Sending cam_push)) @ []\<rparr>)"
    by (rule dev_step.top) (use nx in \<open>simp_all add: cam2_def prod_eq_iff\<close>)
  then show ?thesis by (simp add: cam3_def next_loop_def)
qed

lemma cam_step4: "dev_step sim_Send cam3 Loop cam4"
proof -
  have r: "fst (sim_Send demo_world cam_push (dy_net cam3)) = cam_ack" by code_simp
  have "dev_step sim_Send cam3 Loop (cam3\<lparr>dy_net := snd (sim_Send demo_world cam_push (dy_net cam3)),
      dy_loops := [] @ (cam, Got (p_Version cam_push) (p_Attempt cam_push) cam_ack) # []\<rparr>)"
    by (rule dev_step.send [where w = demo_world]) (use r in \<open>simp_all add: cam3_def prod_eq_iff\<close>)
  then show ?thesis by (simp add: cam4_def cam_push_def)
qed

lemma cam_step5: "dev_step sim_Send cam4 Loop cam5"
proof -
  have l: "fst (loop_result 7 cam 1 1 cam_ack (dy_reg cam4)) = AtTop" by code_simp
  have "dev_step sim_Send cam4 Loop (cam4\<lparr>dy_reg := snd (loop_result 7 cam 1 1 cam_ack (dy_reg cam4)),
      dy_loops := [] @ (cam, AtTop) # []\<rparr>)"
    by (rule dev_step.result) (use l in \<open>simp_all add: cam4_def prod_eq_iff\<close>)
  then show ?thesis by (simp add: cam5_def)
qed

lemma cam_reachable: "dev_reachable sim_Send (init_devs None demo_opts demo_net) cam2"
  "dev_reachable sim_Send (init_devs None demo_opts demo_net) cam5"
proof -
  have "dev_reachable sim_Send cam0 cam0" by (rule dev_reachable.start)
  then show r2: "dev_reachable sim_Send (init_devs None demo_opts demo_net) cam2"
    unfolding cam0_def [symmetric]
    by (rule dev_reachable.step [OF dev_reachable.step [OF _ cam_step1] cam_step2])
  then show "dev_reachable sim_Send (init_devs None demo_opts demo_net) cam5"
    by (rule dev_reachable.step [OF dev_reachable.step [OF dev_reachable.step [OF _ cam_step3] cam_step4] cam_step5])
qed

lemma cam_entry: "map_option (\<lambda>e. (sx_State e, sx_DesiredVersion e, sx_AckedVersion e)) (map_of (rg_devs (dy_reg cam5)) cam)
    = Some (StateAcked, 1, 1)"
  by code_simp

section \<open>Properties\<close>

lemma attempts_left_bound:
  "entry_inv m c did e ls v k \<Longrightarrow> attempts_left m (Some e) \<le> nat m"
  by (auto simp: entry_inv_def)

lemma loop_potential_bound: "attempts_left m eo \<le> nat m \<Longrightarrow> loop_potential m eo l \<le> 4 * nat m + 6"
  by (cases l) simp_all

lemma dev_potential_bound:
  assumes "dev_inv ver cfg s"
  shows "dev_potential s \<le> (4 * nat (o_MaxAttempts (rg_opts (dy_reg s))) + 6) * length (dy_loops s)"
proof -
  let ?m = "o_MaxAttempts (rg_opts (dy_reg s))"
  have left: "attempts_left ?m (map_of (rg_devs (dy_reg s)) i) \<le> nat ?m" for i
  proof (cases "map_of (rg_devs (dy_reg s)) i")
    case (Some e)
    then show ?thesis using dev_invD [OF assms, of i] attempts_left_bound by (simp add: device_inv_def)
  qed simp
  have "loops_potential (dy_reg s) ls \<le> (4 * nat ?m + 6) * length ls" for ls
  proof (induction ls)
    case (Cons p ls)
    then show ?case using loop_potential_bound [OF left] by (cases p) (simp add: add_mono)
  qed simp
  then show ?thesis by (simp add: dev_potential_def)
qed

text \<open>
  C3: what the registry claims of a device is true. Under any interleaving of client calls, push
  loops, losses and delays, the acknowledged version is at most the version the device runs,
  which is at most the desired one; and a device shown as acked runs the desired version with
  exactly the desired configuration.
\<close>

theorem registry_tells_the_truth:
  assumes "dev_reachable sim_Send (init_devs rec opts net) s" and "\<forall>i. sim_version net i = 0"
    and "map_of (rg_devs (dy_reg s)) did = Some e"
  shows "0 \<le> sx_AckedVersion e \<and> sx_AckedVersion e \<le> sim_version (dy_net s) did \<and>
    sim_version (dy_net s) did \<le> sx_DesiredVersion e \<and>
    (sx_State e = StateAcked \<longrightarrow> sx_AckedVersion e = sx_DesiredVersion e \<and>
       sim_version (dy_net s) did = sx_DesiredVersion e \<and> sim_config (dy_net s) did = sx_Config e)"
proof -
  have "dev_inv sim_version sim_config s" using sim.reachable_inv [OF assms(1)] assms(2) by simp
  from dev_invD [OF this, of did] show ?thesis
    using assms(3) by (auto simp: device_inv_def entry_inv_def state_ok_def)
qed

theorem registry_tells_the_truth_witness:
  "\<exists>e. map_of (rg_devs (dy_reg cam5)) cam = Some e \<and> sx_State e = StateAcked \<and>
     sim_version (dy_net cam5) cam = 1 \<and> sim_config (dy_net cam5) cam = sx_Config e"
proof -
  obtain e where e: "map_of (rg_devs (dy_reg cam5)) cam = Some e" "sx_State e = StateAcked" "sx_DesiredVersion e = 1"
    using cam_entry by auto
  have "\<forall>i. sim_version demo_net i = 0" using fresh_net by blast
  from registry_tells_the_truth [OF cam_reachable(2) this e(1)] show ?thesis using e by auto
qed

text \<open>
  C29: the discipline of the push loops. A device never has two loops; a pending device of an open
  registry has one; a failed device has none, and its desired version was pushed exactly
  \<open>MaxAttempts\<close> times since delivery of it was last (re)started.
\<close>

theorem push_loop_discipline:
  assumes "dev_reachable sim_Send (init_devs rec opts net) s" and "\<forall>i. sim_version net i = 0"
    and "map_of (rg_devs (dy_reg s)) did = Some e"
  shows "length (loops_of did (dy_loops s)) \<le> 1 \<and>
    (sx_State e = StatePending \<and> \<not> rg_cancelled (dy_reg s) \<longrightarrow> length (loops_of did (dy_loops s)) = 1) \<and>
    (sx_State e = StateFailed \<longrightarrow> loops_of did (dy_loops s) = [] \<and> en_pushedFor e = sx_DesiredVersion e \<and>
       sx_Attempts e = o_MaxAttempts (rg_opts (dy_reg s))) \<and>
    sx_Attempts e \<le> o_MaxAttempts (rg_opts (dy_reg s))"
proof -
  have "dev_inv sim_version sim_config s" using sim.reachable_inv [OF assms(1)] assms(2) by simp
  from dev_invD [OF this, of did] show ?thesis
    using assms(3) by (auto simp: device_inv_def entry_inv_def state_ok_def split: if_splits)
qed

theorem push_loop_discipline_witness:
  "\<exists>e. map_of (rg_devs (dy_reg cam2)) cam = Some e \<and> length (loops_of cam (dy_loops cam2)) = 1 \<and> sx_Attempts e \<le> 4"
proof -
  have "map_option sx_State (map_of (rg_devs (dy_reg cam2)) cam) = Some StatePending" by code_simp
  then obtain e where e: "map_of (rg_devs (dy_reg cam2)) cam = Some e" "sx_State e = StatePending" by auto
  have o: "\<not> rg_cancelled (dy_reg cam2)" "o_MaxAttempts (rg_opts (dy_reg cam2)) = 4" by code_simp+
  have "\<forall>i. sim_version demo_net i = 0" using fresh_net by blast
  from push_loop_discipline [OF cam_reachable(1) this e(1)] show ?thesis using e o by auto
qed

text \<open>
  C11: delivery settles. From any reachable state the push loops alone take at most
  \<open>4 * MaxAttempts + 6\<close> steps each, however the network behaves; some run of theirs ends with
  no loop left; and whenever no loop is left, no device is pending unless the registry was closed.
\<close>

theorem delivery_settles:
  assumes "dev_reachable sim_Send (init_devs rec opts net) s" and "\<forall>i. sim_version net i = 0"
  shows "(\<forall>n s'. loop_run sim_Send n s s' \<longrightarrow>
      n \<le> (4 * nat (o_MaxAttempts (rg_opts (dy_reg s))) + 6) * length (dy_loops s)) \<and>
    (\<exists>n s'. loop_run sim_Send n s s' \<and> dy_loops s' = []) \<and>
    (\<forall>n s' did e. loop_run sim_Send n s s' \<and> dy_loops s' = [] \<and> \<not> rg_cancelled (dy_reg s') \<and>
      map_of (rg_devs (dy_reg s')) did = Some e \<longrightarrow> sx_State e \<noteq> StatePending)"
proof -
  have inv: "dev_inv sim_version sim_config s" using sim.reachable_inv [OF assms(1)] assms(2) by simp
  have "n \<le> (4 * nat (o_MaxAttempts (rg_opts (dy_reg s))) + 6) * length (dy_loops s)"
    if "loop_run sim_Send n s s'" for n s'
    using sim.loop_run_inv [OF that inv] dev_potential_bound [OF inv] by linarith
  then show ?thesis using sim.runs_to_rest [OF inv] sim.loop_run_inv [OF _ inv] sim.at_rest by blast
qed

theorem delivery_settles_witness:
  "\<exists>n s'. loop_run sim_Send n cam2 s' \<and> n \<le> 22 \<and> dy_loops s' = []"
proof -
  have b: "(4 * nat (o_MaxAttempts (rg_opts (dy_reg cam2))) + 6) * length (dy_loops cam2) = 22" by code_simp
  have "\<forall>i. sim_version demo_net i = 0" using fresh_net by blast
  from delivery_settles [OF cam_reachable(1) this] show ?thesis unfolding b by blast
qed

text \<open>
  Redelivery is idempotent. Sending a version that the device already runs or has passed,
  whatever becomes of push and acknowledgement, changes the version and configuration of no
  device; and an acknowledgement that arrives carries the version the device runs.
\<close>

theorem redelivery_idempotent:
  assumes "p_Version p \<le> sim_version n (p_DeviceID p)" and "sim_Send w p n = (reply, n')"
  shows "sim_version n' i = sim_version n i \<and> sim_config n' i = sim_config n i \<and>
    (case reply of Inl err \<Rightarrow> True | Inr a \<Rightarrow> a_Version a = sim_version n (p_DeviceID p))"
  using sim.resend_idempotent [OF assms] sim.resend_idempotent [OF assms, of "p_DeviceID p"]
    sim.send_ack [of w p n _ n'] assms(2)
  by (auto split: sum.splits)

theorem redelivery_idempotent_witness:
  "sim_version (snd (sim_Send demo_world cam_push (dy_net cam5))) cam = 1"
proof -
  have v: "p_Version cam_push \<le> sim_version (dy_net cam5) (p_DeviceID cam_push)" "sim_version (dy_net cam5) cam = 1"
    by code_simp+
  have "sim_Send demo_world cam_push (dy_net cam5) =
      (fst (sim_Send demo_world cam_push (dy_net cam5)), snd (sim_Send demo_world cam_push (dy_net cam5)))" by simp
  from redelivery_idempotent [OF v(1) this] show ?thesis using v(2) by simp
qed

text \<open>
  PUT then GET. For a registered device whose name holds no slash, PUT of a configuration
  answers 202 with the next version, and a GET that follows answers 200 with that version as the
  desired one, state pending, and the configuration as the body had it.
\<close>

theorem http_put_then_get:
  assumes "CHR ''/'' \<notin> set did" and "map_of (rg_devs r) did = Some e"
    and "dev_Handler now (device_request ''PUT'' (did @ ''/config'') (Some cfg)) r = (resp, started, r1)"
  shows "resp = respond 202 (VersionJSON (sx_DesiredVersion e + 1)) \<and>
    (started = (if en_loopRunning e then None else Some did)) \<and>
    (\<exists>s. dev_Handler now' (device_request ''GET'' did None) r1 = (respond 200 (OneStatus s), None, r1) \<and>
       sx_ID s = sx_ID e \<and> sx_DesiredVersion s = sx_DesiredVersion e + 1 \<and> sx_State s = StatePending \<and>
       sx_AckedVersion s = sx_AckedVersion e \<and> sx_Config s = copyMap cfg)"
  using assms(3) unfolding handle_put [OF assms(1)] handle_get [OF assms(1)]
  by (auto simp: registry_SetConfig_def assms(2) Let_def registry_Status_def status.defs)

theorem http_put_then_get_witness:
  "\<exists>s. dev_Handler 9 (device_request ''GET'' cam None)
      (snd (snd (dev_Handler 8 (device_request ''PUT'' (cam @ ''/config'') (Some cam_cfg)) (dy_reg cam1)))) =
     (respond 200 (OneStatus s), None,
      snd (snd (dev_Handler 8 (device_request ''PUT'' (cam @ ''/config'') (Some cam_cfg)) (dy_reg cam1)))) \<and>
     sx_DesiredVersion s = 1 \<and> sx_Config s = cam_cfg"
proof -
  let ?h = "dev_Handler 8 (device_request ''PUT'' (cam @ ''/config'') (Some cam_cfg)) (dy_reg cam1)"
  have s: "CHR ''/'' \<notin> set cam" by (simp add: cam_def)
  have "map_option sx_DesiredVersion (map_of (rg_devs (dy_reg cam1)) cam) = Some 0" by code_simp
  then obtain e where e: "map_of (rg_devs (dy_reg cam1)) cam = Some e" "sx_DesiredVersion e = 0" by auto
  have h: "?h = (fst ?h, fst (snd ?h), snd (snd ?h))" by simp
  have "copyMap cam_cfg = cam_cfg" by code_simp
  with http_put_then_get [OF s e(1) h, of 9] e(2) show ?thesis by auto
qed

text \<open>
  The backoff doubles and does not overflow. If the last delay fits 64 bits, the delay after
  the \<open>k\<close>-th attempt is \<open>Backoff * 2^(k-1)\<close>, so it never falls below the base delay. (The
  default options give at most 800 ms.)
\<close>

theorem backoff_doubles:
  assumes "0 < o_Backoff opts" and "o_Backoff opts * 2 ^ nat (o_MaxAttempts opts - 1) < 2 ^ 63"
    and "1 \<le> k" and "k \<le> o_MaxAttempts opts"
  shows "backoff_delay opts k = o_Backoff opts * 2 ^ nat (k - 1) \<and> o_Backoff opts \<le> backoff_delay opts k"
proof -
  let ?b = "o_Backoff opts * 2 ^ nat (k - 1)"
  have "nat (k - 1) \<le> nat (o_MaxAttempts opts - 1)" using assms(3,4) by simp
  then have "(2::int) ^ nat (k - 1) \<le> 2 ^ nat (o_MaxAttempts opts - 1)" by (simp add: power_increasing)
  then have "?b \<le> o_Backoff opts * 2 ^ nat (o_MaxAttempts opts - 1)" using assms(1) by simp
  then have "?b < 2 ^ 63" using assms(2) by linarith
  moreover have "o_Backoff opts * 1 \<le> ?b" using assms(1) by (intro mult_left_mono) simp_all
  moreover from this have "0 < ?b" using assms(1) by linarith
  ultimately have "wrap64 ?b = ?b" by (intro wrap64_small) simp_all
  with \<open>o_Backoff opts * 1 \<le> ?b\<close> show ?thesis by (simp add: backoff_delay_def go_shl_def)
qed

theorem backoff_doubles_witness:
  "backoff_delay (options_defaults demo_opts) 4 = 800 * millisecond"
proof -
  have o: "o_Backoff (options_defaults demo_opts) = 100 * millisecond" "o_MaxAttempts (options_defaults demo_opts) = 4"
    by code_simp+
  have "backoff_delay (options_defaults demo_opts) 4 = o_Backoff (options_defaults demo_opts) * 2 ^ nat (4 - 1)"
    using backoff_doubles [of "options_defaults demo_opts" 4] o by (simp add: millisecond_def)
  then show ?thesis by (simp add: o)
qed

end
