(* ===== verification/TracerProps.thy ===== *)
theory TracerProps
  imports TracerInv DevicesProps
begin

text \<open>
  The properties of the tracer: the device table it reconstructs agrees with the registry that
  wrote the log, with the one exception of a retried device, and the summary of waiting times
  does not depend on the order in which the runtime visits the map or sorts equal times.
\<close>

section \<open>Devices\<close>


definition file_recorder :: recorder where
  "file_recorder = \<lparr>r_file = [], r_db = None, r_calls = 0, r_stderr = 0,
     r_write_ok = (\<lambda>_. True), r_exec_ok = (\<lambda>_. True)\<rparr>"

definition log0 :: "network dev_sys" where
  "log0 = init_devs (Some file_recorder) \<lparr>o_AckTimeout = 0, o_MaxAttempts = 1, o_Backoff = 0\<rparr> demo_net"

definition log1 :: "network dev_sys" where
  "log1 = log0\<lparr>dy_reg := snd (registry_Register cam (dy_reg log0))\<rparr>"

definition log2 :: "network dev_sys" where
  "log2 = log1\<lparr>dy_reg := snd (snd (registry_SetConfig 5 cam cam_cfg (dy_reg log1))),
     dy_loops := start_loop (fst (snd (registry_SetConfig 5 cam cam_cfg (dy_reg log1)))) cam (dy_loops log1)\<rparr>"

lemma log2_reachable: "dev_reachable send log0 log2"
proof -
  have "dev_step send log0 Client log1"
    unfolding log1_def by (rule dev_step.register [where err = "fst (registry_Register cam (dy_reg log0))"]) simp
  moreover have "dev_step send log1 Client log2" unfolding log2_def
    by (rule dev_step.set_config [where res = "fst (registry_SetConfig 5 cam cam_cfg (dy_reg log1))"]) simp
  ultimately show ?thesis by (blast intro: dev_reachable.intros)
qed


text \<open>
  C33: the exception is real: \<open>Retry\<close> writes no event. In any run with working sinks and a clock
  that never went back, retrying a device that has failed makes it pending in the registry, while
  the log stays as it was and the tracer shows the device as failed.
\<close>

theorem tracer_misses_retry:
  assumes "dev_reachable send (init_devs (Some rec) opts net) s" and "sink_ok rec" and "r_file rec = []"
    and "sorted (map te_Timestamp (log_of print (dy_reg s)))"
    and "map_of (rg_devs (dy_reg s)) did = Some e" and "sx_State e = StateFailed"
    and "registry_Retry did (dy_reg s) = (err, started, r)"
  shows "err = None \<and> map_option sx_State (map_of (rg_devs r) did) = Some StatePending \<and>
    log_of print r = log_of print (dy_reg s) \<and>
    (\<exists>w \<in> set (deviceStatus (log_of print r)). dr_id w = did \<and> row_state w = ''failed'')"
proof -
  have l: "all_logged print (dy_reg s)"
    using dev_reachable_logged [OF assms(1-3), of print] by (simp add: dev_logged_def)
  have row: "row_ok e (row_for did (log_of print (dy_reg s)))" by (rule all_logged_entry(2) [OF l assms(5)])
  then have "events_of did (log_of print (dy_reg s)) \<noteq> []"
    using all_logged_entry(3) [OF l assms(5)] assms(6) by (auto simp: row_ok_def)
  then have "row_for did (log_of print (dy_reg s)) \<in> set (deviceStatus (log_of print (dy_reg s)))"
    using deviceStatus_rows [OF assms(4)] by auto
  moreover have "row_state (row_for did (log_of print (dy_reg s))) = ''failed''"
    using row_ok_shows [OF row] assms(6) by (simp add: shows_as_def)
  moreover have "err = None \<and> r = put_entry did (e\<lparr>sx_State := StatePending, en_pushedFor := 0, sx_LastError := [],
      en_loopRunning := True\<rparr>) (dy_reg s)"
    using assms(5-7) by (auto simp: registry_Retry_def Let_def)
  ultimately show ?thesis using row_id by auto
qed

text \<open>A transport that never answers: the one attempt times out and the device has failed.\<close>

definition dead_send :: "unit \<Rightarrow> push \<Rightarrow> network \<Rightarrow> (string + ack) \<times> network" where
  "dead_send w p net = (Inl ''deadline exceeded'', net)"

definition log_at :: "registry \<Rightarrow> loop_state list \<Rightarrow> network dev_sys" where
  "log_at r ls = \<lparr>dy_reg = r, dy_net = demo_net, dy_loops = map (Pair cam) ls\<rparr>"

definition log_push :: push where
  "log_push = \<lparr>p_DeviceID = cam, p_Version = 1, p_Config = cam_cfg, p_Attempt = 1\<rparr>"

definition log_r3 :: registry where
  "log_r3 = snd (loop_top 6 cam (dy_reg log2))"

definition log_r4 :: registry where
  "log_r4 = snd (loop_result 7 cam 1 1 (Inl ''deadline exceeded'') log_r3)"

definition log_r5 :: registry where
  "log_r5 = snd (loop_top 8 cam log_r4)"

lemma log_facts:
  "dy_loops log2 = [(cam, AtTop)]" "fst (loop_top 6 cam (dy_reg log2)) = Some (Sending log_push)"
  "fst (loop_result 7 cam 1 1 (Inl ''deadline exceeded'') log_r3) = Sleeping 1" "fst (loop_top 8 cam log_r4) = None"
  "map_option (\<lambda>e. (sx_State e, sx_DesiredVersion e)) (map_of (rg_devs log_r5) cam) = Some (StateFailed, 1)"
  "sorted (map te_Timestamp (log_of (\<lambda>_. []) log_r5))"
  by code_simp+

lemma log5_reachable: "dev_reachable dead_send log0 (log_at log_r5 [])"
proof -
  have "log_at (dy_reg log2) [AtTop] = log2"
    using log_facts(1) by (intro dev_sys.equality) (simp_all add: log_at_def log2_def log1_def log0_def init_devs_def)
  then have 2: "dev_reachable dead_send log0 (log_at (dy_reg log2) [AtTop])" using log2_reachable by simp
  have 3: "dev_step dead_send (log_at (dy_reg log2) [AtTop]) Loop (log_at log_r3 [Sending log_push])"
    using dev_step.top [of "log_at (dy_reg log2) [AtTop]" "[]" cam "[]" 6 "Some (Sending log_push)" log_r3] log_facts(2)
    by (simp add: log_at_def next_loop_def log_r3_def prod_eq_iff)
  have 4: "dev_step dead_send (log_at log_r3 [Sending log_push]) Loop (log_at log_r3 [Got 1 1 (Inl ''deadline exceeded'')])"
    using dev_step.send [of "log_at log_r3 [Sending log_push]" "[]" cam log_push "[]" dead_send "()" _ demo_net]
    by (simp add: log_at_def dead_send_def log_push_def)
  have 5: "dev_step dead_send (log_at log_r3 [Got 1 1 (Inl ''deadline exceeded'')]) Loop (log_at log_r4 [Sleeping 1])"
    using dev_step.result [of "log_at log_r3 [Got 1 1 (Inl ''deadline exceeded'')]" "[]" cam 1 1 "Inl ''deadline exceeded''" "[]" 7
        "Sleeping 1" log_r4] log_facts(3)
    by (simp add: log_at_def log_r4_def prod_eq_iff)
  have 6: "dev_step dead_send (log_at log_r4 [Sleeping 1]) Loop (log_at log_r4 [AtTop])"
    using dev_step.sleep [of "log_at log_r4 [Sleeping 1]" "[]" cam 1 "[]" True] by (simp add: log_at_def loop_sleep_def)
  have 7: "dev_step dead_send (log_at log_r4 [AtTop]) Loop (log_at log_r5 [])"
    using dev_step.top [of "log_at log_r4 [AtTop]" "[]" cam "[]" 8 None log_r5] log_facts(4)
    by (simp add: log_at_def next_loop_def log_r5_def prod_eq_iff)
  show ?thesis
    by (intro dev_reachable.step [OF _ 7] dev_reachable.step [OF _ 6] dev_reachable.step [OF _ 5] dev_reachable.step [OF _ 4]
        dev_reachable.step [OF 2 3])
qed

theorem tracer_misses_retry_witness:
  "\<exists>r. registry_Retry cam log_r5 = (None, True, r) \<and> map_option sx_State (map_of (rg_devs r) cam) = Some StatePending \<and>
     (\<exists>w \<in> set (deviceStatus (log_of (\<lambda>_. []) r)). dr_id w = cam \<and> row_state w = ''failed'')"
proof -
  obtain e where e: "map_of (rg_devs log_r5) cam = Some e" "sx_State e = StateFailed" using log_facts(5) by auto
  obtain err started r where r: "registry_Retry cam log_r5 = (err, started, r)" by (metis prod_cases3)
  have "fst (snd (registry_Retry cam log_r5)) = True" by code_simp
  then have st: "started" by (simp add: r)
  have k: "sink_ok file_recorder" "r_file file_recorder = []" by (simp_all add: sink_ok_def file_recorder_def)
  have reg: "dy_reg (log_at log_r5 []) = log_r5" by (simp add: log_at_def)
  show ?thesis
    using tracer_misses_retry [OF log5_reachable [unfolded log0_def] k, unfolded reg, OF log_facts(6) e r] st r by auto
qed

section \<open>Waiting times\<close>

text \<open>The last time a job was submitted, or started, in the order of the log; 0 for never.\<close>

definition last_time :: "time list \<Rightarrow> time" where
  "last_time ts = (if ts = [] then zero_time else last ts)"

definition times_at :: "string \<Rightarrow> string \<Rightarrow> trace_event list \<Rightarrow> time list" where
  "times_at ty i es = map te_Timestamp (filter (\<lambda>e. te_JobID e = i \<and> te_EventType e = ty) es)"

definition job_wait :: "trace_event list \<Rightarrow> string \<Rightarrow> (time \<times> time) option" where
  "job_wait es i =
     (let sub = last_time (times_at ''submitted'' i es); st = last_time (times_at ''started'' i es)
      in if sub = zero_time \<or> st = zero_time then None else Some (sub, st))"

lemma times_at_snoc: "times_at ty i (es @ [e]) =
    times_at ty i es @ (if te_JobID e = i \<and> te_EventType e = ty then [te_Timestamp e] else [])"
  by (simp add: times_at_def)

lemma last_time_snoc [simp]: "last_time (ts @ [t]) = t"
  by (simp add: last_time_def)

lemma times_event_map:
  "distinct_keys (fold times_event es []) \<and>
   map_of (fold times_event es []) i =
     (if i \<in> te_JobID ` set es
      then Some \<lparr>jt_submitted = last_time (times_at ''submitted'' i es), jt_started = last_time (times_at ''started'' i es)\<rparr>
      else None)"
proof (induction es arbitrary: i rule: rev_induct)
  case Nil
  then show ?case by simp
next
  case (snoc e es)
  let ?k = "te_JobID e" and ?m = "fold times_event es []"
  have new: "times_at ty j es = []" if "j \<notin> te_JobID ` set es" for ty j
    using that by (auto simp: times_at_def filter_empty_conv)
  have m: "map_of ?m ?k = (if ?k \<in> te_JobID ` set es
      then Some \<lparr>jt_submitted = last_time (times_at ''submitted'' ?k es), jt_started = last_time (times_at ''started'' ?k es)\<rparr>
      else None)" using snoc [of ?k] by (rule conjunct2)
  have step: "times_event e ?m = map_put ?k \<lparr>jt_submitted = last_time (times_at ''submitted'' ?k (es @ [e])),
      jt_started = last_time (times_at ''started'' ?k (es @ [e]))\<rparr> ?m"
    unfolding times_event_def Let_def m using new [of ?k]
    by (simp add: times_at_snoc) (simp add: last_time_def)
  have d: "distinct_keys ?m" using snoc [of i] by (rule conjunct1)
  show ?case using distinct_keys_put [OF d] snoc [of i]
    by (simp add: step) (auto simp: times_at_snoc)
qed

lemma mset_times:
  "mset (fold times_event es []) = mset (map (\<lambda>i. (i, \<lparr>jt_submitted = last_time (times_at ''submitted'' i es),
     jt_started = last_time (times_at ''started'' i es)\<rparr>)) (remdups (map te_JobID es)))"
  (is "mset ?m = mset (map ?f _)")
proof (rule set_eq_iff_mset_eq_distinct [THEN iffD1])
  have d: "distinct_keys ?m" using times_event_map by blast
  then show "distinct ?m" by (rule distinct_map [THEN iffD1, THEN conjunct1])
  show "distinct (map ?f (remdups (map te_JobID es)))" by (simp add: distinct_map inj_on_def)
  have "(i, jt) \<in> set ?m \<longleftrightarrow> i \<in> te_JobID ` set es \<and> (i, jt) = ?f i" for i jt
    using map_of_eq_Some_iff [OF d, of i jt] times_event_map [of es i] by (auto split: if_splits)
  then show "set ?m = set (map ?f (remdups (map te_JobID es)))" by auto
qed

text \<open>The waits of a log, job by job, and the summary as a function of their multiset alone.\<close>

definition all_waits :: "trace_event list \<Rightarrow> duration list" where
  "all_waits es = map (\<lambda>(sub, st). time_sub st sub)
     (map (\<lambda>i. the (job_wait es i)) (filter (\<lambda>i. job_wait es i \<noteq> None) (remdups (map te_JobID es))))"

definition summary_ref :: "trace_event list \<Rightarrow> wait_summary option" where
  "summary_ref es =
     (let W = all_waits es in
      if W = [] then None
      else Some \<lparr>ws_jobs = length W, ws_min = Min (set W), ws_median = sort W ! (length W div 2), ws_max = Max (set W),
                 ws_mean = wrap64 (wrap64 (sum_list W) sdiv int (length W))\<rparr>)"

lemma mset_waits: "mset (waits_of (fold times_event es [])) = mset (all_waits es)"
proof -
  let ?f = "\<lambda>i. (i, \<lparr>jt_submitted = last_time (times_at ''submitted'' i es), jt_started = last_time (times_at ''started'' i es)\<rparr>)"
  let ?p = "\<lambda>(i, jt). \<not> time_is_zero (jt_submitted jt) \<and> \<not> time_is_zero (jt_started jt)"
  let ?g = "\<lambda>(i, jt). time_sub (jt_started jt) (jt_submitted jt)"
  have "mset (waits_of (fold times_event es [])) =
      image_mset ?g (filter_mset ?p (mset (fold times_event es [])))"
    by (simp add: waits_of_def)
  also have "\<dots> = image_mset ?g (filter_mset ?p (mset (map ?f (remdups (map te_JobID es)))))"
    by (simp only: mset_times)
  also have "\<dots> = mset (map ?g (filter ?p (map ?f (remdups (map te_JobID es)))))" by simp
  also have "map ?g (filter ?p (map ?f (remdups (map te_JobID es)))) = all_waits es"
    by (simp add: all_waits_def filter_map comp_def job_wait_def Let_def cong: filter_cong)
  finally show ?thesis .
qed

lemma wrap64_add_left [simp]: "wrap64 (wrap64 a + b) = wrap64 (a + b)"
  by (metis signed_take_bit_add signed_take_bit_signed_take_bit min.idem wrap64_def)

lemma fold_go_add: "fold (\<lambda>w t. go_add t w) ws (wrap64 t) = wrap64 (t + sum_list ws)"
proof (induction ws arbitrary: t)
  case (Cons w ws)
  then show ?case using Cons.IH [of "t + w"] by (simp add: add.assoc)
qed simp

lemma sorted_Min_Max:
  assumes "ws \<noteq> []"
  shows "sort ws ! 0 = Min (set ws)" and "sort ws ! (length ws - 1) = Max (set ws)"
proof -
  have len: "0 < length ws" using assms by simp
  have mem: "\<exists>k < length ws. y = sort ws ! k" if "y \<in> set ws" for y
    using that by (metis in_set_conv_nth length_sort set_sort)
  have nth: "k < length ws \<Longrightarrow> sort ws ! k \<in> set ws" for k by (metis length_sort nth_mem set_sort)
  show "sort ws ! 0 = Min (set ws)"
  proof (rule Min_eqI [symmetric])
    fix y assume "y \<in> set ws"
    then obtain k where "k < length ws" "y = sort ws ! k" using mem by blast
    then show "sort ws ! 0 \<le> y" using sorted_nth_mono [of "sort ws" 0 k] by simp
  qed (use nth len in simp_all)
  show "sort ws ! (length ws - 1) = Max (set ws)"
  proof (rule Max_eqI [symmetric])
    fix y assume "y \<in> set ws"
    then obtain k where "k < length ws" "y = sort ws ! k" using mem by blast
    then show "y \<le> sort ws ! (length ws - 1)" using sorted_nth_mono [of "sort ws" k "length ws - 1"] by simp
  qed (use nth len in simp_all)
qed

lemma summary_is_reference:
  "summary f g es = summary_ref es"
proof -
  let ?W = "all_waits es"
  have "mset (waits_of (map_order f (fold times_event es []))) = mset ?W"
    using mset_waits [of es] mset_map_order [of f "fold times_event es []"] by (simp add: waits_of_def)
  then have len: "length (waits_of (map_order f (fold times_event es []))) = length ?W"
    and srt: "sort_slice g (\<lambda>w. w) (waits_of (map_order f (fold times_event es []))) = sort ?W"
    by (auto simp: sort_slice_def dest: mset_eq_length intro!: properties_for_sort [symmetric])
  have sum: "fold (\<lambda>w t. go_add t w) (sort ?W) 0 = wrap64 (sum_list ?W)"
    using fold_go_add [of "sort ?W" 0] by (simp add: sum_mset_sum_list [symmetric])
  show ?thesis
  proof (cases "?W = []")
    case True
    then show ?thesis using len by (simp add: summary_def summary_ref_def Let_def)
  next
    case False
    then have "waits_of (map_order f (fold times_event es [])) \<noteq> []" using len by auto
    then show ?thesis using False sorted_Min_Max [OF False] sum
      by (simp add: summary_def summary_ref_def Let_def srt)
  qed
qed

text \<open>
  C23: the summary is a function of the log. Whatever order the runtime visits the map in and
  leaves equal waits in, the printed numbers are those of the reference: over the jobs with a
  submission and a start, the least, the upper median, the greatest and the truncated mean of
  the time between the last of each, the sum taken in 64 bits.
\<close>

theorem summary_equals_reference:
  "summary f g es = summary_ref es"
  by (rule summary_is_reference)

text \<open>One job: the scan of its timeline finds the same times.\<close>

lemma scan_events:
  "fold scan_event ys \<lparr>tc_submitted = zero_time, tc_started = zero_time, tc_waitReasons = 0\<rparr> =
     \<lparr>tc_submitted = last_time (map te_Timestamp (filter (\<lambda>e. te_EventType e = ''submitted'') ys)),
      tc_started = last_time (map te_Timestamp (filter (\<lambda>e. te_EventType e = ''started'') ys)),
      tc_waitReasons = length (filter (\<lambda>e. te_EventType e = ''wait_reason'') ys)\<rparr>"
proof (induction ys rule: rev_induct)
  case Nil
  then show ?case by (simp add: last_time_def)
next
  case (snoc e ys)
  then show ?case by (simp add: scan_event_def)
qed

lemma sorted_times_unique:
  assumes "mset ys = mset xs" and "sorted (map te_Timestamp ys)" and "sorted (map te_Timestamp xs)"
  shows "map te_Timestamp (filter P ys) = map te_Timestamp (filter P xs)"
proof -
  have "mset (map te_Timestamp (filter P ys)) = mset (map te_Timestamp (filter P xs))" using assms(1) by simp
  moreover have "sorted (map te_Timestamp (filter P zs))" if "sorted (map te_Timestamp zs)" for zs
    using that by (rule sorted_filter)
  ultimately show ?thesis using assms(2,3) by (metis properties_for_sort)
qed

text \<open>
  The timeline of one job agrees with the summary. In a log in the order of time, whatever
  order the runtime gives events of the same instant, the timeline holds exactly the job's events
  in order, the waiting time printed is the one the summary counts for the job, and a job without
  one is reported as never started exactly when it was submitted.
\<close>

theorem traceJob_agrees_with_summary:
  assumes "sorted (map te_Timestamp es)" and "i \<in> te_JobID ` set es"
  shows "\<exists>line v. traceJob g es i = Timeline i line v \<and> sorted (map te_Timestamp line) \<and>
    mset line = mset (filter (\<lambda>e. te_JobID e = i) es) \<and>
    v = (case job_wait es i of
           Some (sub, st) \<Rightarrow> Waited sub st (time_sub st sub) (length (times_at ''wait_reason'' i es))
         | None \<Rightarrow> if last_time (times_at ''submitted'' i es) = zero_time then NoVerdict
                   else NeverStarted (last_time (times_at ''submitted'' i es)))"
proof -
  let ?xs = "filter (\<lambda>e. te_JobID e = i) es"
  define ys where "ys = sort_slice g te_Timestamp ?xs"
  have ne: "?xs \<noteq> []" using assms(2) by (auto simp: filter_empty_conv)
  have ys: "mset ys = mset ?xs" "sorted (map te_Timestamp ys)" by (simp_all add: ys_def sort_slice_def)
  have "sorted (map te_Timestamp ?xs)" using assms(1) by (rule sorted_filter)
  from sorted_times_unique [OF ys this]
  have t: "map te_Timestamp (filter (\<lambda>e. te_EventType e = ty) ys) = times_at ty i es" for ty
    by (simp add: times_at_def conj_commute)
  have n: "length (filter (\<lambda>e. te_EventType e = ty) ys) = length (times_at ty i es)" for ty
    using arg_cong [OF t, of length] by simp
  show ?thesis using ne ys
    by (auto simp: traceJob_def Let_def ys_def [symmetric] scan_events t n job_wait_def)
qed

definition sample_log :: "trace_event list" where
  "sample_log =
     (let e = (\<lambda>t j ty. \<lparr>te_Timestamp = t, te_JobID = j, te_EventType = ty, te_NodeName = [], te_Priority = 1,
                          te_Attempt = 0, te_Version = 0, te_Detail = []\<rparr>)
      in [e 1 ''a'' ''submitted'', e 1 ''b'' ''submitted'', e 3 ''a'' ''wait_reason'', e 7 ''a'' ''started'', e 8 ''c'' ''started''])"

theorem traceJob_agrees_with_summary_witness:
  "\<exists>line. traceJob (\<lambda>_. 0) sample_log ''a'' = Timeline ''a'' line (Waited 1 7 6 1)"
proof -
  have "sorted (map te_Timestamp sample_log)" "''a'' \<in> te_JobID ` set sample_log"
    by (simp_all add: sample_log_def)
  from traceJob_agrees_with_summary [OF this, of "\<lambda>_. 0"]
  show ?thesis by (simp add: job_wait_def times_at_def sample_log_def last_time_def zero_time_def time_sub_def) blast
qed

end
