(* ===== verification/TracerBroker.thy ===== *)
theory TracerBroker
  imports DispatcherProps TracerProps
begin

text \<open>
  The dispatcher writes a log and the tracer reads it: after a run that returned nil, the wait
  summary counts every job of the workload.
\<close>

section \<open>Who is submitted and started in a log\<close>

definition ids_of :: "string \<Rightarrow> event list \<Rightarrow> string set" where
  "ids_of typ es = ev_JobID ` {e \<in> set es. ev_EventType e = typ}"

lemma ids_of_append [simp]:
  "ids_of typ (es @ fs) = ids_of typ es \<union> ids_of typ fs"
  "ids_of typ (e # es) = (if ev_EventType e = typ then insert (ev_JobID e) (ids_of typ es) else ids_of typ es)"
  "ids_of typ [] = {}"
  by (auto simp: ids_of_def)

lemma job_event_id [simp]: "ev_JobID (job_event now job typ w d) = j_ID job"
  by (simp add: job_event_def)

definition subs :: "broker \<Rightarrow> string set" where
  "subs b = ids_of ''submitted'' (broker_log b)"

definition begun :: "broker \<Rightarrow> string set" where
  "begun b = ids_of ''started'' (broker_log b)"

lemmas log_ids = subs_def begun_def

text \<open>Every submitted job is queued or has been started, and the others are known.\<close>

definition queued :: "broker \<Rightarrow> string set" where
  "queued b = j_ID ` set_mset (queue_bag (br_queue b))"

definition held :: "broker_sys \<Rightarrow> string set" where
  "held s = j_ID ` set_mset (map_vals (br_running (bs_broker s)) + triaging_jobs s)"

definition covers :: "string set \<Rightarrow> string set \<Rightarrow> string set \<Rightarrow> string set \<Rightarrow> bool" where
  "covers S B Q R \<longleftrightarrow> S \<subseteq> Q \<union> B \<and> B \<union> Q \<subseteq> S \<and> R \<subseteq> B"

definition log_covers :: "broker_sys \<Rightarrow> bool" where
  "log_covers s \<longleftrightarrow> logging (bs_broker s) \<and>
     covers (subs (bs_broker s)) (begun (bs_broker s)) (queued (bs_broker s)) (held s)"

lemma covers_submit: "covers S B Q R \<Longrightarrow> covers (insert i S) B (insert i Q) R"
  and covers_start: "covers S B (insert i Q) R \<Longrightarrow> covers S (insert i B) Q (insert i R)"
  and covers_end: "covers S B Q (insert i R) \<Longrightarrow> covers S B Q R"
  and covers_requeue: "covers S B Q (insert i R) \<Longrightarrow> covers S B (insert i Q) R"
  by (auto simp: covers_def)

lemma Submit_log:
  "broker_Submit now job b = (None, b') \<Longrightarrow> logging b \<Longrightarrow>
   logging b' \<and> subs b' = insert (j_ID job) (subs b) \<and> begun b' = begun b"
  by (auto simp: broker_Submit_def Let_def log_ids split: option.splits if_splits)

lemma Claim_log:
  "broker_Claim now w b = (reply, b') \<Longrightarrow> logging b \<Longrightarrow>
   logging b' \<and> subs b' = subs b \<and> begun b' = (case cl_Job reply of None \<Rightarrow> begun b | Some job \<Rightarrow> insert (j_ID job) (begun b))"
  by (auto simp: broker_Claim_def Let_def log_ids split: option.splits if_splits prod.splits)

lemma Report_begin_log:
  "broker_Report_begin now args b = (r, b') \<Longrightarrow> logging b \<Longrightarrow> logging b' \<and> subs b' = subs b \<and> begun b' = begun b"
  by (auto simp: broker_Report_begin_def Let_def log_ids split: option.splits if_splits)

lemma Report_finish_log:
  "logging b \<Longrightarrow> logging (broker_Report_finish now args job d b) \<and> subs (broker_Report_finish now args job d b) = subs b \<and>
     begun (broker_Report_finish now args job d b) = begun b"
  by (simp add: broker_Report_finish_def broker_apply_decision_def broker_recordLifecycle_def Let_def log_ids)

lemma Close_log: "logging b \<Longrightarrow> logging (broker_CloseSubmissions b) \<and> subs (broker_CloseSubmissions b) = subs b \<and>
    begun (broker_CloseSubmissions b) = begun b"
  by (simp add: broker_CloseSubmissions_def log_ids)

lemma covers_step:
  assumes "broker_step s l t" and inv: "broker_inv s" and cov: "log_covers s"
  shows "log_covers t"
proof -
  have J: "jobs_inv s" using inv by (simp add: broker_inv_def)
  have q: "queue_inv (br_queue (bs_broker s))" using J by (simp add: jobs_inv_def)
  let ?b = "bs_broker s"
  have lg: "logging ?b" and c: "covers (subs ?b) (begun ?b) (queued ?b) (held s)" using cov by (simp_all add: log_covers_def)
  have held_eq: "held (s\<lparr>bs_broker := b\<rparr>) = j_ID ` set_mset (map_vals (br_running b) + triaging_jobs s)" for b
    by (simp add: held_def triaging_jobs_def)
  show ?thesis using assms(1)
  proof cases
    case (submit now job b)
    have b: "br_queue b = queue_Push (prepare_job now job) (br_queue ?b)" "br_running b = br_running ?b"
      using broker_SubmitE [OF submit(3)] by metis+
    have "queued b = insert (j_ID job) (queued ?b)" using q by (simp add: queued_def b(1) queue_bag_Push)
    moreover have "held t = held s" unfolding submit(2) held_eq b(2) by (simp add: held_def)
    ultimately show ?thesis using Submit_log [OF submit(3) lg] covers_submit [OF c] by (simp add: log_covers_def submit(2))
  next
    case (submit_rejected now job e b)
    then show ?thesis using cov broker_Submit_rejected by fastforce
  next
    case close
    have "br_running (broker_CloseSubmissions ?b) = br_running ?b" by (simp add: broker_CloseSubmissions_def)
    then have "held t = held s" unfolding close(2) held_eq by (simp add: held_def)
    moreover have "queued (broker_CloseSubmissions ?b) = queued ?b" by (simp add: broker_CloseSubmissions_def queued_def)
    ultimately show ?thesis using c Close_log [OF lg] by (simp add: log_covers_def close(2))
  next
    case (grant now worker reply b job)
    obtain popped q' where pop: "queue_Pop (br_queue ?b) = (Some popped, q')"
      and job: "job = start_job now worker popped" and b: "br_queue b = q'"
        "br_running b = map_put (j_ID popped) job (br_running ?b)"
      using broker_Claim_grantE [OF grant(3,4)] by metis
    note p = queue_Pop_Some(2) [OF q pop] and g = grant_running(2) [OF J pop job]
    have "queued ?b = insert (j_ID job) (queued b)" by (simp add: queued_def b(1) p job)
    moreover have "held t = insert (j_ID job) (held s)" unfolding grant(2) held_eq b(2) g by (simp add: held_def)
    ultimately show ?thesis using Claim_log [OF grant(3) lg] grant(4) covers_start c by (simp add: log_covers_def grant(2))
  next
    case (idle now worker reply b)
    have "queued b = queued ?b" "br_running b = br_running ?b"
      using broker_Claim_idle(1) [OF idle(3,4)] by (auto simp: queued_def)
    moreover have "held t = held s" unfolding idle(2) held_eq calculation(2) by (simp add: held_def)
    ultimately show ?thesis using Claim_log [OF idle(3) lg] idle(4) c by (simp add: log_covers_def idle(2))
  next
    case (success now args b)
    obtain job where k: "map_of (br_running ?b) (ra_JobID args) = Some job" "br_queue b = br_queue ?b"
        "br_running b = map_del (ra_JobID args) (br_running ?b)"
      using broker_Report_successE [OF success(3)] by metis
    have "held s = insert (j_ID job) (held t)"
      unfolding success(2) held_eq k(3) unfolding held_def report_takes(1) [OF J k(1)] by simp
    moreover have "queued b = queued ?b" by (simp add: queued_def k(2))
    ultimately show ?thesis using Report_begin_log [OF success(3) lg] covers_end c by (simp add: log_covers_def success(2))
  next
    case (failure now args job b)
    obtain k: "map_of (br_running ?b) (ra_JobID args) = Some job" "br_queue b = br_queue ?b"
        "br_running b = map_del (ra_JobID args) (br_running ?b)"
      using broker_Report_failureE [OF failure(3)] by metis
    have "held t = held s"
      unfolding held_def failure(2) report_takes(1) [OF J k(1)] by (simp add: triaging_jobs_def k(3))
    moreover have "queued b = queued ?b" by (simp add: queued_def k(2))
    ultimately show ?thesis using Report_begin_log [OF failure(3) lg] c by (simp add: log_covers_def failure(2))
  next
    case (unknown now args e b)
    then show ?thesis using cov broker_Report_unknown by fastforce
  next
    case (decide xs args job ys d now)
    let ?t = "broker_Report_finish now args job d ?b"
    have v: "valid_decision d" using decide by (simp add: coordinator_decision_valid)
    have h: "held s = insert (j_ID job) (held t)" by (simp add: held_def triaging_jobs_def decide(2,3))
    note l = Report_finish_log [OF lg, of now args job d]
    show ?thesis
    proof (cases "d_Action d = Escalate")
      case True
      then have "queued ?t = queued ?b" using broker_Report_finish_escalate(1) [OF True] by (simp add: queued_def)
      then show ?thesis using l c covers_end h by (simp add: log_covers_def decide(2))
    next
      case False
      then have "queued ?t = insert (j_ID job) (queued ?b)"
        using broker_Report_finish_requeue(1) [OF v False] q by (simp add: queued_def queue_bag_Push)
      then show ?thesis using l c covers_requeue h by (simp add: log_covers_def decide(2))
    qed
  qed
qed

lemma covers_reachable:
  "broker_reachable agent (Some r) s \<Longrightarrow> sink_ok r \<Longrightarrow> r_file r = [] \<Longrightarrow> log_covers s"
proof (induction rule: broker_reachable.induct)
  case init
  then show ?case
    by (simp add: log_covers_def covers_def log_ids queued_def held_def triaging_jobs_def logging_def broker_log_def init_sys_def
        NewBroker_def queue_bag_def)
next
  case (step s l t)
  then show ?case using covers_step broker_reachable_inv by blast
qed

section \<open>A run of the dispatcher\<close>

lemma submit_jobs_subs:
  "submit_jobs js b = (None, b') \<Longrightarrow> logging b \<Longrightarrow> logging b' \<and> subs b' = subs b \<union> j_ID ` snd ` set js"
proof (induction js b rule: submit_jobs.induct)
  case (2 now job rest b)
  then obtain b1 where b1: "broker_Submit now job b = (None, b1)" "submit_jobs rest b1 = (None, b')"
    by (auto split: prod.splits option.splits)
  with "2.IH" [OF b1(1) [symmetric]] Submit_log [OF b1(1) "2.prems"(2)] show ?case by auto
qed simp

lemma broker_step_subs:
  assumes "broker_step s l t" and "l \<noteq> LSubmit" and "logging (bs_broker s)"
  shows "logging (bs_broker t) \<and> subs (bs_broker t) = subs (bs_broker s)"
  using assms
  by cases (auto simp: Close_log Report_finish_log dest: Claim_log Report_begin_log broker_Submit_rejected broker_Report_unknown)

lemma disp_subs:
  "disp_reachable s0 s \<Longrightarrow> logging (bs_broker (dp_sys s0)) \<Longrightarrow>
   logging (bs_broker (dp_sys s)) \<and> subs (bs_broker (dp_sys s)) = subs (bs_broker (dp_sys s0))"
proof (induction rule: disp_reachable.induct)
  case (step s s')
  then show ?case using disp_step_broker [OF step.hyps(2)] broker_step_subs by metis
qed simp

lemma run_ids:
  assumes "start_run agent (Some r) js exe starts = Inr s0" and "distinct (map (j_ID \<circ> snd) js)" and "\<forall>(_, j) \<in> set js. j_Attempt j = 0"
    and "disp_reachable s0 s" and "dp_main s = MReturn None" and "sink_ok r" and "r_file r = []"
  shows "subs (bs_broker (dp_sys s)) = j_ID ` snd ` set js" and "begun (bs_broker (dp_sys s)) = j_ID ` snd ` set js"
proof -
  have l: "logging (NewBroker agent (Some r))" "subs (NewBroker agent (Some r)) = {}"
    using assms(6,7) by (simp_all add: logging_def NewBroker_def subs_def broker_log_def)
  obtain b where b: "submit_jobs js (NewBroker agent (Some r)) = (None, b)" "bs_broker (dp_sys s0) = broker_CloseSubmissions b"
    using assms(1) by (auto simp: start_run_def split: prod.splits option.splits sum.splits)
  have "logging (bs_broker (dp_sys s0)) \<and> subs (bs_broker (dp_sys s0)) = j_ID ` snd ` set js"
    using submit_jobs_subs [OF b(1) l(1)] Close_log [of b] by (simp add: b(2) l(2))
  then show subs: "subs (bs_broker (dp_sys s)) = j_ID ` snd ` set js" using disp_subs [OF assms(4)] by simp
  have reach: "broker_reachable agent (Some r) (dp_sys s)"
    by (rule disp_reachable_broker [OF assms(4) start_run_reachable [OF assms(1-3)]])
  have "br_done (bs_broker (dp_sys s))" using run_settled [OF assms(1-5)] by blast
  then have "live_jobs (dp_sys s) = {#}" using broker_reachable_inv [OF reach] by (simp add: broker_inv_def done_inv_def)
  then have "queued (bs_broker (dp_sys s)) = {}" by (simp add: queued_def live_jobs_def)
  then show "begun (bs_broker (dp_sys s)) = j_ID ` snd ` set js"
    using covers_reachable [OF reach assms(6,7)] subs by (auto simp: log_covers_def covers_def)
qed

section \<open>What the tracer makes of it\<close>

lemma last_time_nonzero: "zero_time \<notin> set ts \<Longrightarrow> last_time ts = zero_time \<longleftrightarrow> ts = []"
  by (auto simp: last_time_def dest: last_in_set)

lemma times_at_ids:
  "times_at ty i (map (trace_of pr) es) = [] \<longleftrightarrow> i \<notin> ids_of ty es"
  by (auto simp: times_at_def ids_of_def trace_of_def filter_empty_conv)

lemma job_wait_ids:
  assumes "zero_time \<notin> ev_Timestamp ` set es"
  shows "job_wait (map (trace_of pr) es) i \<noteq> None \<longleftrightarrow> i \<in> ids_of ''submitted'' es \<inter> ids_of ''started'' es"
proof -
  have "zero_time \<notin> set (times_at ty i (map (trace_of pr) es))" for ty
    using assms by (auto simp: times_at_def trace_of_def)
  then show ?thesis by (simp add: job_wait_def Let_def last_time_nonzero times_at_ids)
qed

lemma waits_count:
  assumes "zero_time \<notin> ev_Timestamp ` set es"
  shows "length (all_waits (map (trace_of pr) es)) = card (ids_of ''submitted'' es \<inter> ids_of ''started'' es)"
proof -
  let ?es = "map (trace_of pr) es" and ?I = "ids_of ''submitted'' es \<inter> ids_of ''started'' es"
  let ?l = "filter (\<lambda>i. job_wait ?es i \<noteq> None) (remdups (map te_JobID ?es))"
  have "?I \<subseteq> te_JobID ` set ?es" by (force simp: ids_of_def trace_of_def image_image)
  then have "set ?l = ?I" using job_wait_ids [OF assms, of pr] by auto
  then show ?thesis using distinct_card [of ?l] by (simp add: all_waits_def)
qed

text \<open>
  C21: dispatcher and tracer together. After a run with a working event log that returned nil, whatever
  workers died and however calls interleaved, the wait summary the tracer computes from that log,
  in any map order, counts exactly the jobs of the workload, provided no clock reading was the zero
  time.
\<close>

theorem tracer_counts_workload:
  assumes "start_run agent (Some r) js exe starts = Inr s0" and "distinct (map (j_ID \<circ> snd) js)" and "\<forall>(_, j) \<in> set js. j_Attempt j = 0"
    and "disp_reachable s0 s" and "dp_main s = MReturn None" and "sink_ok r" and "r_file r = []" and "js \<noteq> []"
    and "zero_time \<notin> ev_Timestamp ` set (broker_log (bs_broker (dp_sys s)))"
  shows "map_option ws_jobs (summary f g (map (trace_of pr) (broker_log (bs_broker (dp_sys s))))) = Some (length js)"
proof -
  let ?es = "broker_log (bs_broker (dp_sys s))"
  have "ids_of ''submitted'' ?es \<inter> ids_of ''started'' ?es = set (map (j_ID \<circ> snd) js)"
    using run_ids [OF assms(1-7)] by (simp add: log_ids image_image)
  then have "length (all_waits (map (trace_of pr) ?es)) = length js"
    using waits_count [OF assms(9), of pr] distinct_card [OF assms(2)] by simp
  moreover from this assms(8) have "all_waits (map (trace_of pr) ?es) \<noteq> []" by auto
  ultimately show ?thesis by (simp add: summary_is_reference summary_ref_def Let_def)
qed

theorem tracer_counts_workload_witness:
  "\<exists>s :: disp. dp_main s = MReturn None \<and>
     map_option ws_jobs (summary (\<lambda>_. 0) (\<lambda>_. 0) (map (trace_of (\<lambda>_. [])) (broker_log (bs_broker (dp_sys s))))) = Some 1"
proof -
  obtain s where s: "disp_reachable (dstate ok_b0 [] [BClaim] MSelect) s" "dp_main s = MReturn None" "bs_broker (dp_sys s) = ok_b3"
    using ok_run by blast
  have j: "distinct (map (j_ID \<circ> snd) [(10 :: time, ok_job)])" "\<forall>(_, j) \<in> set [(10 :: time, ok_job)]. j_Attempt j = 0"
    by (simp_all add: ok_job_def demo_job_def)
  have r: "sink_ok demo_recorder" "r_file demo_recorder = []" by (simp_all add: sink_ok_def demo_recorder_def)
  have "zero_time \<notin> ev_Timestamp ` set (broker_log ok_b3)" by code_simp
  then have "zero_time \<notin> ev_Timestamp ` set (broker_log (bs_broker (dp_sys s)))" by (simp add: s(3))
  from tracer_counts_workload [OF ok_facts(1) j s(1,2) r _ this, of "\<lambda>_. 0" "\<lambda>_. 0" "\<lambda>_. []"] s(2)
  show ?thesis by (intro exI [of _ s]) simp
qed

end
