(* ===== verification/DispatcherMain.thy ===== *)
theory DispatcherMain
  imports SqsRun
begin

text \<open>
  \<^verbatim>\<open>cmd/dispatcher\<close> from its arguments to its exit code: \<open>main\<close>, \<open>runWorker\<close>, \<open>runSQSWorker\<close>,
  \<open>runCoordinator\<close> and \<open>runSQSCoordinator\<close> up to the run itself, with the resources they open and the
  \<open>defer\<close> statements that close them. A function that opens something pushes its close; on every
  return path the pushed closes run, last one first. What the operating system, the database and
  the network answer is the environment; what the run ends with is any outcome that the step
  relations of the coordinators allow.
\<close>

section \<open>Resources and defers\<close>

datatype resource = Database | EventLog | Listener | Queues queues | RPCClient | Runner

datatype effect = Opened resource | Closed resource

record 'q process =
  ps_effects :: "effect list"
  ps_defers :: "resource list"
  ps_queue :: 'q

definition opens :: "resource \<Rightarrow> 'q process \<Rightarrow> 'q process" where
  "opens r p = p\<lparr>ps_effects := ps_effects p @ [Opened r]\<rparr>"

definition defer_close :: "resource \<Rightarrow> 'q process \<Rightarrow> 'q process" where
  "defer_close r p = p\<lparr>ps_defers := r # ps_defers p\<rparr>"

text \<open>Closing the queues deletes them, in the order the map is visited.\<close>

definition close_resource ::
  "string + 'q sqs_client \<Rightarrow> (nat \<Rightarrow> nat) \<Rightarrow> resource \<Rightarrow> 'q process \<Rightarrow> 'q process" where
  "close_resource client order r p =
     p\<lparr>ps_effects := ps_effects p @ [Closed r],
       ps_queue := (case (r, client) of (Queues qs, Inr sc) \<Rightarrow> queues_Delete sc order qs (ps_queue p) | _ \<Rightarrow> ps_queue p)\<rparr>"

definition run_defers :: "string + 'q sqs_client \<Rightarrow> (nat \<Rightarrow> nat) \<Rightarrow> 'q process \<Rightarrow> 'q process" where
  "run_defers client order p = (fold (close_resource client order) (ps_defers p) p)\<lparr>ps_defers := []\<rparr>"

section \<open>The worker process\<close>

text \<open>\<open>startInferenceRunner\<close>: the two pipes and the start of the Python process.\<close>

definition startInferenceRunner :: "string option \<Rightarrow> string option \<Rightarrow> string option \<Rightarrow> string option" where
  "startInferenceRunner stdin stdout start =
     (case stdin of Some e \<Rightarrow> Some e | None \<Rightarrow> (case stdout of Some e \<Rightarrow> Some e | None \<Rightarrow> start))"

record worker_flags =
  wf_broker :: string
  wf_workerID :: string
  wf_queueBackend :: string
  wf_sqs :: sqs_config

record worker_env =
  we_dial :: "string \<Rightarrow> string option"
  we_stdin :: "string option"
  we_stdout :: "string option"
  we_start :: "string option"

datatype worker_error =
    WorkerFlags string
  | MissingWorkerFlags
  | DialError string
  | OpenError sqs_error
  | RunnerError string

datatype worker_call = BrokerWorker string | SqsWorker string queues

definition start_runner :: "worker_env \<Rightarrow> worker_call \<Rightarrow> 'q process \<Rightarrow> (worker_error + worker_call) \<times> 'q process" where
  "start_runner env call p =
     (case startInferenceRunner (we_stdin env) (we_stdout env) (we_start env) of
        Some e \<Rightarrow> (Inl (RunnerError e), p)
      | None \<Rightarrow> (Inr call, defer_close Runner (opens Runner p)))"

definition prepare_sqs_worker ::
  "string + 'q sqs_client \<Rightarrow> worker_env \<Rightarrow> worker_flags \<Rightarrow> 'q process \<Rightarrow> (worker_error + worker_call) \<times> 'q process" where
  "prepare_sqs_worker client env f p0 =
     (case we_dial env (wf_broker f) of
        Some e \<Rightarrow> (Inl (DialError e), p0)
      | None \<Rightarrow>
          (let p1 = defer_close RPCClient (opens RPCClient p0) in
           case queues_Open client (wf_sqs f) (ps_queue p1) of
             (Inl e, q) \<Rightarrow> (Inl (OpenError e), p1\<lparr>ps_queue := q\<rparr>)
           | (Inr qs, q) \<Rightarrow> start_runner env (SqsWorker (wf_workerID f) qs) (p1\<lparr>ps_queue := q\<rparr>)))"

definition prepare_worker ::
  "string + 'q sqs_client \<Rightarrow> worker_env \<Rightarrow> string + worker_flags \<Rightarrow> 'q process \<Rightarrow> (worker_error + worker_call) \<times> 'q process" where
  "prepare_worker client env parsed p0 =
     (case parsed of
        Inl e \<Rightarrow> (Inl (WorkerFlags e), p0)
      | Inr f \<Rightarrow>
          (if wf_broker f = [] \<or> wf_workerID f = [] then (Inl MissingWorkerFlags, p0)
           else if wf_queueBackend f = ''sqs'' then prepare_sqs_worker client env f p0
           else (case we_dial env (wf_broker f) of
                   Some e \<Rightarrow> (Inl (DialError e), p0)
                 | None \<Rightarrow> start_runner env (BrokerWorker (wf_workerID f)) (defer_close RPCClient (opens RPCClient p0)))))"

section \<open>The coordinator\<close>

record coord_flags =
  cf_jobs :: int
  cf_workers :: int
  cf_seed :: int
  cf_failureRate :: rat
  cf_triageMode :: string
  cf_triageURL :: string
  cf_triageModel :: string
  cf_triageKey :: string
  cf_pgDSN :: string
  cf_queueBackend :: string
  cf_sqsEndpoint :: string
  cf_sqsRegion :: string
  cf_sqsPrefix :: string
  cf_sqsVisibility :: int
  cf_sqsMaxReceive :: int
  cf_sqsKeep :: bool
  cf_chaosHang :: int
  cf_chaosPoison :: int

record coord_env =
  ce_stat :: "string option"
  ce_llm :: llm_api
  ce_sqlOpen :: "string option"
  ce_ping :: "string option"
  ce_create :: "string option"
  ce_write_ok :: "nat \<Rightarrow> bool"
  ce_exec_ok :: "nat \<Rightarrow> bool"
  ce_register :: "string option"
  ce_listen :: "string option"
  ce_executable :: "string option"
  ce_now :: time
  ce_rng :: "int \<Rightarrow> rng"

datatype setup_error =
    CoordFlags string
  | BadOptions options_error
  | NoRunnerScript string
  | BadAgent agent_error
  | DatabaseError string
  | LogError string
  | UnknownBackend string
  | RegisterError string
  | ListenError string
  | QueueError sqs_error
  | WorkloadError batch_error
  | ExecutableError string

text \<open>The call of the run: what the prepared coordinator goes on with.\<close>

datatype run_call =
    BrokerRun agent "recorder option" "job list" nat "string option"
  | SqsRun agent "recorder option" queues int int "job list" nat

definition sqs_options :: "coord_flags \<Rightarrow> sqs_config" where
  "sqs_options f =
     \<lparr>c_Endpoint = cf_sqsEndpoint f, c_Region = cf_sqsRegion f, c_Prefix = cf_sqsPrefix f,
      c_VisibilityTimeout = go_mul (cf_sqsVisibility f) second, c_MaxReceiveCount = cf_sqsMaxReceive f\<rparr>"

text \<open>Registering the RPC service, and the listener, which both coordinators share.\<close>

definition listen :: "coord_env \<Rightarrow> 'q process \<Rightarrow> (setup_error + unit) \<times> 'q process" where
  "listen env p =
     (case ce_register env of
        Some e \<Rightarrow> (Inl (RegisterError e), p)
      | None \<Rightarrow>
          (case ce_listen env of
             Some e \<Rightarrow> (Inl (ListenError e), p)
           | None \<Rightarrow> (Inr (), defer_close Listener (opens Listener p))))"

definition workload :: "coord_env \<Rightarrow> coord_flags \<Rightarrow> batch_error + job list" where
  "workload env f = generateJobs (cf_jobs f) (cf_seed f) (cf_failureRate f) (ce_now env) (ce_rng env (cf_seed f))"

definition prepare_broker ::
  "coord_env \<Rightarrow> coord_flags \<Rightarrow> agent \<Rightarrow> recorder option \<Rightarrow> 'q process \<Rightarrow> (setup_error + run_call) \<times> 'q process" where
  "prepare_broker env f agent rec p0 =
     (case listen env p0 of
        (Inl e, p1) \<Rightarrow> (Inl e, p1)
      | (Inr _, p1) \<Rightarrow>
          (case workload env f of
             Inl e \<Rightarrow> (Inl (WorkloadError e), p1)
           | Inr jobs \<Rightarrow> (Inr (BrokerRun agent rec jobs (nat (cf_workers f)) (ce_executable env)), p1)))"

definition prepare_sqs ::
  "string + 'q sqs_client \<Rightarrow> coord_env \<Rightarrow> coord_flags \<Rightarrow> agent \<Rightarrow> recorder option \<Rightarrow> 'q process \<Rightarrow>
   (setup_error + run_call) \<times> 'q process" where
  "prepare_sqs client env f agent rec p0 =
     (case queues_Create client (sqs_options f) (ps_queue p0) of
        (Inl e, q) \<Rightarrow> (Inl (QueueError e), p0\<lparr>ps_queue := q\<rparr>)
      | (Inr qs, q) \<Rightarrow>
          (let p1 = opens (Queues qs) (p0\<lparr>ps_queue := q\<rparr>);
               p2 = (if cf_sqsKeep f then p1 else defer_close (Queues qs) p1)
           in case listen env p2 of
                (Inl e, p3) \<Rightarrow> (Inl e, p3)
              | (Inr _, p3) \<Rightarrow>
                  (case workload env f of
                     Inl e \<Rightarrow> (Inl (WorkloadError e), p3)
                   | Inr jobs \<Rightarrow>
                       (case ce_executable env of
                          Some e \<Rightarrow> (Inl (ExecutableError e), p3)
                        | None \<Rightarrow> (Inr (SqsRun agent rec qs (cf_chaosPoison f) (cf_chaosHang f) jobs
                                         (nat (cf_workers f))), p3)))))"

text \<open>The database: opened when a DSN is given; its close is deferred only once the ping has succeeded.\<close>

definition open_database :: "coord_env \<Rightarrow> coord_flags \<Rightarrow> 'q process \<Rightarrow> (setup_error + bool) \<times> 'q process" where
  "open_database env f p =
     (if cf_pgDSN f = [] then (Inr False, p)
      else (case ce_sqlOpen env of
              Some e \<Rightarrow> (Inl (DatabaseError e), p)
            | None \<Rightarrow>
                (case ce_ping env of
                   Some e \<Rightarrow> (Inl (DatabaseError e), opens Database p)
                 | None \<Rightarrow> (Inr True, defer_close Database (opens Database p)))))"

definition prepare_backend ::
  "string + 'q sqs_client \<Rightarrow> coord_env \<Rightarrow> coord_flags \<Rightarrow> agent \<Rightarrow> recorder option \<Rightarrow> 'q process \<Rightarrow>
   (setup_error + run_call) \<times> 'q process" where
  "prepare_backend client env f agent rec p =
     (if cf_queueBackend f = ''sqs'' then prepare_sqs client env f agent rec p
      else if cf_queueBackend f \<noteq> ''broker'' then (Inl (UnknownBackend (cf_queueBackend f)), p)
      else prepare_broker env f agent rec p)"

definition prepare_coordinator ::
  "string + 'q sqs_client \<Rightarrow> coord_env \<Rightarrow> string + coord_flags \<Rightarrow> 'q process \<Rightarrow> (setup_error + run_call) \<times> 'q process" where
  "prepare_coordinator client env parsed p0 =
     (case parsed of Inl e \<Rightarrow> (Inl (CoordFlags e), p0) | Inr f \<Rightarrow>
      case check_options (cf_jobs f) (cf_workers f) (cf_failureRate f) of
        Some e \<Rightarrow> (Inl (BadOptions e), p0)
      | None \<Rightarrow>
          (case ce_stat env of Some e \<Rightarrow> (Inl (NoRunnerScript e), p0) | None \<Rightarrow>
           case buildAgent (ce_llm env) (cf_triageMode f) (cf_triageURL f) (cf_triageKey f) (cf_triageModel f) of
             Inl e \<Rightarrow> (Inl (BadAgent e), p0)
           | Inr agent \<Rightarrow>
               (case open_database env f p0 of (Inl e, p1) \<Rightarrow> (Inl e, p1) | (Inr with_db, p1) \<Rightarrow>
                case NewRecorder (ce_create env = None) with_db (ce_write_ok env) (ce_exec_ok env) of
                  None \<Rightarrow> (Inl (LogError (case ce_create env of None \<Rightarrow> [] | Some e \<Rightarrow> e)), p1)
                | Some rec \<Rightarrow> prepare_backend client env f agent (Some rec) (defer_close EventLog (opens EventLog p1)))))"

section \<open>The run and the exit code\<close>

datatype run_failure = NotStarted start_error | WorkersFailed string | SqsFailed run_error

text \<open>What a run may end with, by the step relations of the two coordinators.\<close>

fun call_outcome :: "run_call \<Rightarrow> run_failure option \<Rightarrow> bool" where
  "call_outcome (BrokerRun agent rec jobs n exe) r \<longleftrightarrow>
     (\<exists>clock starts. length clock = length jobs \<and> length starts = n \<and>
        (case start_run agent rec (zip clock jobs) exe starts of
           Inl e \<Rightarrow> r = Some (NotStarted e)
         | Inr s0 \<Rightarrow> \<exists>s x. disp_reachable s0 s \<and> dp_main s = MReturn x \<and> r = map_option WorkersFailed x))"
| "call_outcome (SqsRun agent rec qs p h jobs n) r \<longleftrightarrow>
     (\<exists>s x. run_reachable n (start_sqs agent rec qs p h jobs) s \<and> rn_main s = CReturn x \<and> r = map_option SqsFailed x)"

datatype coord_result = SetupFailed setup_error | Ran "run_failure option"

definition runCoordinator ::
  "string + 'q sqs_client \<Rightarrow> (nat \<Rightarrow> nat) \<Rightarrow> coord_env \<Rightarrow> string + coord_flags \<Rightarrow> 'q process \<Rightarrow>
   coord_result \<Rightarrow> 'q process \<Rightarrow> bool" where
  "runCoordinator client order env parsed p0 r p' \<longleftrightarrow>
     (case prepare_coordinator client env parsed p0 of
        (Inl e, p1) \<Rightarrow> r = SetupFailed e \<and> p' = run_defers client order p1
      | (Inr call, p1) \<Rightarrow> (\<exists>x q. call_outcome call x \<and> r = Ran x \<and> p' = run_defers client order (p1\<lparr>ps_queue := q\<rparr>)))"

text \<open>\<open>runWorker\<close> with the value its loop returned.\<close>

definition runWorker ::
  "string + 'q sqs_client \<Rightarrow> (nat \<Rightarrow> nat) \<Rightarrow> worker_env \<Rightarrow> string + worker_flags \<Rightarrow> (worker_call \<Rightarrow> string option) \<Rightarrow>
   'q process \<Rightarrow> (worker_error + string option) \<times> 'q process" where
  "runWorker client order env parsed loop p0 =
     (case prepare_worker client env parsed p0 of
        (Inl e, p1) \<Rightarrow> (Inl e, run_defers client order p1)
      | (Inr call, p1) \<Rightarrow> (Inr (loop call), run_defers client order p1))"

text \<open>\<open>main\<close>: the first argument decides which of the two runs; an error means exit code 1.\<close>

datatype mode = WorkerMode "string list" | CoordinatorMode "string list"

definition mode_of :: "string list \<Rightarrow> mode" where
  "mode_of args =
     (case args of [] \<Rightarrow> CoordinatorMode [] | a # rest \<Rightarrow> if a = ''worker'' then WorkerMode rest else CoordinatorMode args)"

definition exit_code :: "bool \<Rightarrow> int" where
  "exit_code failed = (if failed then 1 else 0)"

fun coord_failed :: "coord_result \<Rightarrow> bool" where
  "coord_failed (SetupFailed e) = True"
| "coord_failed (Ran x) = (x \<noteq> None)"

fun worker_failed :: "worker_error + string option \<Rightarrow> bool" where
  "worker_failed (Inl e) = True"
| "worker_failed (Inr x) = (x \<noteq> None)"

definition dispatcher_main ::
  "string + 'q sqs_client \<Rightarrow> (nat \<Rightarrow> nat) \<Rightarrow> worker_env \<Rightarrow> coord_env \<Rightarrow> (string list \<Rightarrow> string + worker_flags) \<Rightarrow>
   (string list \<Rightarrow> string + coord_flags) \<Rightarrow> (worker_call \<Rightarrow> string option) \<Rightarrow> string list \<Rightarrow> 'q process \<Rightarrow> int \<Rightarrow> 'q process \<Rightarrow> bool" where
  "dispatcher_main client order wenv cenv parse_worker parse_coord loop args p0 code p' \<longleftrightarrow>
     (case mode_of args of
        WorkerMode rest \<Rightarrow>
          (case runWorker client order wenv (parse_worker rest) loop p0 of
             (r, p1) \<Rightarrow> code = exit_code (worker_failed r) \<and> p' = p1)
      | CoordinatorMode all \<Rightarrow>
          (\<exists>r. runCoordinator client order cenv (parse_coord all) p0 r p' \<and> code = exit_code (coord_failed r)))"

end
