(* ===== verification/DispatcherMainProps.thy ===== *)
theory DispatcherMainProps
  imports DispatcherMain SqsRunProps
begin

text \<open>
  The properties of the dispatcher as a command: whatever it opens it closes, on every return path,
  with two exceptions that are named; and exit code 0 of the coordinator means that every job of
  the workload is settled, for both back ends.
\<close>

section \<open>Open and closed\<close>

text \<open>What is open after some effects; \<^term>\<open>None\<close> if something is closed that was not open.\<close>

fun still_open :: "resource list \<Rightarrow> effect list \<Rightarrow> resource list option" where
  "still_open rs [] = Some rs"
| "still_open rs (Opened r # es) = still_open (r # rs) es"
| "still_open rs (Closed r # es) = (if r \<in> set rs then still_open (remove1 r rs) es else None)"

lemma still_open_append:
  "still_open rs (es @ fs) = (case still_open rs es of None \<Rightarrow> None | Some rs' \<Rightarrow> still_open rs' fs)"
  by (induction rs es rule: still_open.induct) simp_all

text \<open>The pushed closes cover all that is open but \<open>due\<close>.\<close>

definition owes :: "resource multiset \<Rightarrow> 'q process \<Rightarrow> bool" where
  "owes due p \<longleftrightarrow> (\<exists>rs. still_open [] (ps_effects p) = Some rs \<and> mset rs = mset (ps_defers p) + due)"

definition fresh_process :: "'q \<Rightarrow> 'q process" where
  "fresh_process q = \<lparr>ps_effects = [], ps_defers = [], ps_queue = q\<rparr>"

lemma owes_fresh: "owes {#} (fresh_process q)"
  by (simp add: owes_def fresh_process_def)

lemma owes_queue [simp]: "owes due (p\<lparr>ps_queue := q\<rparr>) = owes due p"
  by (simp add: owes_def)

lemma owes_opens: "owes due p \<Longrightarrow> owes (add_mset r due) (opens r p)"
  by (auto simp: owes_def opens_def still_open_append)

lemma owes_deferred: "owes (add_mset r due) p \<Longrightarrow> owes due (defer_close r p)"
  by (auto simp: owes_def defer_close_def)

lemma owes_both: "owes due p \<Longrightarrow> owes due (defer_close r (opens r p))"
  by (intro owes_deferred owes_opens)

lemma effects_run_defers: "ps_effects (run_defers client order p) = ps_effects p @ map Closed (ps_defers p)"
proof -
  have "ps_effects (fold (close_resource client order) ds p) = ps_effects p @ map Closed ds" for ds
    by (induction ds arbitrary: p) (simp_all add: close_resource_def)
  then show ?thesis by (simp add: run_defers_def)
qed

lemma still_open_closes:
  "mset rs = mset ds + due \<Longrightarrow> \<exists>left. still_open rs (map Closed ds) = Some left \<and> mset left = due"
proof (induction ds arbitrary: rs)
  case (Cons d ds)
  then have "d \<in> set rs" "mset (remove1 d rs) = mset ds + due" by (auto simp flip: set_mset_mset)
  then show ?case using Cons.IH by simp
qed simp

lemma owes_run_defers:
  assumes "owes due p"
  shows "\<exists>left. still_open [] (ps_effects (run_defers client order p)) = Some left \<and> mset left = due"
proof -
  obtain rs where rs: "still_open [] (ps_effects p) = Some rs" "mset rs = mset (ps_defers p) + due"
    using assms by (auto simp: owes_def)
  then show ?thesis using still_open_closes [OF rs(2)] by (simp add: effects_run_defers still_open_append)
qed

text \<open>The preparations.\<close>

lemma listen_owes: "listen env p = (x, p') \<Longrightarrow> owes due p \<Longrightarrow> owes due p'"
  by (auto simp: listen_def owes_both split: option.splits)

lemma prepare_broker_owes: "prepare_broker env f agent rec p = (x, p') \<Longrightarrow> owes due p \<Longrightarrow> owes due p'"
  by (auto simp: prepare_broker_def dest: listen_owes split: prod.splits sum.splits)

lemma prepare_sqs_owes:
  assumes "prepare_sqs client env f agent rec p = (x, p')" and "owes {#} p"
  shows "\<exists>due. owes due p' \<and> (due = {#} \<or> (cf_sqsKeep f \<and> (\<exists>qs. due = {#Queues qs#})))"
proof -
  obtain a q where c: "queues_Create client (sqs_options f) (ps_queue p) = (a, q)" by fastforce
  show ?thesis
  proof (cases a)
    case (Inl e)
    then show ?thesis using assms c by (auto simp: prepare_sqs_def)
  next
    case (Inr qs)
    let ?p1 = "opens (Queues qs) (p\<lparr>ps_queue := q\<rparr>)" and ?k = "if cf_sqsKeep f then {#Queues qs#} else {#}"
    define p2 where "p2 = (if cf_sqsKeep f then ?p1 else defer_close (Queues qs) ?p1)"
    have "owes {#Queues qs#} ?p1" using assms(2) owes_opens [of "{#}" "p\<lparr>ps_queue := q\<rparr>" "Queues qs"] by simp
    then have "owes ?k p2" by (simp add: p2_def owes_deferred)
    moreover obtain y p3 where l: "listen env p2 = (y, p3)" by fastforce
    ultimately have "owes ?k p3" by (rule listen_owes [rotated])
    moreover have "p' = p3" using assms(1) l
      by (auto simp: prepare_sqs_def c Inr Let_def p2_def split: sum.splits option.splits)
    ultimately show ?thesis by (intro exI [of _ ?k]) auto
  qed
qed

lemma open_database_owes:
  assumes "open_database env f p = (x, p')" and "owes {#} p"
  shows "owes {#} p' \<or> (owes {#Database#} p' \<and> (\<exists>e. x = Inl (DatabaseError e) \<and> ce_ping env = Some e))"
  using assms owes_opens [OF assms(2), of Database] owes_both [OF assms(2), of Database]
  by (auto simp: open_database_def split: option.splits if_splits)

lemma prepare_backend_owes:
  assumes "prepare_backend client env f agent rec p = (x, p')" and "owes {#} p"
  shows "\<exists>due. owes due p' \<and> (due = {#} \<or> (cf_sqsKeep f \<and> (\<exists>qs. due = {#Queues qs#})))"
proof (cases "cf_queueBackend f = ''sqs''")
  case True
  then show ?thesis using assms prepare_sqs_owes by (simp add: prepare_backend_def)
next
  case False
  then have "owes {#} p'" using assms prepare_broker_owes by (auto simp: prepare_backend_def split: if_splits)
  then show ?thesis by blast
qed

definition may_stay :: "coord_env \<Rightarrow> string + coord_flags \<Rightarrow> (setup_error + 'c) \<Rightarrow> resource multiset \<Rightarrow> bool" where
  "may_stay env parsed x due \<longleftrightarrow> due = {#} \<or> (due = {#Database#} \<and> (\<exists>e. x = Inl (DatabaseError e) \<and> ce_ping env = Some e)) \<or>
    (\<exists>f qs. parsed = Inr f \<and> cf_sqsKeep f \<and> due = {#Queues qs#})"

lemma prepare_coordinator_owes:
  assumes "prepare_coordinator client env parsed p = (x, p')" and "owes {#} p"
  shows "\<exists>due. owes due p' \<and> may_stay env parsed x due"
proof (cases parsed)
  case (Inl e)
  then show ?thesis using assms unfolding prepare_coordinator_def may_stay_def by auto
next
  case (Inr f)
  obtain y p1 where db: "open_database env f p = (y, p1)" by fastforce
  have stop: "\<exists>due. owes due p' \<and> may_stay env parsed x due" if "p' = p"
    using assms(2) that unfolding may_stay_def by blast
  show ?thesis
  proof (cases y)
    case (Inl e)
    then have "p' = p \<or> (p' = p1 \<and> x = Inl e)" using assms(1) db unfolding prepare_coordinator_def Inr
      by (auto split: option.splits sum.splits)
    then show ?thesis using stop open_database_owes [OF db assms(2)] Inl unfolding may_stay_def by blast
  next
    case y: (Inr b)
    then have p1: "owes {#} p1" using open_database_owes [OF db assms(2)] by simp
    consider "p' = p" | "p' = p1"
      | agent rec where "prepare_backend client env f agent rec (defer_close EventLog (opens EventLog p1)) = (x, p')"
      using assms(1) db y unfolding prepare_coordinator_def Inr by (auto split: option.splits sum.splits)
    then show ?thesis
    proof cases
      case 3
      from prepare_backend_owes [OF this owes_both [OF p1]] show ?thesis unfolding may_stay_def Inr by blast
    qed (use stop p1 in \<open>auto simp: may_stay_def\<close>)
  qed
qed

lemma prepare_worker_owes:
  assumes "prepare_worker client env parsed p = (x, p')" and "owes {#} p"
  shows "owes {#} p'"
proof -
  have r: "owes {#} p'" if "start_runner env call q = (x, p')" "owes {#} q" for call q
    using that by (auto simp: start_runner_def owes_both split: option.splits)
  then show ?thesis using assms
    by (auto simp: prepare_worker_def prepare_sqs_worker_def owes_both Let_def
        split: sum.splits option.splits if_splits prod.splits)
qed

lemma left_single: "mset xs = {#x#} \<longleftrightarrow> xs = [x]"
  by (metis mset_single_iff)


section \<open>Exit code 0\<close>

text \<open>What is left behind by a run that has settled all its jobs.\<close>

definition broker_settled :: "job list \<Rightarrow> broker \<Rightarrow> bool" where
  "broker_settled jobs b \<longleftrightarrow> br_done b \<and> st_Submitted (br_stats b) = length jobs \<and>
     st_Succeeded (br_stats b) + st_Escalated (br_stats b) = length jobs"

definition coord_settled :: "job list \<Rightarrow> sqs_coord \<Rightarrow> bool" where
  "coord_settled jobs c \<longleftrightarrow> co_done c \<and> fst ` set (co_terminal c) = j_ID ` set jobs \<and>
     ss_Succeeded (co_stats c) + ss_Escalated (co_stats c) + ss_DeadLettered (co_stats c) = length jobs"

fun call_jobs :: "run_call \<Rightarrow> job list" where
  "call_jobs (BrokerRun agent rec jobs n exe) = jobs"
| "call_jobs (SqsRun agent rec qs p h jobs n) = jobs"

text \<open>The run of a call has ended, and settled all jobs.\<close>

fun call_settled :: "run_call \<Rightarrow> bool" where
  "call_settled (BrokerRun agent rec jobs n exe) \<longleftrightarrow>
     (\<exists>clock starts s0 s. start_run agent rec (zip clock jobs) exe starts = Inr s0 \<and> length starts = n \<and>
        disp_reachable s0 s \<and> dp_main s = MReturn None \<and> broker_settled jobs (bs_broker (dp_sys s)))"
| "call_settled (SqsRun agent rec qs p h jobs n) \<longleftrightarrow>
     (\<exists>s. run_reachable n (start_sqs agent rec qs p h jobs) s \<and> rn_main s = CReturn None \<and>
        coord_settled jobs (sy_coord (rn_sys s)))"

lemma workload_good: "workload env f = Inr jobs \<Longrightarrow>
  length jobs = nat (cf_jobs f) \<and> distinct (map j_ID jobs) \<and> list_all (\<lambda>j. j_Attempt j = 0) jobs"
proof -
  assume w: "workload env f = Inr jobs"
  obtain js where js: "generate_from (cf_seed f) (cf_failureRate f) (ce_now env) [0..<nat (cf_jobs f)] (ce_rng env (cf_seed f)) = Inr js"
    "list_all2 good_job [0..<nat (cf_jobs f)] js" using generate_from_good by blast
  then have "jobs = js" using w by (simp add: workload_def generateJobs_def)
  moreover have "list_all (\<lambda>j. j_Attempt j = 0) js"
    using js(2) by (induction rule: list_all2_induct) (simp_all add: good_job_def)
  ultimately show ?thesis using good_jobs_distinct [OF js(2)] list_all2_lengthD [OF js(2)] by simp
qed

lemma prepared_workload:
  assumes "prepare_coordinator client env parsed p = (Inr call, p')"
  shows "\<exists>f. parsed = Inr f \<and> check_options (cf_jobs f) (cf_workers f) (cf_failureRate f) = None \<and>
    workload env f = Inr (call_jobs call)"
proof -
  have broker: "workload env f = Inr (call_jobs call)" if "prepare_broker env f agent rec q = (Inr call, p')" for f agent rec q
    using that by (auto simp: prepare_broker_def split: prod.splits sum.splits)
  have sqs: "workload env f = Inr (call_jobs call)" if "prepare_sqs client env f agent rec q = (Inr call, p')" for f agent rec q
    using that by (auto simp: prepare_sqs_def Let_def split: prod.splits sum.splits option.splits)
  show ?thesis using assms unfolding prepare_coordinator_def
    by (auto simp: prepare_backend_def split: sum.splits option.splits prod.splits if_splits dest: broker sqs)
qed

lemma call_outcome_settled:
  assumes "call_outcome call None" and "distinct (map j_ID (call_jobs call))" and "list_all (\<lambda>j. j_Attempt j = 0) (call_jobs call)"
  shows "call_settled call"
proof (cases call)
  case (BrokerRun agent rec jobs n exe)
  obtain clock starts where c: "length clock = length jobs" "length starts = n"
    and r: "case start_run agent rec (zip clock jobs) exe starts of Inl e \<Rightarrow> None = Some (NotStarted e)
      | Inr s0 \<Rightarrow> \<exists>s x. disp_reachable s0 s \<and> dp_main s = MReturn x \<and> None = map_option WorkersFailed x"
    using assms(1) unfolding BrokerRun call_outcome.simps by blast
  obtain s0 where s0: "start_run agent rec (zip clock jobs) exe starts = Inr s0" using r by (auto split: sum.splits)
  then obtain s where s: "disp_reachable s0 s" "dp_main s = MReturn None" using r by auto
  have d: "distinct (map (j_ID \<circ> snd) (zip clock jobs))"
    using assms(2) c(1) by (simp add: BrokerRun flip: map_map)
  have a: "\<forall>(_, j) \<in> set (zip clock jobs). j_Attempt j = 0"
    using assms(3) by (auto simp: BrokerRun list_all_iff dest: set_zip_rightD)
  have "broker_settled jobs (bs_broker (dp_sys s))"
    using run_settled [OF s0 d a s] c(1) by (simp add: broker_settled_def)
  then show ?thesis unfolding BrokerRun call_settled.simps using s0 s c(2) by blast
next
  case (SqsRun agent rec qs p h jobs n)
  then obtain s where s: "run_reachable n (start_sqs agent rec qs p h jobs) s" "rn_main s = CReturn None"
    using assms(1) by auto
  have "coord_settled jobs (sy_coord (rn_sys s))"
    using sqs_run_settled [OF s(1) _ s(2)] assms(2) by (simp add: SqsRun coord_settled_def)
  then show ?thesis unfolding SqsRun call_settled.simps using s by blast
qed

text \<open>
  C9: exit code 0 of the coordinator means that the whole workload is settled. If \<open>main\<close> exits with
  0 in coordinator mode, then the flags were parsed and accepted, the back end was prepared with a
  workload of exactly the requested number of jobs, at least one, and its run ended with every one
  of them succeeded, escalated or, with SQS, dead-lettered.
\<close>

theorem dispatcher_exit_zero:
  assumes "dispatcher_main client order wenv env parse_worker parse_coord loop args p 0 p'"
    and "mode_of args = CoordinatorMode all"
  shows "\<exists>f call p1. parse_coord all = Inr f \<and> prepare_coordinator client env (Inr f) p = (Inr call, p1) \<and>
    workload env f = Inr (call_jobs call) \<and> int (length (call_jobs call)) = cf_jobs f \<and> 1 \<le> cf_jobs f \<and> call_settled call"
proof -
  obtain r where r: "runCoordinator client order env (parse_coord all) p r p'" "\<not> coord_failed r"
    using assms unfolding dispatcher_main_def by (auto simp: exit_code_def split: if_splits)
  obtain x p1 where prep: "prepare_coordinator client env (parse_coord all) p = (x, p1)" by fastforce
  show ?thesis
  proof (cases x)
    case (Inl e)
    then show ?thesis using r prep by (simp add: runCoordinator_def)
  next
    case (Inr call)
    then have out: "call_outcome call None" using r prep unfolding runCoordinator_def by auto
    obtain f where f: "parse_coord all = Inr f" "check_options (cf_jobs f) (cf_workers f) (cf_failureRate f) = None"
      "workload env f = Inr (call_jobs call)"
      using prepared_workload prep Inr by blast
    have "1 \<le> cf_jobs f" using f(2) by (auto simp: check_options_def split: if_splits)
    moreover have "call_settled call" using call_outcome_settled [OF out] workload_good [OF f(3)] by blast
    ultimately show ?thesis using f prep Inr workload_good [OF f(3)] by (intro exI [of _ f] exI [of _ call]) auto
  qed
qed

section \<open>Witnesses\<close>

text \<open>One job, one worker, the in-process broker; the job is the one of the concrete run.\<close>

definition demo_flags :: coord_flags where
  "demo_flags =
     \<lparr>cf_jobs = 1, cf_workers = 1, cf_seed = 42, cf_failureRate = 0, cf_triageMode = ''policy'', cf_triageURL = [],
      cf_triageModel = [], cf_triageKey = [], cf_pgDSN = [], cf_queueBackend = ''broker'', cf_sqsEndpoint = [],
      cf_sqsRegion = ''us-east-1'', cf_sqsPrefix = ''sched'', cf_sqsVisibility = 30, cf_sqsMaxReceive = 3,
      cf_sqsKeep = False, cf_chaosHang = 0, cf_chaosPoison = 0\<rparr>"

definition demo_env :: coord_env where
  "demo_env =
     \<lparr>ce_stat = None, ce_llm = big_api, ce_sqlOpen = None, ce_ping = Some ''connection refused'', ce_create = None,
      ce_write_ok = \<lambda>_. True, ce_exec_ok = \<lambda>_. True, ce_register = None, ce_listen = None, ce_executable = None,
      ce_now = 5, ce_rng = \<lambda>_. \<lparr>rg_raw = \<lambda>k. if k = 3 then 2 else 1, rg_pos = 0\<rparr>\<rparr>"

definition demo_worker_env :: worker_env where
  "demo_worker_env = \<lparr>we_dial = \<lambda>_. None, we_stdin = None, we_stdout = None, we_start = None\<rparr>"

abbreviation demo_call :: run_call where
  "demo_call \<equiv> BrokerRun policy_Decide (Some demo_recorder) [ok_job] 1 None"

lemma demo_workload: "workload demo_env demo_flags = Inr [ok_job]"
  by code_simp

lemma demo_listen: "listen demo_env p = (Inr (), defer_close Listener (opens Listener p))"
  by (simp add: listen_def demo_env_def)

lemma demo_prepared:
  "prepare_coordinator client demo_env (Inr demo_flags) (fresh_process q) =
     (Inr demo_call, defer_close Listener (opens Listener (defer_close EventLog (opens EventLog (fresh_process q)))))"
proof -
  have "NewRecorder True False (ce_write_ok demo_env) (ce_exec_ok demo_env) = Some demo_recorder"
    by (simp add: NewRecorder_def demo_env_def demo_recorder_def)
  moreover have "check_options (cf_jobs demo_flags) (cf_workers demo_flags) (cf_failureRate demo_flags) = None"
    "buildAgent (ce_llm demo_env) (cf_triageMode demo_flags) (cf_triageURL demo_flags) (cf_triageKey demo_flags)
       (cf_triageModel demo_flags) = Inr policy_Decide"
    "cf_pgDSN demo_flags = []" "cf_queueBackend demo_flags = ''broker''" "cf_workers demo_flags = 1"
    by (simp_all add: demo_flags_def check_options_def buildAgent_def)
  moreover have "ce_stat demo_env = None" "ce_create demo_env = None" "ce_executable demo_env = None"
    by (simp_all add: demo_env_def)
  ultimately show ?thesis
    by (simp add: prepare_coordinator_def prepare_backend_def prepare_broker_def open_database_def demo_workload demo_listen)
qed

lemma demo_outcome: "call_outcome demo_call None"
proof -
  obtain s where s: "disp_reachable (dstate ok_b0 [] [BClaim] MSelect) s" "dp_main s = MReturn None" using ok_run by blast
  then show ?thesis using ok_facts(1)
    by (simp del: One_nat_def) (rule exI [of _ "[10]"], auto intro!: exI [of _ "[None]"])
qed

theorem dispatcher_exit_zero_witness:
  "\<exists>call p1. prepare_coordinator (Inl []) demo_env (Inr demo_flags) (fresh_process ()) = (Inr call, p1) \<and>
     length (call_jobs call) = 1 \<and> call_settled call"
proof -
  obtain p' where "runCoordinator (Inl []) (\<lambda>_. 0) demo_env (Inr demo_flags) (fresh_process ()) (Ran None) p'"
    using demo_outcome by (simp add: runCoordinator_def demo_prepared del: call_outcome.simps)
  then have "dispatcher_main (Inl []) (\<lambda>_. 0) demo_worker_env demo_env (\<lambda>_. Inl []) (\<lambda>_. Inr demo_flags) (\<lambda>_. None) []
      (fresh_process ()) 0 p'"
    by (auto simp: dispatcher_main_def mode_of_def exit_code_def intro: exI [of _ "Ran None"])
  moreover have "mode_of [] = CoordinatorMode []" by (simp add: mode_of_def)
  ultimately show ?thesis using dispatcher_exit_zero [of "Inl []" "\<lambda>_. 0" demo_worker_env demo_env "\<lambda>_. Inl []" "\<lambda>_. Inr demo_flags"
        "\<lambda>_. None" "[]" "fresh_process ()" p' "[]"]
    by (auto simp: demo_flags_def)
qed


end
