(* ===== verification/DevicesMain.thy ===== *)
theory DevicesMain
  imports DevicesInv "HOL-Library.Word"
begin

unbundle bit_operations_syntax

text \<open>
  \<^verbatim>\<open>cmd/devices/main.go\<close>: the fleet the command builds, its fault injection, and the scripted
  demo: a configuration for every device, a newer one for half of them while the first is being
  delivered, and the final table. The random numbers of the fault injection are those of the
  \<open>send_world\<close>; the two sleeps of the demo are runs of the push loops.
\<close>

section \<open>Building the fleet\<close>

text \<open>
  \<open>roll\<close> asks the generator only when the rate is positive. The number of a \<open>send_world\<close> holds
  the two draws of one \<open>Send\<close>, one for the push and one for the acknowledgement.
\<close>

definition roll :: "rat \<Rightarrow> int \<Rightarrow> bool" where
  "roll p draw = (if p \<le> 0 then False else of_int (draw mod 2 ^ 53) / 2 ^ 53 < p)"

definition fault_net :: "rat \<Rightarrow> rat \<Rightarrow> network" where
  "fault_net dropPush dropAck =
     NewSimNetwork\<lparr>nt_DropPush := Some (\<lambda>w _ _ _. roll dropPush (w_roll w)),
       nt_DropAck := Some (\<lambda>w _ _ _. roll dropAck (w_roll w div 2 ^ 53)), nt_Latency := 5 * millisecond\<rparr>"

definition device_id :: "nat \<Rightarrow> string" where
  "device_id i = ''cam-'' @ pad2 (i + 1)"

fun add_devices :: "string list \<Rightarrow> network \<Rightarrow> registry \<Rightarrow> registry_error option \<times> network \<times> registry" where
  "add_devices [] net reg = (None, net, reg)"
| "add_devices (i # rest) net reg =
     (case registry_Register i reg of
        (Some e, reg1) \<Rightarrow> (Some e, network_AddDevice i net, reg1)
      | (None, reg1) \<Rightarrow> add_devices rest (network_AddDevice i net) reg1)"

definition build_fleet ::
  "nat \<Rightarrow> rat \<Rightarrow> rat \<Rightarrow> recorder option \<Rightarrow> options \<Rightarrow> registry_error option \<times> network \<times> registry" where
  "build_fleet n dropPush dropAck rec opts =
     add_devices (map device_id [0..<n]) (fault_net dropPush dropAck) (NewRegistry rec opts)"

section \<open>The demo\<close>

text \<open>32-bit FNV-1a, as \<^verbatim>\<open>hash/fnv\<close> documents it.\<close>

definition fnv32a :: "string \<Rightarrow> 32 word" where
  "fnv32a s = fold (\<lambda>c h. (h XOR of_nat (of_char c)) * 16777619) s 2166136261"

definition first_config :: "string \<Rightarrow> config" where
  "first_config i = Some [(''fps'', ''30''), (''profile'', itoa (uint (fnv32a i mod 3)))]"

definition second_config :: config where
  "second_config = Some [(''fps'', ''60''), (''night_mode'', ''on'')]"

definition call_SetConfig :: "time \<Rightarrow> string \<Rightarrow> config \<Rightarrow> 'n dev_sys \<Rightarrow> 'n dev_sys" where
  "call_SetConfig now i cfg s =
     (case registry_SetConfig now i cfg (dy_reg s) of
        (_, started, r) \<Rightarrow> s\<lparr>dy_reg := r, dy_loops := start_loop started i (dy_loops s)\<rparr>)"

text \<open>
  The calls are made one after the other while the push loops run: before each call, and after
  the last, the loops take any number of steps.
\<close>

inductive demo_round ::
  "('w \<Rightarrow> push \<Rightarrow> 'n \<Rightarrow> (string + ack) \<times> 'n) \<Rightarrow> (string \<Rightarrow> config) \<Rightarrow> string list \<Rightarrow> 'n dev_sys \<Rightarrow> 'n dev_sys \<Rightarrow> bool"
  for send cfg where
  round_end: "loop_run send k s s' \<Longrightarrow> demo_round send cfg [] s s'"
| round_call: "loop_run send k s s1 \<Longrightarrow> demo_round send cfg ids (call_SetConfig now i (cfg i) s1) s' \<Longrightarrow>
    demo_round send cfg (i # ids) s s'"

text \<open>\<open>runDemo\<close> up to the return of \<open>WaitSettled\<close>: the first round and the sleep, the second round and the wait.\<close>

inductive run_demo ::
  "('w \<Rightarrow> push \<Rightarrow> 'n \<Rightarrow> (string + ack) \<times> 'n) \<Rightarrow> string list \<Rightarrow> 'n dev_sys \<Rightarrow> 'n dev_sys \<Rightarrow> bool"
  for send ids where
  settled: "demo_round send first_config ids s s1 \<Longrightarrow>
    demo_round send (\<lambda>_. second_config) (take (length ids div 2) ids) s1 s' \<Longrightarrow>
    registry_settled (dy_reg s') \<Longrightarrow> run_demo send ids s s'"

text \<open>A row: the status, and the version, applied count and pushes seen of the device.\<close>

definition demo_table :: "network dev_sys \<Rightarrow> (status \<times> (int \<times> int \<times> int) option) list" where
  "demo_table s =
     map (\<lambda>st. (st, map_option (\<lambda>d. (sd_version d, sd_applies d, sd_received d))
       (map_of (nt_devices (dy_net s)) (sx_ID st)))) (registry_List (dy_reg s))"

text \<open>\<open>reg.List()[0]\<close>: \<^term>\<open>None\<close> is the panic of an empty fleet.\<close>

definition demo_sample :: "network dev_sys \<Rightarrow> status option" where
  "demo_sample s = (case registry_List (dy_reg s) of [] \<Rightarrow> None | st # _ \<Rightarrow> Some st)"

section \<open>Lemmas\<close>

definition fleet :: "network \<Rightarrow> registry \<Rightarrow> network dev_sys" where
  "fleet net reg = \<lparr>dy_reg = reg, dy_net = net, dy_loops = []\<rparr>"

lemma add_devices_ok:
  "distinct ids \<Longrightarrow> \<forall>i \<in> set ids. map_of (rg_devs reg) i = None \<Longrightarrow>
   \<exists>net' reg'. add_devices ids net reg = (None, net', reg') \<and>
     map_of (rg_devs reg') = (\<lambda>i. if i \<in> set ids then Some (new_entry i) else map_of (rg_devs reg) i) \<and>
     (\<forall>i. sim_version net i = 0 \<longrightarrow> sim_version net' i = 0) \<and>
     (\<forall>i. i \<in> set ids \<or> map_of (nt_devices net) i \<noteq> None \<longrightarrow> map_of (nt_devices net') i \<noteq> None) \<and>
     (\<forall>net0. dev_reachable send (fleet net0 reg) (fleet net0 reg'))"
proof (induction ids arbitrary: net reg)
  case Nil
  then show ?case by (simp add: dev_reachable.start)
next
  case (Cons i ids)
  have r: "registry_Register i reg = (None, put_entry i (new_entry i) reg)"
    using Cons.prems(2) by (simp add: registry_Register_def)
  let ?reg = "put_entry i (new_entry i) reg" and ?net = "network_AddDevice i net"
  have pre: "distinct ids" "\<forall>k \<in> set ids. map_of (rg_devs ?reg) k = None" using Cons.prems by auto
  from Cons.IH [OF this, of ?net] obtain net' reg' where IH: "add_devices ids ?net ?reg = (None, net', reg')"
      "map_of (rg_devs reg') = (\<lambda>k. if k \<in> set ids then Some (new_entry k) else map_of (rg_devs ?reg) k)"
      "\<forall>k. sim_version ?net k = 0 \<longrightarrow> sim_version net' k = 0"
      "\<forall>k. k \<in> set ids \<or> map_of (nt_devices ?net) k \<noteq> None \<longrightarrow> map_of (nt_devices net') k \<noteq> None"
      "\<forall>net0. dev_reachable send (fleet net0 ?reg) (fleet net0 reg')"
    by (elim exE conjE)
  have zero: "sim_version net k = 0 \<longrightarrow> sim_version ?net k = 0" for k
    by (simp add: sim_version_def network_AddDevice_def)
  have step: "dev_step send (fleet net0 reg) Client (fleet net0 ?reg)" for net0
    using dev_step.register [of i "fleet net0 reg" None ?reg send] r by (simp add: fleet_def)
  have "dev_reachable send (fleet net0 reg) (fleet net0 reg')" for net0
  proof -
    have "dev_reachable send (fleet net0 ?reg) t \<Longrightarrow> dev_reachable send (fleet net0 reg) t" for t
      by (induction rule: dev_reachable.induct)
        (use step dev_reachable.start dev_reachable.step in blast)+
    then show ?thesis using IH(5) by blast
  qed
  moreover have "map_of (rg_devs reg') = (\<lambda>k. if k \<in> set (i # ids) then Some (new_entry k) else map_of (rg_devs reg) k)"
    using IH(2) by (auto simp: fun_eq_iff)
  moreover have "k \<in> set (i # ids) \<or> map_of (nt_devices net) k \<noteq> None \<longrightarrow> map_of (nt_devices net') k \<noteq> None" for k
    using IH(4) by (auto simp: network_AddDevice_def)
  ultimately show ?case using IH(1,3) zero r by auto
qed

lemma device_ids: "distinct (map device_id [0..<n])"
  by (simp add: distinct_map inj_on_def device_id_def pad2_inj)

end
