(* ===== verification/DevicesMainProps.thy ===== *)
theory DevicesMainProps
  imports DevicesMain DevicesProps
begin

text \<open>
  The property of the devices command: building the fleet cannot fail, and the table the demo
  prints once it has settled is true of the simulated devices.
\<close>

section \<open>Versions during the demo\<close>

definition desired_of :: "'n dev_sys \<Rightarrow> string \<Rightarrow> int option" where
  "desired_of s i = map_option sx_DesiredVersion (map_of (rg_devs (dy_reg s)) i)"

lemma loop_step_desired: "dev_step send s Loop s' \<Longrightarrow> desired_of s' = desired_of s"
proof (cases rule: dev_step.cases, assumption)
  fix xs did ys now nx r
  assume s: "s' = s\<lparr>dy_reg := r, dy_loops := xs @ next_loop did nx @ ys\<rparr>" "loop_top now did (dy_reg s) = (nx, r)"
  then show "desired_of s' = desired_of s"
    by (auto simp: fun_eq_iff desired_of_def loop_top_def Let_def split: option.splits if_splits)
next
  fix xs did version attempt reply ys now l r
  assume "s' = s\<lparr>dy_reg := r, dy_loops := xs @ (did, l) # ys\<rparr>" "loop_result now did version attempt reply (dy_reg s) = (l, r)"
  then show "desired_of s' = desired_of s"
    by (auto simp: fun_eq_iff desired_of_def loop_result_def Let_def split: option.splits if_splits sum.splits)
qed (auto simp: fun_eq_iff desired_of_def loop_finish_def split: option.splits)

lemma loop_run_desired: "loop_run send n s s' \<Longrightarrow> desired_of s' = desired_of s"
  by (induction rule: loop_run.induct) (simp_all add: loop_step_desired)

lemma dev_reachable_loop_run: "loop_run send n s s' \<Longrightarrow> dev_reachable send s0 s \<Longrightarrow> dev_reachable send s0 s'"
  by (induction rule: loop_run.induct) (blast intro: dev_reachable.step)+

lemma call_reachable: "dev_reachable send s0 s \<Longrightarrow> dev_reachable send s0 (call_SetConfig now i k s)"
proof -
  assume r: "dev_reachable send s0 s"
  obtain res started q where "registry_SetConfig now i k (dy_reg s) = (res, started, q)" by (metis prod_cases3)
  then show ?thesis using dev_reachable.step [OF r dev_step.set_config] by (simp add: call_SetConfig_def)
qed

lemma call_desired:
  "desired_of (call_SetConfig now i k s) j = (if j = i then map_option (\<lambda>v. v + 1) (desired_of s i) else desired_of s j)"
  by (auto simp: desired_of_def call_SetConfig_def registry_SetConfig_def Let_def split: option.splits)

lemma round_reachable: "demo_round send cfg ids s s' \<Longrightarrow> dev_reachable send s0 s \<Longrightarrow> dev_reachable send s0 s'"
  by (induction rule: demo_round.induct) (blast intro: dev_reachable_loop_run call_reachable)+

lemma round_desired:
  "demo_round send cfg ids s s' \<Longrightarrow> distinct ids \<Longrightarrow>
   desired_of s' j = (if j \<in> set ids then map_option (\<lambda>v. v + 1) (desired_of s j) else desired_of s j)"
  by (induction rule: demo_round.induct) (auto simp: call_desired loop_run_desired)

text \<open>The registry's map has distinct keys, so \<open>List\<close> shows each entry once and no other.\<close>

lemma dev_step_distinct: "dev_step send s l s' \<Longrightarrow> distinct_keys (rg_devs (dy_reg s)) \<Longrightarrow> distinct_keys (rg_devs (dy_reg s'))"
  by (erule dev_step.cases)
    (auto simp: registry_Register_def registry_SetConfig_def registry_Retry_def registry_Close_def loop_top_def
      loop_result_def loop_finish_def Let_def intro!: distinct_keys_put split: option.splits if_splits sum.splits)

lemma dev_reachable_distinct:
  "dev_reachable send s0 s \<Longrightarrow> distinct_keys (rg_devs (dy_reg s0)) \<Longrightarrow> distinct_keys (rg_devs (dy_reg s))"
  by (induction rule: dev_reachable.induct) (auto dest: dev_step_distinct)

lemma listed_entry:
  assumes "distinct_keys (rg_devs r)" and "\<And>i e. map_of (rg_devs r) i = Some e \<Longrightarrow> sx_ID e = i \<and> copyMap (sx_Config e) = sx_Config e"
  shows "st \<in> set (registry_List r) \<longleftrightarrow> (\<exists>e. map_of (rg_devs r) (sx_ID st) = Some e \<and> st = status.truncate e)"
proof -
  have "st \<in> set (registry_List r) \<longleftrightarrow> (\<exists>i e. map_of (rg_devs r) i = Some e \<and> st = (status.truncate e)\<lparr>sx_Config := copyMap (sx_Config e)\<rparr>)"
    using assms(1) by (auto simp: registry_List_def image_iff split_beta)
      (metis prod.collapse, metis fst_conv map_of_SomeD snd_conv)
  moreover have "(status.truncate e)\<lparr>sx_Config := copyMap (sx_Config e)\<rparr> = status.truncate e \<and> sx_ID (status.truncate e) = i"
    if "map_of (rg_devs r) i = Some e" for i e
    using assms(2) [OF that] by (simp add: status.defs)
  ultimately show ?thesis by metis
qed

section \<open>The demo settles\<close>

lemma dev_step_cancelled:
  "dev_step send s Loop s' \<Longrightarrow> rg_cancelled (dy_reg s') = rg_cancelled (dy_reg s)"
  by (erule dev_step.cases)
    (auto simp: loop_top_def loop_result_def loop_finish_def Let_def split: option.splits if_splits sum.splits)

lemma loop_run_cancelled: "loop_run send n s s' \<Longrightarrow> rg_cancelled (dy_reg s') = rg_cancelled (dy_reg s)"
  by (induction rule: loop_run.induct) (simp_all add: dev_step_cancelled)

lemma call_cancelled: "rg_cancelled (dy_reg (call_SetConfig now i k s)) = rg_cancelled (dy_reg s)"
  by (auto simp: call_SetConfig_def registry_SetConfig_def Let_def split: option.splits if_splits)

lemma round_cancelled: "demo_round send cfg ids s s' \<Longrightarrow> rg_cancelled (dy_reg s') = rg_cancelled (dy_reg s)"
  by (induction rule: demo_round.induct) (simp_all add: loop_run_cancelled call_cancelled)

lemma listed_settled:
  assumes "\<And>i e. map_of (rg_devs r) i = Some e \<Longrightarrow> sx_State e \<noteq> StatePending" and "distinct_keys (rg_devs r)"
  shows "registry_settled r"
  using assms by (auto simp: registry_settled_def list_ex_iff registry_List_def status.defs)

context transport
begin

lemma call_inv: "dev_inv ver cfg s \<Longrightarrow> dev_inv ver cfg (call_SetConfig now i k s)"
proof -
  obtain res started q where "registry_SetConfig now i k (dy_reg s) = (res, started, q)" by (metis prod_cases3)
  then show "dev_inv ver cfg s \<Longrightarrow> ?thesis"
    using dev_step_inv [OF dev_step.set_config] by (simp add: call_SetConfig_def)
qed

lemma round_exists: "dev_inv ver cfg s \<Longrightarrow> \<exists>s'. demo_round send k ids s s' \<and> dy_loops s' = [] \<and> dev_inv ver cfg s'"
proof (induction ids arbitrary: s)
  case Nil
  then show ?case using runs_to_rest [OF Nil] loop_run_inv [OF _ Nil] demo_round.round_end by blast
next
  case (Cons i ids)
  from Cons.IH [OF call_inv [OF Cons.prems, of 0 i "k i"]]
  show ?case using demo_round.round_call [OF loop_run.none] by blast
qed

lemma demo_settles:
  assumes "dev_inv ver cfg s" and "\<not> rg_cancelled (dy_reg s)"
    and "\<And>s'. dev_reachable send s s' \<Longrightarrow> distinct_keys (rg_devs (dy_reg s'))"
  shows "\<exists>s'. run_demo send ids s s'"
proof -
  obtain s1 where s1: "demo_round send first_config ids s s1" "dev_inv ver cfg s1" using round_exists assms(1) by blast
  obtain s2 where s2: "demo_round send (\<lambda>_. second_config) (take (length ids div 2) ids) s1 s2"
      "dy_loops s2 = []" "dev_inv ver cfg s2" using round_exists s1(2) by blast
  have "\<not> rg_cancelled (dy_reg s2)" using round_cancelled s1(1) s2(1) assms(2) by metis
  then have idle: "sx_State e \<noteq> StatePending" if "map_of (rg_devs (dy_reg s2)) i = Some e" for i e
    using at_rest [OF s2(3,2) that] by simp
  have "distinct_keys (rg_devs (dy_reg s2))"
    by (rule assms(3) [OF round_reachable [OF s2(1) round_reachable [OF s1(1) dev_reachable.start]]])
  with idle have "registry_settled (dy_reg s2)" by (rule listed_settled)
  then show ?thesis using run_demo.settled [OF s1(1) s2(1)] by blast
qed

end

section \<open>The property\<close>

lemma fleet_built:
  assumes "build_fleet n dropPush dropAck rec opts = (err, net, reg)"
  shows "err = None"
    and "map_of (rg_devs reg) = (\<lambda>i. if i \<in> set (map device_id [0..<n]) then Some (new_entry i) else None)"
    and "dev_reachable sim_Send (init_devs rec opts net) (fleet net reg)" and "\<forall>i. sim_version net i = 0"
    and "\<not> rg_cancelled (dy_reg (fleet net reg))"
proof -
  let ?reg0 = "NewRegistry rec opts"
  have "rg_cancelled (snd (snd (add_devices ids nt r))) = rg_cancelled r" for ids nt r
    by (induction ids arbitrary: nt r) (auto simp: registry_Register_def split: option.splits)
  from this [of "map device_id [0..<n]" "fault_net dropPush dropAck" ?reg0]
  show "\<not> rg_cancelled (dy_reg (fleet net reg))" using assms by (simp add: build_fleet_def fleet_def NewRegistry_def)
  from add_devices_ok [OF device_ids, of n ?reg0 "fault_net dropPush dropAck" sim_Send] assms
  show "err = None" "map_of (rg_devs reg) = (\<lambda>i. if i \<in> set (map device_id [0..<n]) then Some (new_entry i) else None)"
    "dev_reachable sim_Send (init_devs rec opts net) (fleet net reg)" "\<forall>i. sim_version net i = 0"
    by (auto simp: build_fleet_def NewRegistry_def fault_net_def NewSimNetwork_def sim_version_def fleet_def init_devs_def)
qed

lemma demo_run_facts:
  assumes "build_fleet n dropPush dropAck rec opts = (err, net, reg)"
    and "run_demo sim_Send (map device_id [0..<n]) (fleet net reg) s2"
  shows "dev_reachable sim_Send (init_devs rec opts net) s2"
    and "desired_of s2 i = (if i \<in> set (map device_id [0..<n])
      then Some (if i \<in> set (take (n div 2) (map device_id [0..<n])) then 2 else 1) else None)"
proof -
  let ?ids = "map device_id [0..<n]"
  let ?half = "take (n div 2) ?ids"
  note built = fleet_built [OF assms(1)]
  obtain s1 where s1: "demo_round sim_Send first_config ?ids (fleet net reg) s1"
      and s2: "demo_round sim_Send (\<lambda>_. second_config) ?half s1 s2"
    using assms(2) by (cases rule: run_demo.cases) auto
  show "dev_reachable sim_Send (init_devs rec opts net) s2"
    by (rule round_reachable [OF s2 round_reachable [OF s1 built(3)]])
  have "desired_of (fleet net reg) i = (if i \<in> set ?ids then Some 0 else None)" for i
    by (simp add: desired_of_def fleet_def built(2) new_entry_def)
  then show "desired_of s2 i = (if i \<in> set ?ids then Some (if i \<in> set ?half then 2 else 1) else None)"
    using round_desired [OF s1 device_ids] round_desired [OF s2 distinct_take [OF device_ids]]
      set_take_subset [of "n div 2" ?ids] by auto
qed

lemma half_ids: "i < n \<Longrightarrow> device_id i \<in> set (take (n div 2) (map device_id [0..<n])) \<longleftrightarrow> i < n div 2"
  by (auto simp: take_map device_id_def pad2_inj)

text \<open>A listed device of a settled registry.\<close>

definition true_row :: "network \<Rightarrow> status \<Rightarrow> bool" where
  "true_row net st \<longleftrightarrow> (sx_State st = StateAcked \<or> sx_State st = StateFailed) \<and>
     (sx_State st = StateAcked \<longrightarrow> sim_version net (sx_ID st) = sx_DesiredVersion st \<and> sim_config net (sx_ID st) = sx_Config st) \<and>
     sim_version net (sx_ID st) \<le> sx_DesiredVersion st"

lemma settled_true_row:
  assumes "entry_inv m c (sx_ID st) e ls (sim_version net (sx_ID st)) (sim_config net (sx_ID st))" and "st = status.truncate e"
    and "sx_State st \<noteq> StatePending" and "0 < sx_DesiredVersion e"
  shows "true_row net st"
proof -
  have f: "sx_DesiredVersion st = sx_DesiredVersion e" "sx_State st = sx_State e" "sx_Config st = sx_Config e"
    by (simp_all add: assms(2) status.defs)
  show ?thesis using assms(1,3,4) f
    by (cases "sx_State e") (auto simp: true_row_def entry_inv_def state_ok_def)
qed

lemma demo_table_rows:
  assumes "build_fleet n dropPush dropAck rec opts = (err, net, reg)"
    and "run_demo sim_Send (map device_id [0..<n]) (fleet net reg) s2"
  shows "set (map (\<lambda>(st, _). sx_ID st) (demo_table s2)) = set (map device_id [0..<n]) \<and>
    (\<forall>(st, dev) \<in> set (demo_table s2). \<exists>i < n. sx_ID st = device_id i \<and>
       sx_DesiredVersion st = (if i < n div 2 then 2 else 1) \<and> true_row (dy_net s2) st)"
proof -
  let ?ids = "map device_id [0..<n]"
  note d = demo_run_facts [OF assms]
  have settled: "registry_settled (dy_reg s2)" using assms(2) by (cases rule: run_demo.cases)
  have inv: "dev_inv sim_version sim_config s2" by (rule sim.reachable_inv [OF d(1)]) (use fleet_built(4) [OF assms(1)] in simp)
  have dist: "distinct_keys (rg_devs (dy_reg s2))"
    by (rule dev_reachable_distinct [OF d(1)]) (simp add: init_devs_def NewRegistry_def)
  have ei: "entry_inv (o_MaxAttempts (rg_opts (dy_reg s2))) (rg_cancelled (dy_reg s2)) i e (loops_of i (dy_loops s2))
      (sim_version (dy_net s2) i) (sim_config (dy_net s2) i)" if "map_of (rg_devs (dy_reg s2)) i = Some e" for i e
    using dev_invD [OF inv, of i] that by (simp add: device_inv_def)
  have list: "st \<in> set (registry_List (dy_reg s2)) \<longleftrightarrow>
      (\<exists>e. map_of (rg_devs (dy_reg s2)) (sx_ID st) = Some e \<and> st = status.truncate e)" for st
    by (rule listed_entry [OF dist]) (use ei in \<open>simp add: entry_inv_def\<close>)
  have ids: "map_of (rg_devs (dy_reg s2)) i \<noteq> None \<longleftrightarrow> i \<in> set ?ids" for i
    using d(2) [of i] by (auto simp: desired_of_def split: if_splits)
  have row: "\<exists>i < n. sx_ID st = device_id i \<and> sx_DesiredVersion st = (if i < n div 2 then 2 else 1) \<and> true_row (dy_net s2) st"
    if st: "st \<in> set (registry_List (dy_reg s2))" for st
  proof -
    obtain e where e: "map_of (rg_devs (dy_reg s2)) (sx_ID st) = Some e" "st = status.truncate e" using st list by blast
    then obtain i where i: "i < n" "sx_ID st = device_id i" using ids [of "sx_ID st"] by auto
    have v: "sx_DesiredVersion e = (if i < n div 2 then 2 else 1)"
      using d(2) [of "sx_ID st"] half_ids [OF i(1)] i e(1) by (auto simp: desired_of_def split: if_splits)
    have "sx_State st \<noteq> StatePending" using settled st by (auto simp: registry_settled_def list_ex_iff)
    then have "true_row (dy_net s2) st" using settled_true_row [OF ei [OF e(1)] e(2)] v by (simp split: if_splits)
    moreover have "sx_DesiredVersion st = sx_DesiredVersion e" by (simp add: e(2) status.defs)
    ultimately show ?thesis using i v by (intro exI [of _ i]) simp
  qed
  have "i \<in> sx_ID ` set (registry_List (dy_reg s2))" if i: "i \<in> set ?ids" for i
  proof -
    obtain e where e: "map_of (rg_devs (dy_reg s2)) i = Some e" using i ids by blast
    then have "sx_ID (status.truncate e) = i" using ei [OF e] by (simp add: entry_inv_def status.defs)
    then show ?thesis using list [of "status.truncate e"] e by (metis image_eqI)
  qed
  then have "sx_ID ` set (registry_List (dy_reg s2)) = set ?ids" using row by fastforce
  then have "set (map (\<lambda>(st, _). sx_ID st) (demo_table s2)) = set ?ids" by (simp add: demo_table_def image_image)
  then show ?thesis using row by (auto simp: demo_table_def)
qed

text \<open>
  C24: the demo's table is true. Building a fleet of any size never fails, and the demo can settle.
  Whatever the loss rates and the clock, and however the push loops interleave with the calls: once
  \<open>WaitSettled\<close> has returned, the table has every device of the fleet, the first half with desired
  version 2 and the others with 1; each is shown as acked or failed, a device shown as acked runs
  that version with that configuration, and none runs a newer version than the one desired.
\<close>

theorem demo_table_true:
  assumes "build_fleet n dropPush dropAck rec opts = (err, net, reg)"
  shows "err = None \<and> (\<exists>s. run_demo sim_Send (map device_id [0..<n]) (fleet net reg) s) \<and>
    (\<forall>s. run_demo sim_Send (map device_id [0..<n]) (fleet net reg) s \<longrightarrow>
      set (map (\<lambda>(st, _). sx_ID st) (demo_table s)) = set (map device_id [0..<n]) \<and>
      (\<forall>(st, dev) \<in> set (demo_table s). \<exists>i < n. sx_ID st = device_id i \<and>
         sx_DesiredVersion st = (if i < n div 2 then 2 else 1) \<and> true_row (dy_net s) st))"
proof -
  note b = fleet_built [OF assms]
  have "dev_inv sim_version sim_config (fleet net reg)" by (rule sim.reachable_inv [OF b(3)]) (use b(4) in simp)
  moreover have "distinct_keys (rg_devs (dy_reg (fleet net reg)))"
    by (rule dev_reachable_distinct [OF b(3)]) (simp add: init_devs_def NewRegistry_def)
  ultimately have "\<exists>s. run_demo sim_Send (map device_id [0..<n]) (fleet net reg) s"
    using sim.demo_settles [OF _ b(5)] dev_reachable_distinct by blast
  then show ?thesis using b(1) demo_table_rows [OF assms] by blast
qed

text \<open>Two devices behind a network that loses half of the pushes and half of the acknowledgements.\<close>

theorem demo_table_true_witness:
  "\<exists>net reg s. build_fleet 2 (1 / 2) (1 / 2) None demo_opts = (None, net, reg) \<and>
     run_demo sim_Send (map device_id [0..<2]) (fleet net reg) s \<and>
     sx_ID ` fst ` set (demo_table s) = {device_id 0, device_id 1}"
proof -
  obtain err net reg where b: "build_fleet 2 (1 / 2) (1 / 2) None demo_opts = (err, net, reg)" by (metis prod_cases3)
  note t = demo_table_true [OF b]
  obtain s where s: "run_demo sim_Send (map device_id [0..<2]) (fleet net reg) s" using t by blast
  have "set (map (\<lambda>(st, _). sx_ID st) (demo_table s)) = set (map device_id [0..<2])" using t s by blast
  moreover have "[0..<2] = [0, Suc 0]" by (simp add: upt_rec)
  ultimately show ?thesis using b s t by (intro exI conjI) (auto simp: image_image split_beta)
qed

end
