(* ===== verification/DevicesServe.thy ===== *)
theory DevicesServe
  imports DevicesMainProps DevicesHTTP
begin

text \<open>
  The devices command as a whole: the server, whose requests interleave with the push loops, and
  \<open>main\<close> from its flags to its end. The properties: what the API answers is true of the devices,
  and exactly which flags make the command panic.
\<close>

section \<open>The server\<close>

text \<open>A request takes the registry's lock once, and may start one push loop.\<close>

definition serve_request :: "time \<Rightarrow> dev_request \<Rightarrow> 'n dev_sys \<Rightarrow> dev_response \<times> 'n dev_sys" where
  "serve_request now q s =
     (case dev_Handler now q (dy_reg s) of
        (resp, started, r) \<Rightarrow>
          (resp, s\<lparr>dy_reg := r,
                   dy_loops := (case started of None \<Rightarrow> dy_loops s | Some did \<Rightarrow> start_loop True did (dy_loops s))\<rparr>))"

inductive serve_reachable ::
  "('w \<Rightarrow> push \<Rightarrow> 'n \<Rightarrow> (string + ack) \<times> 'n) \<Rightarrow> 'n dev_sys \<Rightarrow> 'n dev_sys \<Rightarrow> bool" for send s0 where
  start: "serve_reachable send s0 s0"
| request: "serve_reachable send s0 s \<Longrightarrow> serve_request now q s = (resp, s') \<Longrightarrow> serve_reachable send s0 s'"
| loop: "serve_reachable send s0 s \<Longrightarrow> dev_step send s Loop s' \<Longrightarrow> serve_reachable send s0 s'"

section \<open>main\<close>

record devices_flags =
  df_devices :: int
  df_dropPush :: rat
  df_dropAck :: rat
  df_ackTimeout :: duration
  df_maxAttempts :: int
  df_backoff :: duration
  df_demo :: bool

definition registry_options :: "devices_flags \<Rightarrow> options" where
  "registry_options f =
     \<lparr>o_AckTimeout = df_ackTimeout f, o_MaxAttempts = df_maxAttempts f, o_Backoff = df_backoff f\<rparr>"

text \<open>
  How the command ends: no event log, a panic of \<open>make\<close> for a negative number, a device that cannot be
  registered, a demo that did not settle, the panic of \<open>List()[0]\<close>, the printed table with the sample, or
  a server that stopped in some state.
\<close>

datatype devices_result =
    NoEventLog
  | MakePanic
  | RegisterFailed registry_error
  | NotSettled
  | IndexPanic
  | DemoTable "(status \<times> (int \<times> int \<times> int) option) list" status
  | ServerStopped "network dev_sys"

text \<open>The two rounds of the demo, whether or not the registry settles after them.\<close>

definition demo_rounds :: "string list \<Rightarrow> network dev_sys \<Rightarrow> network dev_sys \<Rightarrow> bool" where
  "demo_rounds ids s s' \<longleftrightarrow> (\<exists>s1. demo_round sim_Send first_config ids s s1 \<and>
     demo_round sim_Send (\<lambda>_. second_config) (take (length ids div 2) ids) s1 s')"

definition devices_main ::
  "bool \<Rightarrow> (nat \<Rightarrow> bool) \<Rightarrow> (nat \<Rightarrow> bool) \<Rightarrow> devices_flags \<Rightarrow> devices_result \<Rightarrow> bool" where
  "devices_main create_ok write_ok exec_ok f res \<longleftrightarrow>
     (case NewRecorder create_ok False write_ok exec_ok of
        None \<Rightarrow> res = NoEventLog
      | Some rec \<Rightarrow>
          (if df_devices f < 0 then res = MakePanic
           else (case build_fleet (nat (df_devices f)) (df_dropPush f) (df_dropAck f) (Some rec) (registry_options f) of
                   (Some e, _, _) \<Rightarrow> res = RegisterFailed e
                 | (None, net, reg) \<Rightarrow>
                     (if df_demo f then
                        (\<exists>s. demo_rounds (map device_id [0..<nat (df_devices f)]) (fleet net reg) s \<and>
                           res = (if \<not> registry_settled (dy_reg s) then NotSettled
                                  else (case demo_sample s of None \<Rightarrow> IndexPanic | Some st \<Rightarrow> DemoTable (demo_table s) st)))
                      else (\<exists>s. serve_reachable sim_Send (fleet net reg) s \<and> res = ServerStopped s)))))"

definition panics :: "devices_result \<Rightarrow> bool" where
  "panics res \<longleftrightarrow> res \<in> {MakePanic, IndexPanic}"

section \<open>The server is a client of the registry\<close>

lemma handler_cases:
  assumes "dev_Handler now q r = (resp, started, r')"
  obtains "started = None" "r' = r"
  | did cfg res b where "registry_SetConfig now did cfg r = (res, b, r')" "started = (if b then Some did else None)"
  | did err b where "registry_Retry did r = (err, b, r')" "started = (if b then Some did else None)"
proof -
  consider "started = None" "r' = r"
    | did cfg res b where "registry_SetConfig now did cfg r = (res, b, r')" "started = (if b then Some did else None)"
    | did err b where "registry_Retry did r = (err, b, r')" "started = (if b then Some did else None)"
  proof (cases "dq_Path q = ''/devices'' \<or> \<not> has_prefix (dq_Path q) ''/devices/''")
    case True
    then show ?thesis using assms that(1) by (auto simp: dev_Handler_def split: if_splits)
  next
    case False
    obtain did sub found where c: "cut (CHR ''/'') (trim_prefix (dq_Path q) ''/devices/'') = (did, sub, found)" by (metis prod_cases3)
    have no_loop: "registry_SetConfig now did cfg r = (Inl e, b, r1) \<Longrightarrow> \<not> b" "registry_Retry did r = (Some e, b, r1) \<Longrightarrow> \<not> b"
      for cfg e b r1
      by (auto simp: registry_SetConfig_def registry_Retry_def Let_def split: option.splits if_splits)
    obtain res b r1 where sc: "registry_SetConfig now did (the (dq_Body q)) r = (res, b, r1)" by (metis prod_cases3)
    obtain err b2 r2 where rt: "registry_Retry did r = (err, b2, r2)" by (metis prod_cases3)
    have "device_route now q r = (resp, started, r')" using assms False by (simp add: dev_Handler_def)
    then have "(started = None \<and> r' = r) \<or> (started = (if b then Some did else None) \<and> r' = r1) \<or>
        (started = (if b2 then Some did else None) \<and> r' = r2)"
      using sc rt no_loop(1) [of "the (dq_Body q)"] no_loop(2)
      by (cases res; cases err) (auto simp: device_route_def c Let_def split: if_splits option.splits)
    then show ?thesis using sc rt that by blast
  qed
  then show ?thesis using that by cases
qed

lemma serve_request_step:
  assumes "serve_request now q s = (resp, s')"
  shows "s' = s \<or> dev_step send s Client s'"
proof -
  obtain started r where h: "dev_Handler now q (dy_reg s) = (resp, started, r)"
    and s': "s' = s\<lparr>dy_reg := r, dy_loops := (case started of None \<Rightarrow> dy_loops s | Some did \<Rightarrow> start_loop True did (dy_loops s))\<rparr>"
    using assms by (auto simp: serve_request_def split: prod.splits)
  have loops: "(case if b then Some did else None of None \<Rightarrow> dy_loops s | Some did \<Rightarrow> start_loop True did (dy_loops s)) =
      start_loop b did (dy_loops s)" for b did by (simp add: start_loop_def)
  from h show ?thesis
  proof (cases rule: handler_cases)
    case 1
    then show ?thesis using s' by simp
  next
    case (2 did cfg res b)
    show ?thesis using dev_step.set_config [OF 2(1), of send] unfolding s' 2(2) loops by blast
  next
    case (3 did err b)
    show ?thesis using dev_step.retry [OF 3(1), of send] unfolding s' 3(2) loops by blast
  qed
qed

lemma serve_reachable_dev: "serve_reachable send s0 s \<Longrightarrow> dev_reachable send s1 s0 \<Longrightarrow> dev_reachable send s1 s"
proof (induction rule: serve_reachable.induct)
  case (request s now q resp s')
  then show ?case using serve_request_step dev_reachable.step by metis
qed (blast intro: dev_reachable.step)+

section \<open>What the API answers\<close>

fun statuses_of :: "dev_body \<Rightarrow> status list" where
  "statuses_of (StatusList sts) = sts"
| "statuses_of (OneStatus st) = [st]"
| "statuses_of EmptyBody = []"
| "statuses_of (ErrorText e) = []"
| "statuses_of (VersionJSON v) = []"

text \<open>What a status says of a simulated device.\<close>

definition status_true :: "network \<Rightarrow> status \<Rightarrow> bool" where
  "status_true net st \<longleftrightarrow> 0 \<le> sx_AckedVersion st \<and> sx_AckedVersion st \<le> sim_version net (sx_ID st) \<and>
     sim_version net (sx_ID st) \<le> sx_DesiredVersion st \<and>
     (sx_State st = StateAcked \<longrightarrow> sim_version net (sx_ID st) = sx_DesiredVersion st \<and>
        sim_config net (sx_ID st) = sx_Config st)"

lemma Status_listed: "registry_Status did r = Some st \<Longrightarrow> st \<in> set (registry_List r)"
  by (auto simp: registry_Status_def registry_List_def intro!: rev_image_eqI [OF map_of_SomeD])

lemma statuses_listed:
  assumes "dev_Handler now q r = (resp, started, r')"
  shows "set (statuses_of (dr_Body resp)) \<subseteq> set (registry_List r)"
proof -
  have "set (statuses_of (dr_Body (fst (device_route now q r)))) \<subseteq> set (registry_List r)"
    by (auto simp: device_route_def respond_def Let_def dest: Status_listed split: prod.splits option.splits sum.splits)
  then show ?thesis using assms by (auto simp: dev_Handler_def respond_def split: if_splits)
qed

lemma serve_facts:
  assumes "build_fleet n dropPush dropAck rec opts = (err, net, reg)" and "serve_reachable sim_Send (fleet net reg) s"
  shows "dev_inv sim_version sim_config s" and "distinct_keys (rg_devs (dy_reg s))"
    and "st \<in> set (registry_List (dy_reg s)) \<Longrightarrow> status_true (dy_net s) st"
proof -
  note b = fleet_built [OF assms(1)]
  have r: "dev_reachable sim_Send (init_devs rec opts net) s" by (rule serve_reachable_dev [OF assms(2) b(3)])
  show inv: "dev_inv sim_version sim_config s" by (rule sim.reachable_inv [OF r]) (use b(4) in simp)
  show d: "distinct_keys (rg_devs (dy_reg s))"
    by (rule dev_reachable_distinct [OF r]) (simp add: init_devs_def NewRegistry_def)
  have ei: "entry_inv (o_MaxAttempts (rg_opts (dy_reg s))) (rg_cancelled (dy_reg s)) i e (loops_of i (dy_loops s))
      (sim_version (dy_net s) i) (sim_config (dy_net s) i)" if "map_of (rg_devs (dy_reg s)) i = Some e" for i e
    using dev_invD [OF inv, of i] that by (simp add: device_inv_def)
  show "status_true (dy_net s) st" if st: "st \<in> set (registry_List (dy_reg s))"
  proof -
    obtain e where e: "map_of (rg_devs (dy_reg s)) (sx_ID st) = Some e" "st = status.truncate e"
      using st listed_entry [OF d] ei by (metis entry_inv_def)
    then have "sx_AckedVersion st = sx_AckedVersion e" "sx_DesiredVersion st = sx_DesiredVersion e" "sx_State st = sx_State e"
      "sx_Config st = sx_Config e" by (simp_all add: status.defs)
    then show ?thesis using ei [OF e(1)] by (auto simp: status_true_def entry_inv_def state_ok_def)
  qed
qed

text \<open>The devices of the fleet stay registered.\<close>

lemma dev_step_ids: "dev_step send s l s' \<Longrightarrow> map_of (rg_devs (dy_reg s)) i \<noteq> None \<Longrightarrow> map_of (rg_devs (dy_reg s')) i \<noteq> None"
  by (erule dev_step.cases)
    (auto simp: registry_Register_def registry_SetConfig_def registry_Retry_def registry_Close_def loop_top_def
      loop_result_def loop_finish_def Let_def split: option.splits if_splits sum.splits)

lemma serve_ids:
  "serve_reachable send s0 s \<Longrightarrow> map_of (rg_devs (dy_reg s0)) i \<noteq> None \<Longrightarrow> map_of (rg_devs (dy_reg s)) i \<noteq> None"
proof (induction rule: serve_reachable.induct)
  case (request s now q resp s')
  then show ?case using serve_request_step [OF request.hyps(2), of send] dev_step_ids by metis
next
  case (loop s s')
  then show ?case using dev_step_ids by metis
qed

lemma device_id_plain: "CHR ''/'' \<notin> set (device_id i)"
  using nat_digits_digits [of "i + 1"] by (auto simp: device_id_def pad2_def list_all_iff is_digit_def)

text \<open>
  C25: the API tells the truth. Whatever requests the server has answered before, and however the push
  loops ran and the network lost messages in between: every status an answer contains is true of the
  device at that moment, and a \<open>GET\<close> of a device of the fleet is answered with its status.
\<close>

theorem serve_answers_true:
  assumes "build_fleet n dropPush dropAck rec opts = (err, net, reg)"
    and "serve_reachable sim_Send (fleet net reg) s" and "serve_request now q s = (resp, s')"
  shows "list_all (status_true (dy_net s)) (statuses_of (dr_Body resp)) \<and> serve_reachable sim_Send (fleet net reg) s' \<and>
    (\<forall>i < n. \<exists>st. fst (serve_request now (device_request ''GET'' (device_id i) None) s) = respond 200 (OneStatus st) \<and>
       sx_ID st = device_id i)"
proof (intro conjI allI impI)
  note f = serve_facts [OF assms(1,2)]
  obtain started r where "dev_Handler now q (dy_reg s) = (resp, started, r)"
    using assms(3) by (auto simp: serve_request_def split: prod.splits)
  from statuses_listed [OF this] show "list_all (status_true (dy_net s)) (statuses_of (dr_Body resp))"
    using f(3) by (auto simp: list_all_iff)
  show "serve_reachable sim_Send (fleet net reg) s'" by (rule serve_reachable.request [OF assms(2,3)])
next
  fix i assume i: "i < n"
  have "map_of (rg_devs (dy_reg s)) (device_id i) \<noteq> None"
    by (rule serve_ids [OF assms(2)]) (use i fleet_built(2) [OF assms(1)] in \<open>simp add: fleet_def\<close>)
  then obtain e where e: "map_of (rg_devs (dy_reg s)) (device_id i) = Some e" by blast
  have "sx_ID e = device_id i"
    using dev_invD [OF serve_facts(1) [OF assms(1,2)], of "device_id i"] e by (simp add: device_inv_def entry_inv_def)
  then show "\<exists>st. fst (serve_request now (device_request ''GET'' (device_id i) None) s) = respond 200 (OneStatus st) \<and>
      sx_ID st = device_id i"
    using handle_get [OF device_id_plain, of now i "dy_reg s"] e
    by (intro exI [of _ "(status.truncate e)\<lparr>sx_Config := copyMap (sx_Config e)\<rparr>"])
      (simp add: serve_request_def registry_Status_def status.defs)
qed

lemma demo_rounds_empty:
  assumes "build_fleet n dropPush dropAck rec opts = (err, net, reg)"
    and "demo_rounds (map device_id [0..<n]) (fleet net reg) s"
  shows "registry_List (dy_reg s) = [] \<longleftrightarrow> n = 0"
proof -
  let ?ids = "map device_id [0..<n]"
  obtain s1 where s1: "demo_round sim_Send first_config ?ids (fleet net reg) s1"
    and s2: "demo_round sim_Send (\<lambda>_. second_config) (take (length ?ids div 2) ?ids) s1 s"
    using assms(2) by (auto simp: demo_rounds_def)
  have "desired_of s i \<noteq> None \<longleftrightarrow> i \<in> set ?ids" for i
  proof -
    have "desired_of (fleet net reg) i \<noteq> None \<longleftrightarrow> i \<in> set ?ids"
      by (simp add: desired_of_def fleet_def fleet_built(2) [OF assms(1)])
    then show ?thesis using round_desired [OF s1 device_ids, of i] round_desired [OF s2 distinct_take [OF device_ids], of i]
      by (simp split: if_splits)
  qed
  then have "fst ` set (rg_devs (dy_reg s)) = set ?ids" by (auto simp: desired_of_def map_of_eq_None_iff)
  then have "rg_devs (dy_reg s) = [] \<longleftrightarrow> ?ids = []" by (metis image_is_empty set_empty)
  moreover have "length (registry_List (dy_reg s)) = length (rg_devs (dy_reg s))" by (simp add: registry_List_def)
  then have "registry_List (dy_reg s) = [] \<longleftrightarrow> rg_devs (dy_reg s) = []" by (metis length_0_conv)
  ultimately show ?thesis by simp
qed


section \<open>Witnesses\<close>

definition serve_flags :: "int \<Rightarrow> devices_flags" where
  "serve_flags n = \<lparr>df_devices = n, df_dropPush = 1 / 2, df_dropAck = 0, df_ackTimeout = 300 * millisecond,
     df_maxAttempts = 5, df_backoff = 50 * millisecond, df_demo = True\<rparr>"


text \<open>A fleet of one device gets a configuration over the API and is asked for it.\<close>

theorem serve_answers_true_witness:
  "\<exists>net reg s st. build_fleet 1 (1 / 2) 0 None demo_opts = (None, net, reg) \<and> serve_reachable sim_Send (fleet net reg) s \<and>
     fst (serve_request 7 (device_request ''GET'' (device_id 0) None) s) = respond 200 (OneStatus st) \<and>
     sx_ID st = device_id 0"
proof -
  obtain err net reg where b: "build_fleet 1 (1 / 2) 0 None demo_opts = (err, net, reg)" by (metis prod_cases3)
  then have b: "build_fleet 1 (1 / 2) 0 None demo_opts = (None, net, reg)" using fleet_built(1) by metis
  let ?q = "device_request ''PUT'' (device_id 0 @ ''/config'') (Some (first_config (device_id 0)))"
  obtain resp s where s: "serve_request 5 ?q (fleet net reg) = (resp, s)" by fastforce
  from serve_answers_true [OF b serve_reachable.start s]
  have r: "serve_reachable sim_Send (fleet net reg) s" by blast
  obtain resp' s' where s': "serve_request 7 ?q s = (resp', s')" by fastforce
  have "(0::nat) < 1" by simp
  with serve_answers_true [OF b r s'] obtain st where
    "fst (serve_request 7 (device_request ''GET'' (device_id 0) None) s) = respond 200 (OneStatus st)" "sx_ID st = device_id 0"
    by blast
  with b r show ?thesis by blast
qed

end
