(* ===== verification/Spec2Isabelle.thy ===== *)
theory Spec2Isabelle
  imports SqsProgress SqsLog SchedulerProps TracerBroker DispatcherMainProps DevicesServe
begin

text \<open>
  This library models and verifies the Go code of the repository: a job scheduler with three
  faces. \<^verbatim>\<open>cmd/scheduler\<close> simulates a batch cluster in ticks; \<^verbatim>\<open>cmd/dispatcher\<close> hands
  inference batches to worker processes through an in-process coordinator (\<open>Broker\<close>) or through
  SQS; \<^verbatim>\<open>cmd/devices\<close> pushes versioned configurations to devices over a lossy network. All
  write structured events through \<^verbatim>\<open>internal/telemetry\<close>, which \<^verbatim>\<open>cmd/tracer\<close> reads back.

  Conventions. A Go \<open>int\<close> is an \<^typ>\<open>int\<close>; node capacities, requests and the retry delay
  wrap at 64 bits as Go's do, a counter that grows by one per event does not. Instants are
  nanoseconds since Go's zero time. A map whose size or order is observed is an association
  list. A function that may return an error yields an option or a sum; \<open>time.Now()\<close> is an
  argument. A method that holds a lock is one function; where a method takes the lock twice,
  each critical section is a function and a step relation interleaves them. What the runtime
  decides is an input: map iteration order, random numbers and the outcome of every write and
  send. Every function of the model is executable, and the concrete runs are evaluated; a command
  whose run depends on interleavings is a relation between its inputs and what it may end with.

  The theories, from the bottom up.
  \<^item> \<^verbatim>\<open>Prelude\<close>, \<^verbatim>\<open>GoRuntime\<close>: 64-bit arithmetic, instants, the functions of
    \<^verbatim>\<open>strings\<close> and \<^verbatim>\<open>strconv\<close> the sources call, Go maps, iteration orders, random
    numbers, and the lemmas on numerals and separators behind the round trips.
  \<^item> \<^verbatim>\<open>GoHeap\<close>: package \<^verbatim>\<open>container/heap\<close> over any implementation of its interface, and
    its correctness in the locale \<open>heap_interface\<close>.
  \<^item> \<^verbatim>\<open>Inference\<close>, \<^verbatim>\<open>Resource\<close>, \<^verbatim>\<open>JobQueue\<close>, \<^verbatim>\<open>Telemetry\<close>, \<^verbatim>\<open>Triage\<close>: one theory
    per package of \<^verbatim>\<open>internal\<close>. The queue is shown to provide the locale \<open>priority_queue\<close>,
    on which its clients rest; the policy agent, the LLM agent and their combination provide
    \<open>triage_agent\<close> (sound decisions) and \<open>total_agent\<close> (always a decision).
  \<^item> \<^verbatim>\<open>Broker\<close> (\<^verbatim>\<open>internal/dispatch/broker.go\<close>), then \<^verbatim>\<open>BrokerSystem\<close> (concurrent callers
    and the invariant), \<^verbatim>\<open>BrokerLedger\<close> (the abstract ledger: waiting, assigned, in triage,
    terminal), \<^verbatim>\<open>BrokerProgress\<close> (bounded work and completion), \<^verbatim>\<open>BrokerLog\<close> (events agree
    with counters) and \<^verbatim>\<open>BrokerProps\<close>.
  \<^item> \<^verbatim>\<open>Scheduler\<close> (\<^verbatim>\<open>cmd/scheduler/main.go\<close>): node specifications, workload, the three
    phases of a tick and whole runs; \<^verbatim>\<open>SchedulerNodes\<close> (the books of the nodes),
    \<^verbatim>\<open>SchedulerInv\<close> (no job lost, phases 1 and 2), \<^verbatim>\<open>SchedulerPlace\<close> and
    \<^verbatim>\<open>SchedulerRun\<close> (phase 3, its termination, runs), \<^verbatim>\<open>SchedulerPriority\<close> (what the default
    cluster guarantees) and \<^verbatim>\<open>SchedulerProps\<close>. The placement loop is a partial function; that
    it always returns is a theorem, by a measure on the priorities of the queued jobs.
  \<^item> \<^verbatim>\<open>Devices\<close>, \<^verbatim>\<open>DevicesSim\<close>, \<^verbatim>\<open>DevicesHTTP\<close> (\<^verbatim>\<open>internal/devices\<close>): the registry with
    its push loop, the simulated network as an instance of the locale \<open>transport\<close>, and the HTTP
    handler; \<^verbatim>\<open>DevicesSystem\<close> and \<^verbatim>\<open>DevicesInv\<close> (concurrent callers and loops, the
    invariant, the potential by which loops come to rest) and \<^verbatim>\<open>DevicesProps\<close>.
  \<^item> \<^verbatim>\<open>SqsQueue\<close> (\<^verbatim>\<open>internal/sqsqueue\<close>): tiers, the receive sweep, acknowledgements and
    dead letters over a record of the SDK's calls; \<^verbatim>\<open>SqsCoordinator\<close> and \<^verbatim>\<open>SqsWorker\<close>
    (\<^verbatim>\<open>internal/dispatch/sqs.go\<close>): the coordinator's methods, with \<open>Report\<close> in two critical
    sections, and the worker loop as a state machine. \<^verbatim>\<open>SqsSystem\<close> lets coordinator, queue and
    workers interleave, with workers that may die anywhere and a queue that redelivers;
    \<^verbatim>\<open>SqsInv\<close> has its invariant, \<^verbatim>\<open>SqsProps\<close> the properties and \<^verbatim>\<open>SqsLog\<close> the agreement of
    the log with the coordinator's tables.
  \<^item> \<^verbatim>\<open>Tracer\<close>, \<^verbatim>\<open>TracerInv\<close>, \<^verbatim>\<open>TracerProps\<close> (\<^verbatim>\<open>cmd/tracer/main.go\<close>): the timeline of a job,
    the wait summary and the device table, the last one compared with the registry that wrote
    the log.
  \<^item> \<^verbatim>\<open>Dispatcher\<close>, \<^verbatim>\<open>DispatcherProps\<close> (\<^verbatim>\<open>cmd/dispatcher/main.go\<close>): workload, agent choice, the
    broker worker, the start of the worker processes and the coordinator waiting for them, any of
    which may die. \<^verbatim>\<open>SqsRun\<close>, \<^verbatim>\<open>SqsRunInv\<close>, \<^verbatim>\<open>SqsRunProps\<close>, \<^verbatim>\<open>SqsProgress\<close>
    (\<^verbatim>\<open>cmd/dispatcher/sqs.go\<close>): the SQS coordinator as a whole, a step relation that joins the
    SQS system, the supervisor of worker processes, the channel of exits, the goroutines of the
    chaos hook and the main goroutine from the first \<open>Submit\<close> to the last reaped worker; its
    invariant, what a return means, and that a run can be brought to its end.
    \<^verbatim>\<open>DispatcherMain\<close>, \<^verbatim>\<open>DispatcherMainProps\<close>: the command from its arguments to its exit code,
    with the resources each function opens and its deferred closes. \<^verbatim>\<open>TracerBroker\<close>: the log of a
    dispatcher run read by the tracer.
  \<^item> \<^verbatim>\<open>DevicesMain\<close>, \<^verbatim>\<open>DevicesMainProps\<close>, \<^verbatim>\<open>DevicesServe\<close> (\<^verbatim>\<open>cmd/devices/main.go\<close>): the
    fleet, its fault injection, the scripted demo, the HTTP server, and \<open>main\<close>.

  What is shown. For the broker: it implements the ledger, in which \<open>Done()\<close> means that every
  accepted job is terminal; a claim is exclusive and within budget, the work is bounded and can
  always be finished, the log agrees with the counters. For the simulation: every run returns, no
  job is lost, no node is oversubscribed and nothing leaks, no completion is missed, and on the
  default cluster no job waits below a lower priority, and the summary adds up. For SQS: whatever
  workers die and the queue redelivers, an accepted job is terminal or still has a message, it is
  counted once, its outcome is final, the log is the table of outcomes, and workers leave last; a
  run that returns nil has settled every job, and a run with a free worker can get there. For the registry: what it claims of a device is true under any
  loss and interleaving, a device has at most one push loop, and delivery settles. For the
  commands: the dispatcher's workload is accepted as a whole and a run that returns nil has
  settled every job; exit code 0 means that the whole requested workload is settled, for either
  back end; every return path closes what it opened, with the exceptions that are named; the
  tracer's tables agree with the registry, its summary with a reference, and it counts the whole
  workload; the demo of the devices command prints a true table, its API answers what is true, and
  the flags that make it panic are known. For the queue, best fit and the triage
  agents: their functional behaviour. A few theorems record behaviour that differs from what
  comments promise or the code means: the shutdown race of \<open>Claim\<close> and what it does to a run of
  the dispatcher, an LLM decision with an invalid batch size, the order of equal submission times,
  preemption in vain, repeated node names, a retry the log does not show, a replacement worker that
  fails to start and stops the run for good, and workers left running when a later one fails to start.

  No loop of the model is cut off by fuel; loops end structurally, by a measure, or are partial
  functions with a theorem that they return.

  Not modelled: the flag parser and printing; JSON and SQL encoding, the RPC, HTTP and AWS
  libraries, which are parameters or absent where the code only hands values to them. What the
  operating system answers when a file, database, listener or process is opened is an input; the
  pipes to the Python process are two functions.
  Timers and sleeps appear as steps that may happen at any time, so nothing
  is said of real time. The C allocator, the Python inference runner, the serverless functions
  and the SQL schema are other programs.
\<close>

end
